(* ===== verification/Prelude.thy ===== *)
theory Prelude
  imports Complex_Main "HOL-Library.Sublist" "HOL-Library.Char_ord" "HOL-Library.List_Lexorder"
begin

text \<open>
  What the components share: the Python string operations the sources call
  (\<open>find\<close>, \<open>split\<close>, \<open>count\<close>, \<open>replace\<close>, \<open>strip\<close>, \<open>splitlines\<close>, \<open>join\<close>, \<open>str\<close>,
  \<open>repr\<close>), with the list lemmas about them, and the collections of hints the
  component theories extend.

  A Python \<open>str\<close> is a \<^typ>\<open>string\<close>: a list of code points below 256 (Latin-1).
  The character classes below (white space, printable, line boundaries) are
  Python's, restricted to those code points.
\<close>

named_theorems py_str_simps \<open>characterisations of the Python string operations\<close>
named_theorems state_simps \<open>field-wise effect of an operation on its component's state\<close>

section \<open>Substrings\<close>

text \<open>\<open>occurs_at c o i\<close>: the text \<open>o\<close> stands in \<open>c\<close> at index \<open>i\<close>.\<close>

definition occurs_at :: "'a list \<Rightarrow> 'a list \<Rightarrow> nat \<Rightarrow> bool" where
  "occurs_at c needle i \<longleftrightarrow> i \<le> length c \<and> prefix needle (drop i c)"

text \<open>The index of the first occurrence, Python's \<open>str.find\<close> with None for -1.\<close>

fun find_in :: "'a list \<Rightarrow> 'a list \<Rightarrow> nat option" where
  "find_in needle [] = (if needle = [] then Some 0 else None)"
| "find_in needle (x # xs) =
     (if prefix needle (x # xs) then Some 0 else map_option Suc (find_in needle xs))"

text \<open>\<open>str.find(needle, start)\<close>.\<close>

definition py_find :: "'a list \<Rightarrow> 'a list \<Rightarrow> nat \<Rightarrow> nat option" where
  "py_find c needle start =
     (if start \<le> length c then map_option ((+) start) (find_in needle (drop start c)) else None)"

text \<open>\<open>needle in c\<close>.\<close>

definition py_in :: "'a list \<Rightarrow> 'a list \<Rightarrow> bool" where
  "py_in needle c \<longleftrightarrow> find_in needle c \<noteq> None"

lemma find_in_Some_less:
  "find_in needle c = Some i \<Longrightarrow> i + length needle \<le> length c"
proof (induction c arbitrary: i)
  case (Cons x xs)
  then show ?case by (fastforce split: if_splits dest: prefix_length_le)
qed (auto split: if_splits)

lemma find_in_Some_occurs:
  "find_in needle c = Some i \<Longrightarrow> c = take i c @ needle @ drop (i + length needle) c"
proof (induction c arbitrary: i)
  case (Cons x xs)
  then show ?case by (auto split: if_splits elim!: prefixE)
qed (auto split: if_splits)

lemma find_in_None: "find_in needle c = None \<longleftrightarrow> (\<forall>i. \<not> occurs_at c needle i)"
proof (induction c)
  case Nil
  then show ?case by (auto simp: occurs_at_def)
next
  case (Cons x xs)
  show ?case
  proof (cases "prefix needle (x # xs)")
    case True
    then show ?thesis by (auto simp: occurs_at_def intro: exI[of _ 0])
  next
    case False
    have "(\<forall>i. \<not> occurs_at (x # xs) needle i) \<longleftrightarrow> (\<forall>i. \<not> occurs_at xs needle i)" (is "?l \<longleftrightarrow> ?r")
    proof
      assume ?l
      then show ?r by (force simp: occurs_at_def dest: spec[of _ "Suc _"])
    next
      assume r: ?r
      show ?l
      proof
        fix i show "\<not> occurs_at (x # xs) needle i"
          using r False by (cases i) (auto simp: occurs_at_def)
      qed
    qed
    with False Cons.IH show ?thesis by simp
  qed
qed

lemma occurs_at_Suc [simp]: "occurs_at (x # xs) needle (Suc i) \<longleftrightarrow> occurs_at xs needle i"
  by (simp add: occurs_at_def)

lemma find_in_Some_iff:
  "find_in needle c = Some i \<longleftrightarrow> occurs_at c needle i \<and> (\<forall>j < i. \<not> occurs_at c needle j)"
proof (induction c arbitrary: i)
  case Nil
  then show ?case by (auto simp: occurs_at_def)
next
  case (Cons x xs)
  show ?case
  proof (cases "prefix needle (x # xs)")
    case True
    then have "occurs_at (x # xs) needle 0" by (simp add: occurs_at_def)
    with True show ?thesis by (cases i) auto
  next
    case False
    then have n0: "\<not> occurs_at (x # xs) needle 0" by (simp add: occurs_at_def)
    show ?thesis
    proof (cases i)
      case 0
      with False n0 show ?thesis by auto
    next
      case (Suc k)
      have "(\<forall>j < Suc k. \<not> occurs_at (x # xs) needle j) \<longleftrightarrow> (\<forall>j < k. \<not> occurs_at xs needle j)"
        using n0 by (auto simp: less_Suc_eq_0_disj)
      with False Suc Cons.IH show ?thesis by auto
    qed
  qed
qed

lemma py_in_iff: "py_in needle c \<longleftrightarrow> (\<exists>i. occurs_at c needle i)"
  unfolding py_in_def by (simp add: find_in_None)

text \<open>Every place a text stands at, overlaps included.\<close>

definition py_positions :: "'a list \<Rightarrow> 'a list \<Rightarrow> nat list" where
  "py_positions c needle = filter (occurs_at c needle) [0..<Suc (length c)]"

lemma set_py_positions: "set (py_positions c needle) = {i. occurs_at c needle i}"
  by (auto simp: py_positions_def occurs_at_def simp del: upt_Suc)

lemma sorted_py_positions: "sorted (py_positions c needle)" "distinct (py_positions c needle)"
  by (simp_all add: py_positions_def sorted_wrt_filter del: upt_Suc)

text \<open>\<open>s.rpartition(sep)[2]\<close>: what follows the last place \<open>sep\<close> stands at.\<close>

definition py_after_last :: "'a list \<Rightarrow> 'a list \<Rightarrow> 'a list" where
  "py_after_last sep s =
     (if py_positions s sep = [] then s else drop (last (py_positions s sep) + length sep) s)"

lemma last_position:
  assumes "occurs_at s sep i" and "\<forall>j. occurs_at s sep j \<longrightarrow> j \<le> i"
  shows "py_after_last sep s = drop (i + length sep) s"
proof -
  have i: "i \<in> set (py_positions s sep)" using assms(1) by (simp add: set_py_positions)
  then have ne: "py_positions s sep \<noteq> []" by auto
  have "last (py_positions s sep) = i"
  proof (rule antisym)
    show "last (py_positions s sep) \<le> i"
      using last_in_set[OF ne] assms(2) by (simp add: set_py_positions)
    show "i \<le> last (py_positions s sep)"
      using i sorted_py_positions(1)[of s sep] ne
      by (metis append_butlast_last_id in_set_butlastD last_in_set rotate1.simps(2) set_ConsD set_rotate1 sorted_append order_refl list.set_intros(1))
  qed
  with ne show ?thesis by (simp add: py_after_last_def)
qed

lemma py_in_iff_sublist: "py_in needle c \<longleftrightarrow> sublist needle c"
proof
  assume "py_in needle c"
  then obtain i where "find_in needle c = Some i" by (auto simp: py_in_def)
  then show "sublist needle c" by (metis find_in_Some_occurs sublist_appendI)
next
  assume "sublist needle c"
  then obtain a b where "c = a @ needle @ b" by (auto simp: sublist_def)
  then have "occurs_at c needle (length a)" by (simp add: occurs_at_def)
  then show "py_in needle c" by (auto simp: py_in_iff)
qed

section \<open>split, count, replace, join\<close>

text \<open>
  \<open>str.split(sep)\<close> for a non-empty separator. Python raises ValueError on an empty
  one; no call in the sources passes an empty separator, and the model returns
  the text whole.
\<close>

function py_split :: "'a list \<Rightarrow> 'a list \<Rightarrow> 'a list list" where
  "py_split sep s =
     (if sep = [] then [s]
      else case find_in sep s of
             None \<Rightarrow> [s]
           | Some i \<Rightarrow> take i s # py_split sep (drop (i + length sep) s))"
  by pat_completeness auto
termination
proof (relation "measure (\<lambda>(sep, s). length s)", goal_cases)
  case (2 sep s i)
  then show ?case using find_in_Some_less[of sep s i] by (cases sep) auto
qed simp

declare py_split.simps [simp del]

text \<open>\<open>sep.join(parts)\<close>.\<close>

fun py_join :: "'a list \<Rightarrow> 'a list list \<Rightarrow> 'a list" where
  "py_join sep [] = []"
| "py_join sep [x] = x"
| "py_join sep (x # y # xs) = x @ sep @ py_join sep (y # xs)"

text \<open>\<open>str.count(sub)\<close>: non-overlapping occurrences, for a non-empty \<open>sub\<close>.\<close>

definition py_count :: "'a list \<Rightarrow> 'a list \<Rightarrow> nat" where
  "py_count s sub = length (py_split sub s) - 1"

text \<open>\<open>str.replace(old, new)\<close> and \<open>str.replace(old, new, 1)\<close>, for a non-empty \<open>old\<close>.\<close>

definition py_replace :: "'a list \<Rightarrow> 'a list \<Rightarrow> 'a list \<Rightarrow> 'a list" where
  "py_replace s old new = py_join new (py_split old s)"

definition py_replace1 :: "'a list \<Rightarrow> 'a list \<Rightarrow> 'a list \<Rightarrow> 'a list" where
  "py_replace1 s old new =
     (case find_in old s of None \<Rightarrow> s | Some i \<Rightarrow> take i s @ new @ drop (i + length old) s)"

lemma py_split_nonempty [simp]: "py_split sep s \<noteq> []"
  by (subst py_split.simps) (simp split: option.splits)

lemma py_split_unfold:
  "sep \<noteq> [] \<Longrightarrow> py_split sep s =
     (case find_in sep s of
        None \<Rightarrow> [s]
      | Some i \<Rightarrow> take i s # py_split sep (drop (i + length sep) s))"
  by (subst py_split.simps) simp

lemma py_join_Cons: "xs \<noteq> [] \<Longrightarrow> py_join sep (x # xs) = x @ sep @ py_join sep xs"
  by (cases xs) auto

lemma py_join_split: "py_join sep (py_split sep s) = s"
proof (induction sep s rule: py_split.induct)
  case (1 sep s)
  show ?case
  proof (cases "sep = []")
    case True
    then show ?thesis by (simp add: py_split.simps)
  next
    case False
    with 1 show ?thesis
      by (subst py_split_unfold)
        (auto simp: py_join_Cons dest: find_in_Some_occurs split: option.splits)
  qed
qed

lemma py_split_pieces:
  "sep \<noteq> [] \<Longrightarrow> p \<in> set (py_split sep s) \<Longrightarrow> \<not> py_in sep p"
proof (induction sep s rule: py_split.induct)
  case (1 sep s)
  show ?case
  proof (cases "find_in sep s")
    case None
    with 1 show ?thesis by (simp add: py_split_unfold py_in_def)
  next
    case (Some i)
    have "\<not> py_in sep (take i s)"
    proof
      assume "py_in sep (take i s)"
      then obtain j where j: "occurs_at (take i s) sep j" by (auto simp: py_in_iff)
      then have le: "j + length sep \<le> i"
        by (auto simp: occurs_at_def dest!: prefix_length_le)
      have "occurs_at s sep j"
        using j by (auto simp: occurs_at_def drop_take intro: prefix_order.trans take_is_prefix)
      moreover have "j < i" using le \<open>sep \<noteq> []\<close> by (cases sep) auto
      ultimately show False using Some by (auto simp: find_in_Some_iff)
    qed
    with Some 1 show ?thesis by (auto simp: py_split_unfold)
  qed
qed

lemma length_py_split_pos [simp]: "0 < length (py_split sep s)"
  by (metis length_greater_0_conv py_split_nonempty)

lemma py_count_found:
  assumes "needle \<noteq> []" and "find_in needle c = Some i"
  shows "py_count c needle = Suc (py_count (drop (i + length needle) c) needle)"
proof -
  have "py_split needle c = take i c # py_split needle (drop (i + length needle) c)"
    using assms by (simp add: py_split_unfold)
  then show ?thesis by (simp add: py_count_def)
qed

lemma py_count_absent:
  assumes "needle \<noteq> []" and "find_in needle c = None"
  shows "py_count c needle = 0"
proof -
  have "py_split needle c = [c]"
    using assms by (simp add: py_split_unfold)
  then show ?thesis by (simp add: py_count_def)
qed

lemma py_count_0: "needle \<noteq> [] \<Longrightarrow> py_count c needle = 0 \<longleftrightarrow> \<not> py_in needle c"
  by (cases "find_in needle c") (auto simp: py_count_found py_count_absent py_in_def)

lemma py_count_pos: "needle \<noteq> [] \<Longrightarrow> 0 < py_count c needle \<longleftrightarrow> py_in needle c"
  using py_count_0[of needle c] by auto

text \<open>Splitting at one character undoes joining with it.\<close>

lemma find_in_char: "d \<notin> set s \<Longrightarrow> find_in [d] (s @ d # t) = Some (length s)"
  by (induction s) auto

lemma find_in_char_none: "d \<notin> set s \<Longrightarrow> find_in [d] s = None"
  by (induction s) auto

lemma py_split_char:
  "d \<notin> set s \<Longrightarrow> py_split [d] s = [s]"
  "d \<notin> set s \<Longrightarrow> py_split [d] (s @ d # t) = s # py_split [d] t"
  by (simp_all add: py_split_unfold find_in_char find_in_char_none)

lemma py_split_join:
  "cs \<noteq> [] \<Longrightarrow> \<forall>c \<in> set cs. d \<notin> set c \<Longrightarrow> py_split [d] (py_join [d] cs) = cs"
proof (induction cs rule: induct_list012)
  case (2 c)
  then show ?case by (simp add: py_split_char)
next
  case (3 x y zs)
  then show ?case by (simp add: py_split_char)
qed simp

text \<open>Replacing goes on separately on both sides of a character that is not in the text replaced.\<close>

lemma find_in_around:
  assumes "needle \<noteq> []" and "x \<notin> set needle"
  shows "find_in needle (a @ x # b) =
    (case find_in needle a of Some i \<Rightarrow> Some i | None \<Rightarrow> map_option ((+) (Suc (length a))) (find_in needle b))"
proof (induction a)
  case Nil
  from assms have "\<not> prefix needle (x # b)" by (cases needle) auto
  with assms(1) show ?case by (auto simp: comp_def intro!: option.map_cong)
next
  case (Cons y a)
  have "prefix needle (y # a @ x # b) \<longleftrightarrow> prefix needle (y # a)"
  proof
    assume "prefix needle (y # a @ x # b)"
    then have "prefix needle ((y # a) @ x # b)" by simp
    then show "prefix needle (y # a)"
    proof (rule prefix_append[THEN iffD1, THEN disjE])
      assume "\<exists>us. needle = (y # a) @ us \<and> prefix us (x # b)"
      with assms(2) show ?thesis by (auto simp: prefix_Cons)
    qed
  qed (metis append_Cons prefix_prefix)
  with Cons show ?case by (cases "find_in needle b") (auto split: option.split)
qed

lemma py_replace_unfold:
  "old \<noteq> [] \<Longrightarrow> py_replace s old new =
     (case find_in old s of None \<Rightarrow> s | Some i \<Rightarrow> take i s @ new @ py_replace (drop (i + length old) s) old new)"
  by (simp add: py_replace_def py_split_unfold[of old s] py_join_Cons split: option.split)

lemma py_replace_around:
  assumes "old \<noteq> []" and "x \<notin> set old"
  shows "py_replace (a @ x # b) old new = py_replace a old new @ x # py_replace b old new"
proof (induction "length a" arbitrary: a rule: less_induct)
  case less
  show ?case
  proof (cases "find_in old a")
    case None
    then have "find_in old (a @ x # b) = map_option ((+) (Suc (length a))) (find_in old b)"
      using find_in_around[OF assms] by simp
    with None assms(1) show ?thesis
      by (cases "find_in old b") (simp_all add: py_replace_unfold[of old])
  next
    case (Some i)
    have "i + length old \<le> length a" by (rule find_in_Some_less[OF Some])
    moreover from this assms(1) have "length (drop (i + length old) a) < length a" by (cases old) auto
    note less[OF this]
    ultimately show ?thesis
      using Some find_in_around[OF assms, of a b] assms(1)
      by (simp add: py_replace_unfold[of old "a @ x # b"] py_replace_unfold[of old a])
  qed
qed

lemma py_replace_join:
  "old \<noteq> [] \<Longrightarrow> x \<notin> set old \<Longrightarrow> py_replace (py_join [x] ws) old new = py_join [x] (map (\<lambda>w. py_replace w old new) ws)"
proof (induction ws rule: induct_list012)
  case 1
  then show ?case by (simp add: py_replace_unfold)
qed (simp_all add: py_replace_around)

text \<open>One occurrence: the text splits around it, and nothing after it matches.\<close>

lemma py_count_1:
  assumes "needle \<noteq> []"
  shows "py_count c needle = 1 \<longleftrightarrow>
    (\<exists>i. find_in needle c = Some i \<and> \<not> py_in needle (drop (i + length needle) c))"
  using assms
  by (cases "find_in needle c") (auto simp: py_count_found py_count_absent py_count_0)

lemma py_replace1_found:
  "find_in old s = Some i \<Longrightarrow> py_replace1 s old new = take i s @ new @ drop (i + length old) s"
  by (simp add: py_replace1_def)

lemma py_replace_once:
  assumes "old \<noteq> []" and "py_count s old = 1"
  shows "py_replace s old new = py_replace1 s old new"
proof -
  obtain i where i: "find_in old s = Some i" and "\<not> py_in old (drop (i + length old) s)"
    using assms py_count_1[OF assms(1), of s] by auto
  then have "py_split old s = [take i s, drop (i + length old) s]"
    using \<open>old \<noteq> []\<close> by (simp add: py_split_unfold py_in_def)
  with i show ?thesis by (simp add: py_replace_def py_replace1_def)
qed

lemma py_replace_id: "py_replace s old old = s"
  by (simp add: py_replace_def py_join_split)

lemma length_py_join:
  "xs \<noteq> [] \<Longrightarrow> length (py_join sep xs) = sum_list (map length xs) + (length xs - 1) * length sep"
proof (induction sep xs rule: py_join.induct)
  case (3 sep x y xs)
  then show ?case by (simp add: algebra_simps)
qed auto

text \<open>Replacing every occurrence changes the length by the count times the difference.\<close>

lemma length_py_replace:
  "length (py_replace s old new) + py_count s old * length old
    = length s + py_count s old * length new"
proof -
  have "length s = length (py_join old (py_split old s))" by (simp add: py_join_split)
  then show ?thesis by (simp add: py_replace_def py_count_def length_py_join algebra_simps)
qed

section \<open>Characters, white space, lines\<close>

abbreviation (input) NL :: char where "NL \<equiv> CHR 0x0A"
abbreviation (input) CR :: char where "CR \<equiv> CHR 0x0D"
abbreviation (input) TAB :: char where "TAB \<equiv> CHR 0x09"

definition code_point :: "char \<Rightarrow> nat" where
  "code_point c = of_char c"

text \<open>\<open>str.isspace\<close> (and \<open>\s\<close> in a \<open>str\<close> pattern) on code points below 256.\<close>

definition py_isspace :: "char \<Rightarrow> bool" where
  "py_isspace c \<longleftrightarrow> (let n = code_point c in
     (9 \<le> n \<and> n \<le> 13) \<or> (28 \<le> n \<and> n \<le> 32) \<or> n = 133 \<or> n = 160)"

definition py_lstrip :: "string \<Rightarrow> string" where
  "py_lstrip s = dropWhile py_isspace s"

definition py_rstrip :: "string \<Rightarrow> string" where
  "py_rstrip s = rev (dropWhile py_isspace (rev s))"

definition py_strip :: "string \<Rightarrow> string" where
  "py_strip s = py_rstrip (py_lstrip s)"

text \<open>\<open>s.strip(chars)\<close>, and \<open>s.split()\<close>, the words between runs of white space.\<close>

definition py_strip_chars :: "string \<Rightarrow> string \<Rightarrow> string" where
  "py_strip_chars cs s = rev (dropWhile (\<lambda>c. c \<in> set cs) (rev (dropWhile (\<lambda>c. c \<in> set cs) s)))"

fun words_from :: "string \<Rightarrow> string \<Rightarrow> string list" where
  "words_from acc [] = (if acc = [] then [] else [rev acc])"
| "words_from acc (c # cs) =
     (if py_isspace c then (if acc = [] then words_from [] cs else rev acc # words_from [] cs)
      else words_from (c # acc) cs)"

definition py_words :: "string \<Rightarrow> string list" where
  "py_words s = words_from [] s"

text \<open>\<open>str.splitlines\<close>: a boundary ends a line, and \<open>CR LF\<close> is one boundary.\<close>

definition is_line_break :: "char \<Rightarrow> bool" where
  "is_line_break c \<longleftrightarrow> (let n = code_point c in
     (10 \<le> n \<and> n \<le> 13) \<or> (28 \<le> n \<and> n \<le> 30) \<or> n = 133)"

fun splitlines_from :: "string \<Rightarrow> string \<Rightarrow> string list" where
  "splitlines_from acc [] = (if acc = [] then [] else [rev acc])"
| "splitlines_from acc (c # cs) =
     (if \<not> is_line_break c then splitlines_from (c # acc) cs
      else if c = CR \<and> cs \<noteq> [] \<and> hd cs = NL then rev acc # splitlines_from [] (tl cs)
      else rev acc # splitlines_from [] cs)"

definition py_splitlines :: "string \<Rightarrow> string list" where
  "py_splitlines s = splitlines_from [] s"

text \<open>\<open>str.lower\<close> on Latin-1.\<close>

definition py_lower_char :: "char \<Rightarrow> char" where
  "py_lower_char c = (let n = code_point c in
     if (65 \<le> n \<and> n \<le> 90) \<or> (192 \<le> n \<and> n \<le> 222 \<and> n \<noteq> 215) then char_of (n + 32) else c)"

definition py_lower :: "string \<Rightarrow> string" where
  "py_lower s = map py_lower_char s"

text \<open>\<open>str.upper\<close>, of the letters of ASCII only.\<close>

definition ascii_upper :: "string \<Rightarrow> string" where
  "ascii_upper s = map (\<lambda>c. let n = code_point c in if 97 \<le> n \<and> n \<le> 122 then char_of (n - 32) else c) s"

section \<open>str and repr\<close>

definition is_digit :: "char \<Rightarrow> bool" where
  "is_digit c \<longleftrightarrow> 48 \<le> code_point c \<and> code_point c \<le> 57"

text \<open>
  \<open>int(text)\<close>: surrounding white space, a sign, and digits in groups separated by single
  underscores; None for the ValueError.
\<close>

fun digit_groups :: "bool \<Rightarrow> string \<Rightarrow> int \<Rightarrow> int option" where
  "digit_groups after_digit [] acc = (if after_digit then Some acc else None)"
| "digit_groups after_digit (c # cs) acc =
     (if is_digit c then digit_groups True cs (acc * 10 + (int (code_point c) - 48))
      else if c = CHR ''_'' \<and> after_digit then digit_groups False cs acc
      else None)"

definition py_int :: "string \<Rightarrow> int option" where
  "py_int text =
     (case py_strip text of
        [] \<Rightarrow> None
      | c # cs \<Rightarrow>
          if c = CHR ''+'' then digit_groups False cs 0
          else if c = CHR ''-'' then map_option uminus (digit_groups False cs 0)
          else digit_groups False (c # cs) 0)"

text \<open>\<open>isnumeric\<close> and \<open>isalpha\<close> on Latin-1, and what a regular expression calls a word character.\<close>

definition is_numeric :: "char \<Rightarrow> bool" where
  "is_numeric c \<longleftrightarrow> is_digit c \<or> code_point c \<in> {178, 179, 185, 188, 189, 190}"

definition all_digits :: "string \<Rightarrow> bool" where
  "all_digits s \<longleftrightarrow> s \<noteq> [] \<and> list_all is_numeric s"

definition is_alpha :: "char \<Rightarrow> bool" where
  "is_alpha c \<longleftrightarrow> (let n = code_point c in
     65 \<le> n \<and> n \<le> 90 \<or> 97 \<le> n \<and> n \<le> 122 \<or> n = 170 \<or> n = 181 \<or> n = 186 \<or>
     192 \<le> n \<and> n \<noteq> 215 \<and> n \<noteq> 247)"

definition is_word_char :: "char \<Rightarrow> bool" where
  "is_word_char c \<longleftrightarrow> is_alpha c \<or> is_numeric c \<or> c = CHR ''_''"

definition digit_char :: "nat \<Rightarrow> char" where
  "digit_char d = char_of (if d < 10 then 48 + d else 87 + d)"

fun str_nat :: "nat \<Rightarrow> string" where
  "str_nat n = (if n < 10 then [digit_char n] else str_nat (n div 10) @ [digit_char (n mod 10)])"

declare str_nat.simps [simp del]

definition str_int :: "int \<Rightarrow> string" where
  "str_int i = (if i < 0 then CHR ''-'' # str_nat (nat (- i)) else str_nat (nat i))"

text \<open>
  \<open>repr\<close> of a text: single quotes unless it holds a single and no double quote,
  the usual escapes, and \<open>\xNN\<close> for what is not printable.
\<close>

definition hex2 :: "nat \<Rightarrow> string" where
  "hex2 n = [digit_char (n div 16 mod 16), digit_char (n mod 16)]"

definition py_printable :: "char \<Rightarrow> bool" where
  "py_printable c \<longleftrightarrow> (let n = code_point c in
     (32 \<le> n \<and> n \<le> 126) \<or> (161 \<le> n \<and> n \<noteq> 173))"

definition repr_char :: "char \<Rightarrow> char \<Rightarrow> string" where
  "repr_char quote c =
     (if c = quote \<or> c = CHR 0x5C then [CHR 0x5C, c]
      else if c = TAB then [CHR 0x5C, CHR ''t'']
      else if c = NL then [CHR 0x5C, CHR ''n'']
      else if c = CR then [CHR 0x5C, CHR ''r'']
      else if py_printable c then [c]
      else [CHR 0x5C, CHR ''x''] @ hex2 (code_point c))"

definition py_repr :: "string \<Rightarrow> string" where
  "py_repr s =
     (let quote = (if CHR 0x27 \<in> set s \<and> CHR 0x22 \<notin> set s then CHR 0x22 else CHR 0x27)
      in [quote] @ concat (map (repr_char quote) s) @ [quote])"

lemma str_nat_nonempty [simp]: "str_nat n \<noteq> []"
  by (subst str_nat.simps) simp

lemma py_lstrip_idem [simp]: "py_lstrip (py_lstrip s) = py_lstrip s"
  by (simp add: py_lstrip_def dropWhile_idem)

lemma py_strip_Nil_iff: "py_strip s = [] \<longleftrightarrow> (\<forall>c \<in> set s. py_isspace c)"
proof -
  have "py_strip s = [] \<longleftrightarrow> (\<forall>c \<in> set (dropWhile py_isspace s). py_isspace c)"
    by (auto simp: py_strip_def py_rstrip_def py_lstrip_def dropWhile_eq_Nil_conv)
  also have "\<dots> \<longleftrightarrow> (\<forall>c \<in> set s. py_isspace c)"
  proof
    assume h: "\<forall>c \<in> set (dropWhile py_isspace s). py_isspace c"
    show "\<forall>c \<in> set s. py_isspace c"
    proof
      fix c assume "c \<in> set s"
      then have "c \<in> set (takeWhile py_isspace s) \<union> set (dropWhile py_isspace s)"
        by (metis set_append takeWhile_dropWhile_id)
      with h show "py_isspace c" by (auto dest: set_takeWhileD)
    qed
  qed (auto dest: set_dropWhileD)
  finally show ?thesis .
qed

section \<open>Searching lists\<close>

text \<open>\<open>next((i for i, x in enumerate(xs) if p(x)), -1)\<close>, with None for -1.\<close>

fun first_index :: "('a \<Rightarrow> bool) \<Rightarrow> 'a list \<Rightarrow> nat option" where
  "first_index p [] = None"
| "first_index p (x # xs) = (if p x then Some 0 else map_option Suc (first_index p xs))"

lemma first_index_Some:
  "first_index p xs = Some i \<longleftrightarrow> i < length xs \<and> p (xs ! i) \<and> (\<forall>j < i. \<not> p (xs ! j))"
proof (induction xs arbitrary: i)
  case (Cons x xs)
  then show ?case by (cases i) (auto simp: less_Suc_eq_0_disj)
qed simp

lemma first_index_None: "first_index p xs = None \<longleftrightarrow> (\<forall>x \<in> set xs. \<not> p x)"
  by (induction xs) auto

text \<open>How many leading elements two lists share.\<close>

fun common_len :: "'a list \<Rightarrow> 'a list \<Rightarrow> nat" where
  "common_len (x # xs) (y # ys) = (if x = y then Suc (common_len xs ys) else 0)"
| "common_len _ _ = 0"

lemma common_len_take: "take (common_len xs ys) xs = take (common_len xs ys) ys"
  by (induction xs ys rule: common_len.induct) auto

lemma common_len_le: "common_len xs ys \<le> length xs" "common_len xs ys \<le> length ys"
  by (induction xs ys rule: common_len.induct) auto

lemma common_len_differ:
  "common_len xs ys < length xs \<Longrightarrow> common_len xs ys < length ys \<Longrightarrow>
    xs ! common_len xs ys \<noteq> ys ! common_len xs ys"
  by (induction xs ys rule: common_len.induct) auto

text \<open>\<open>f"...{n} line{'' if n == 1 else 's'}"\<close>.\<close>

definition plural :: "nat \<Rightarrow> string" where
  "plural n = (if n = 1 then [] else ''s'')"

section \<open>Runs of a component\<close>

text \<open>A run of calls on a state: each call with its answer, in order, and the final state.\<close>

fun run_calls :: "('c \<Rightarrow> 's \<Rightarrow> 'b \<times> 's) \<Rightarrow> 'c list \<Rightarrow> 's \<Rightarrow> ('c \<times> 'b) list \<times> 's" where
  "run_calls step [] s = ([], s)"
| "run_calls step (c # cs) s =
     (let (b, s1) = step c s; (tr, s2) = run_calls step cs s1 in ((c, b) # tr, s2))"

definition trace :: "('c \<Rightarrow> 's \<Rightarrow> 'b \<times> 's) \<Rightarrow> 'c list \<Rightarrow> 's \<Rightarrow> ('c \<times> 'b) list" where
  "trace step cs s = fst (run_calls step cs s)"

lemma trace_simps [simp]:
  "trace step [] s = []"
  "trace step (c # cs) s = (c, fst (step c s)) # trace step cs (snd (step c s))"
  by (simp_all add: trace_def split: prod.splits)

lemma map_fst_trace [simp]: "map fst (trace step cs s) = cs"
  by (induction cs arbitrary: s) simp_all

definition after :: "('c \<Rightarrow> 's \<Rightarrow> 'b \<times> 's) \<Rightarrow> 'c list \<Rightarrow> 's \<Rightarrow> 's" where
  "after step cs s = snd (run_calls step cs s)"

lemma after_simps [simp]:
  "after step [] s = s"
  "after step (c # cs) s = after step cs (snd (step c s))"
  by (simp_all add: after_def split: prod.splits)

lemma after_append [simp]: "after step (cs @ ds) s = after step ds (after step cs s)"
  by (induction cs arbitrary: s) simp_all

lemma after_invariant:
  assumes "\<And>c s. I s \<Longrightarrow> ok c \<Longrightarrow> I (snd (step c s))"
  shows "list_all ok cs \<Longrightarrow> I s \<Longrightarrow> I (after step cs s)"
  by (induction cs arbitrary: s) (simp_all add: assms)

text \<open>The part of a log of times that lies after a moment.\<close>

definition since :: "'a::linorder \<Rightarrow> 'a list \<Rightarrow> 'a list" where
  "since start ts = filter (\<lambda>t. start < t) ts"

lemma since_outdated [simp]: "(\<forall>t \<in> set ts. t \<le> start) \<Longrightarrow> since start ts = []"
  by (auto simp: since_def filter_empty_conv)

lemma since_append [simp]: "since start (ts @ us) = since start ts @ since start us"
  by (simp add: since_def)

lemma since_twice: "start \<le> later \<Longrightarrow> since later (since start ts) = since later ts"
  by (auto simp: since_def intro!: filter_cong)

end
