(* ===== verification/Json.thy ===== *)
theory Json
  imports Prelude
begin

text \<open>
  JSON values as the sources handle them: what \<open>json.loads\<close> returns and
  \<open>json.dumps\<close> writes, with the \<open>dict\<close> operations on objects. An object is an
  association list, because Python dictionaries keep insertion order and the
  order shows in what \<open>dumps\<close> writes. The parser follows CPython's scanner,
  its messages included.

  Floats are kept as the text that writes them; no modelled code computes with a
  float it found in a payload. Escapes above \<open>\u00ff\<close> lie outside the
  string model and make the parser answer \<open>Not_modelled\<close>.
\<close>

datatype json =
    JNull
  | JBool bool
  | JInt int
  | JFloat string
  | JStr string
  | JArr "json list"
  | JObj "(string \<times> json) list"

type_synonym dict = "(string \<times> json) list"

section \<open>Dictionaries\<close>

text \<open>\<open>d.get(k)\<close>: None for a missing key and for a key bound to None.\<close>

definition dict_get :: "dict \<Rightarrow> string \<Rightarrow> json" where
  "dict_get d k = (case map_of d k of None \<Rightarrow> JNull | Some v \<Rightarrow> v)"

text \<open>\<open>k in d\<close>.\<close>

definition dict_has :: "dict \<Rightarrow> string \<Rightarrow> bool" where
  "dict_has d k \<longleftrightarrow> map_of d k \<noteq> None"

text \<open>\<open>d[k] = v\<close>, which is also \<open>{**d, k: v}\<close>: in place when the key exists, else at the end.\<close>

fun dict_set :: "string \<Rightarrow> json \<Rightarrow> dict \<Rightarrow> dict" where
  "dict_set k v [] = [(k, v)]"
| "dict_set k v ((a, b) # d) = (if a = k then (k, v) # d else (a, b) # dict_set k v d)"

lemma map_of_dict_set: "map_of (dict_set k v d) = (map_of d)(k \<mapsto> v)"
  by (induction d) (auto simp: fun_eq_iff)

lemma dict_get_set [simp]:
  "dict_get (dict_set k v d) k' = (if k' = k then v else dict_get d k')"
  by (simp add: dict_get_def map_of_dict_set)

lemma dict_has_set [simp]: "dict_has (dict_set k v d) k' \<longleftrightarrow> k' = k \<or> dict_has d k'"
  by (simp add: dict_has_def map_of_dict_set)

lemma dict_has_in_keys: "dict_has d k \<longleftrightarrow> k \<in> set (map fst d)"
  by (auto simp: dict_has_def map_of_eq_None_iff)

lemma dict_get_absent [simp]: "\<not> dict_has d k \<Longrightarrow> dict_get d k = JNull"
  by (simp add: dict_get_def dict_has_def)

lemma keys_dict_set: "map fst (dict_set k v d) = (if dict_has d k then map fst d else map fst d @ [k])"
  by (induction d) (auto simp: dict_has_def)

lemma distinct_dict_set:
  "distinct (map fst d) \<Longrightarrow> distinct (map fst (dict_set k v d))"
  by (simp add: keys_dict_set dict_has_in_keys)

lemma dict_set_same:
  "map_of d k = Some v \<Longrightarrow> dict_set k v d = d"
  by (induction d) (auto split: if_splits)

lemma dict_set_append: "\<not> dict_has d k \<Longrightarrow> dict_set k v d = d @ [(k, v)]"
  by (induction d) (auto simp: dict_has_def)

lemma dict_set_twice [simp]: "dict_set k v (dict_set k w d) = dict_set k v d"
  by (induction d) auto

section \<open>Truth values, str and repr\<close>

text \<open>A float literal denotes zero when its mantissa has no digit but 0.\<close>

definition float_is_zero :: "string \<Rightarrow> bool" where
  "float_is_zero t \<longleftrightarrow>
     list_all (\<lambda>c. c \<in> set ''-0.'') (takeWhile (\<lambda>c. c \<notin> set ''eE'') t)"

text \<open>\<open>bool(x)\<close>.\<close>

fun truthy :: "json \<Rightarrow> bool" where
  "truthy JNull = False"
| "truthy (JBool b) = b"
| "truthy (JInt i) = (i \<noteq> 0)"
| "truthy (JFloat t) = (\<not> float_is_zero t)"
| "truthy (JStr s) = (s \<noteq> [])"
| "truthy (JArr xs) = (xs \<noteq> [])"
| "truthy (JObj d) = (d \<noteq> [])"

definition float_repr :: "string \<Rightarrow> string" where
  "float_repr t =
     (if t = ''NaN'' then ''nan'' else if t = ''Infinity'' then ''inf''
      else if t = ''-Infinity'' then ''-inf'' else t)"

fun json_repr :: "json \<Rightarrow> string" where
  "json_repr JNull = ''None''"
| "json_repr (JBool b) = (if b then ''True'' else ''False'')"
| "json_repr (JInt i) = str_int i"
| "json_repr (JFloat t) = float_repr t"
| "json_repr (JStr s) = py_repr s"
| "json_repr (JArr xs) = ''['' @ py_join '', '' (map json_repr xs) @ '']''"
| "json_repr (JObj d) =
     ''{'' @ py_join '', '' (map (\<lambda>(k, v). py_repr k @ '': '' @ json_repr v) d) @ ''}''"

text \<open>\<open>str(x)\<close>.\<close>

definition json_str :: "json \<Rightarrow> string" where
  "json_str j = (case j of JStr s \<Rightarrow> s | _ \<Rightarrow> json_repr j)"

text \<open>\<open>isinstance(x, int)\<close> holds of \<open>True\<close> and \<open>False\<close> too, with the values 1 and 0.\<close>

fun as_int :: "json \<Rightarrow> int option" where
  "as_int (JInt i) = Some i"
| "as_int (JBool b) = Some (if b then 1 else 0)"
| "as_int _ = None"

text \<open>\<open>float.is_integer\<close> with the integer, the float read as the decimal number its text denotes.\<close>

definition float_integer :: "string \<Rightarrow> int option" where
  "float_integer t =
     (let negative = (t \<noteq> [] \<and> hd t = CHR ''-''); t = (if negative then tl t else t);
          mantissa = takeWhile (\<lambda>c. c \<notin> set ''eE'') t;
          exponent = drop (length mantissa + 1) t;
          whole = takeWhile (\<lambda>c. c \<noteq> CHR ''.'') mantissa;
          frac = drop (length whole + 1) mantissa
      in case (digit_groups False (whole @ frac) 0, if exponent = [] then Some 0 else py_int exponent) of
           (Some digits, Some e) \<Rightarrow>
             (let shift = e - int (length frac); sign = (if negative then -1 else 1) in
              if shift \<ge> 0 then Some (sign * digits * 10 ^ nat shift)
              else if digits mod 10 ^ nat (- shift) = 0 then Some (sign * (digits div 10 ^ nat (- shift)))
              else None)
         | _ \<Rightarrow> None)"

section \<open>json.dumps\<close>

definition dumps_char :: "char \<Rightarrow> string" where
  "dumps_char c =
     (if c = CHR 0x22 then [CHR 0x5C, CHR 0x22]
      else if c = CHR 0x5C then [CHR 0x5C, CHR 0x5C]
      else if c = NL then [CHR 0x5C, CHR ''n'']
      else if c = CR then [CHR 0x5C, CHR ''r'']
      else if c = TAB then [CHR 0x5C, CHR ''t'']
      else if c = CHR 0x0C then [CHR 0x5C, CHR ''f'']
      else if c = CHR 0x08 then [CHR 0x5C, CHR ''b'']
      else if 32 \<le> code_point c \<and> code_point c \<le> 126 then [c]
      else [CHR 0x5C, CHR ''u'', CHR ''0'', CHR ''0''] @ hex2 (code_point c))"

definition dumps_str :: "string \<Rightarrow> string" where
  "dumps_str s = CHR 0x22 # concat (map dumps_char s) @ [CHR 0x22]"

fun json_dumps :: "json \<Rightarrow> string" where
  "json_dumps JNull = ''null''"
| "json_dumps (JBool b) = (if b then ''true'' else ''false'')"
| "json_dumps (JInt i) = str_int i"
| "json_dumps (JFloat t) = t"
| "json_dumps (JStr s) = dumps_str s"
| "json_dumps (JArr xs) = ''['' @ py_join '', '' (map json_dumps xs) @ '']''"
| "json_dumps (JObj d) =
     ''{'' @ py_join '', '' (map (\<lambda>(k, v). dumps_str k @ '': '' @ json_dumps v) d) @ ''}''"

end
