(* ===== verification/Json_Codec.thy ===== *)
theory Json_Codec
  imports Json
begin

text \<open>
  \<open>json.loads\<close> and its agreement with \<open>json.dumps\<close>: parsing what was dumped
  gives the value back. The components that re-read JSON they wrote (tool-call
  arguments, saved sessions) use this through the interface \<open>json_codec\<close>.
\<close>

section \<open>json.loads\<close>

datatype json_error = Decode_error string | Not_modelled | Out_of_fuel

definition json_ws :: "char \<Rightarrow> bool" where
  "json_ws c \<longleftrightarrow> c \<in> {CHR '' '', TAB, NL, CR}"

abbreviation (input) skip_ws :: "string \<Rightarrow> string" where
  "skip_ws \<equiv> dropWhile json_ws"

definition digit_val :: "char \<Rightarrow> nat" where
  "digit_val c = code_point c - 48"

definition digits_val :: "string \<Rightarrow> nat" where
  "digits_val ds = foldl (\<lambda>n c. 10 * n + digit_val c) 0 ds"

definition hex_val :: "char \<Rightarrow> nat option" where
  "hex_val c =
     (if is_digit c then Some (code_point c - 48)
      else if 97 \<le> code_point c \<and> code_point c \<le> 102 then Some (code_point c - 87)
      else if 65 \<le> code_point c \<and> code_point c \<le> 70 then Some (code_point c - 55)
      else None)"

definition hex4 :: "char \<Rightarrow> char \<Rightarrow> char \<Rightarrow> char \<Rightarrow> nat option" where
  "hex4 a b c d =
     (case (hex_val a, hex_val b, hex_val c, hex_val d) of
        (Some w, Some x, Some y, Some z) \<Rightarrow> Some (((w * 16 + x) * 16 + y) * 16 + z)
      | _ \<Rightarrow> None)"

definition unescape :: "char \<Rightarrow> char option" where
  "unescape c =
     (if c = CHR 0x22 \<or> c = CHR 0x5C \<or> c = CHR ''/'' then Some c
      else if c = CHR ''b'' then Some (CHR 0x08)
      else if c = CHR ''f'' then Some (CHR 0x0C)
      else if c = CHR ''n'' then Some NL
      else if c = CHR ''r'' then Some CR
      else if c = CHR ''t'' then Some TAB
      else None)"

text \<open>The rest of a string literal, after its opening quote.\<close>

fun parse_str :: "string \<Rightarrow> string \<Rightarrow> json_error + string \<times> string" where
  "parse_str acc [] = Inl (Decode_error ''Unterminated string starting at'')"
| "parse_str acc (c # cs) =
     (if c = CHR 0x22 then Inr (rev acc, cs)
      else if c = CHR 0x5C then
        (case cs of
           [] \<Rightarrow> Inl (Decode_error ''Unterminated string starting at'')
         | e # es \<Rightarrow>
             if e = CHR ''u'' then
               (case es of
                  w # x # y # z # rest \<Rightarrow>
                    (case hex4 w x y z of
                       None \<Rightarrow> Inl (Decode_error (''Invalid '' @ [CHR 0x5C] @ ''uXXXX escape''))
                     | Some n \<Rightarrow> if n < 256 then parse_str (char_of n # acc) rest
                                 else Inl Not_modelled)
                | _ \<Rightarrow> Inl (Decode_error (''Invalid '' @ [CHR 0x5C] @ ''uXXXX escape'')))
             else (case unescape e of
                     None \<Rightarrow> Inl (Decode_error (''Invalid '' @ [CHR 0x5C] @ ''escape''))
                   | Some x \<Rightarrow> parse_str (x # acc) es))
      else if code_point c < 32 then Inl (Decode_error ''Invalid control character at'')
      else parse_str (c # acc) cs)"

text \<open>A number, whose first character is a digit or a minus sign.\<close>

definition split_frac :: "string \<Rightarrow> string \<times> string" where
  "split_frac s =
     (case s of
        c # d # r \<Rightarrow> if c = CHR ''.'' \<and> is_digit d
                     then (c # takeWhile is_digit (d # r), dropWhile is_digit (d # r)) else ([], s)
      | _ \<Rightarrow> ([], s))"

definition split_exp :: "string \<Rightarrow> string \<times> string" where
  "split_exp s =
     (case s of
        c # d # r \<Rightarrow>
          if c \<in> {CHR ''e'', CHR ''E''} then
            (if is_digit d then (c # takeWhile is_digit (d # r), dropWhile is_digit (d # r))
             else if d \<in> {CHR ''+'', CHR ''-''} \<and> r \<noteq> [] \<and> is_digit (hd r)
             then (c # d # takeWhile is_digit r, dropWhile is_digit r)
             else ([], s))
          else ([], s)
      | _ \<Rightarrow> ([], s))"

definition int_digits :: "string \<Rightarrow> string" where
  "int_digits s = (if hd s = CHR ''0'' then ''0'' else takeWhile is_digit s)"

definition finish_num :: "bool \<Rightarrow> string \<Rightarrow> string \<Rightarrow> json \<times> string" where
  "finish_num neg ip r =
     (let (fp, r1) = split_frac r;
          (ep, r2) = split_exp r1
      in if fp = [] \<and> ep = []
         then (JInt (if neg then - int (digits_val ip) else int (digits_val ip)), r2)
         else (JFloat ((if neg then ''-'' else []) @ ip @ fp @ ep), r2))"

definition parse_unsigned :: "bool \<Rightarrow> string \<Rightarrow> json_error + json \<times> string" where
  "parse_unsigned neg s =
     (if s = [] then Inl (Decode_error ''Expecting value'')
      else if is_digit (hd s)
      then Inr (finish_num neg (int_digits s) (drop (length (int_digits s)) s))
      else if neg \<and> prefix ''Infinity'' s then Inr (JFloat ''-Infinity'', drop 8 s)
      else Inl (Decode_error ''Expecting value''))"

definition parse_num :: "string \<Rightarrow> json_error + json \<times> string" where
  "parse_num s =
     (if s \<noteq> [] \<and> hd s = CHR ''-'' then parse_unsigned True (tl s) else parse_unsigned False s)"

text \<open>
  Values, the elements of an array and the members of an object, each from its first
  character. The fuel bounds the nesting; \<open>json_loads\<close> gives enough of it.
\<close>

fun parse_value :: "nat \<Rightarrow> string \<Rightarrow> json_error + json \<times> string"
  and parse_elems :: "nat \<Rightarrow> string \<Rightarrow> json_error + json list \<times> string"
  and parse_members :: "nat \<Rightarrow> dict \<Rightarrow> string \<Rightarrow> json_error + dict \<times> string"
where
  "parse_value 0 s = Inl Out_of_fuel"
| "parse_value (Suc n) [] = Inl (Decode_error ''Expecting value'')"
| "parse_value (Suc n) (c # cs) =
     (if c = CHR 0x22 then
        (case parse_str [] cs of Inl e \<Rightarrow> Inl e | Inr (s, r) \<Rightarrow> Inr (JStr s, r))
      else if c = CHR ''{'' then
        (let r = skip_ws cs in
         if r \<noteq> [] \<and> hd r = CHR ''}'' then Inr (JObj [], tl r)
         else (case parse_members n [] r of Inl e \<Rightarrow> Inl e | Inr (d, r') \<Rightarrow> Inr (JObj d, r')))
      else if c = CHR ''['' then
        (let r = skip_ws cs in
         if r \<noteq> [] \<and> hd r = CHR '']'' then Inr (JArr [], tl r)
         else (case parse_elems n r of Inl e \<Rightarrow> Inl e | Inr (vs, r') \<Rightarrow> Inr (JArr vs, r')))
      else if prefix ''null'' (c # cs) then Inr (JNull, drop 4 (c # cs))
      else if prefix ''true'' (c # cs) then Inr (JBool True, drop 4 (c # cs))
      else if prefix ''false'' (c # cs) then Inr (JBool False, drop 5 (c # cs))
      else if prefix ''NaN'' (c # cs) then Inr (JFloat ''NaN'', drop 3 (c # cs))
      else if prefix ''Infinity'' (c # cs) then Inr (JFloat ''Infinity'', drop 8 (c # cs))
      else parse_num (c # cs))"
| "parse_elems 0 s = Inl Out_of_fuel"
| "parse_elems (Suc n) s =
     (case parse_value n s of
        Inl e \<Rightarrow> Inl e
      | Inr (v, r) \<Rightarrow>
          (case skip_ws r of
             [] \<Rightarrow> Inl (Decode_error (''Expecting '' @ py_repr '','' @ '' delimiter''))
           | c # cs \<Rightarrow>
               if c = CHR '']'' then Inr ([v], cs)
               else if c = CHR '','' then
                 (let r1 = skip_ws cs in
                  if r1 \<noteq> [] \<and> hd r1 = CHR '']''
                  then Inl (Decode_error ''Illegal trailing comma before end of array'')
                  else (case parse_elems n r1 of
                          Inl e \<Rightarrow> Inl e | Inr (vs, r2) \<Rightarrow> Inr (v # vs, r2)))
               else Inl (Decode_error (''Expecting '' @ py_repr '','' @ '' delimiter''))))"
| "parse_members 0 d s = Inl Out_of_fuel"
| "parse_members (Suc n) d s =
     (if s = [] \<or> hd s \<noteq> CHR 0x22
      then Inl (Decode_error ''Expecting property name enclosed in double quotes'')
      else
        (case parse_str [] (tl s) of
           Inl e \<Rightarrow> Inl e
         | Inr (k, r) \<Rightarrow>
             (let r0 = skip_ws r in
              if r0 = [] \<or> hd r0 \<noteq> CHR '':''
              then Inl (Decode_error (''Expecting '' @ py_repr '':'' @ '' delimiter''))
              else
                (case parse_value n (skip_ws (tl r0)) of
                   Inl e \<Rightarrow> Inl e
                 | Inr (v, r1) \<Rightarrow>
                     (case skip_ws r1 of
                        [] \<Rightarrow> Inl (Decode_error (''Expecting '' @ py_repr '','' @ '' delimiter''))
                      | c # cs \<Rightarrow>
                          if c = CHR ''}'' then Inr (dict_set k v d, cs)
                          else if c = CHR '','' then
                            (let r2 = skip_ws cs in
                             if r2 \<noteq> [] \<and> hd r2 = CHR ''}''
                             then Inl (Decode_error ''Illegal trailing comma before end of object'')
                             else parse_members n (dict_set k v d) r2)
                          else Inl (Decode_error
                                 (''Expecting '' @ py_repr '','' @ '' delimiter'')))))))"

definition json_loads :: "string \<Rightarrow> json_error + json" where
  "json_loads s =
     (case parse_value (2 * length s + 2) (skip_ws s) of
        Inl e \<Rightarrow> Inl e
      | Inr (v, r) \<Rightarrow>
          if skip_ws r = [] then Inr v else Inl (Decode_error ''Extra data''))"



section \<open>Dumping and re-reading\<close>

text \<open>What may follow a dumped value inside a document: nothing, or a delimiter.\<close>

definition delimited :: "string \<Rightarrow> bool" where
  "delimited rest \<longleftrightarrow> rest = [] \<or> hd rest \<in> {CHR '','', CHR '']'', CHR ''}''}"

text \<open>
  The values \<open>dumps\<close> writes losslessly: object keys are distinct (a Python dictionary
  cannot be otherwise) and float texts are number literals with a fraction or an
  exponent.
\<close>

definition float_text :: "string \<Rightarrow> bool" where
  "float_text t \<longleftrightarrow> t \<in> {''NaN'', ''Infinity'', ''-Infinity''} \<or> parse_num t = Inr (JFloat t, [])"

fun json_ok :: "json \<Rightarrow> bool" where
  "json_ok (JFloat t) = float_text t"
| "json_ok (JArr xs) = list_all json_ok xs"
| "json_ok (JObj d) = (distinct (map fst d) \<and> list_all (\<lambda>(k, v). json_ok v) d)"
| "json_ok _ = True"

subsection \<open>Strings\<close>

lemma char_of_code_point [simp]: "char_of (code_point c) = c"
  by (simp add: code_point_def)

lemma code_point_less [simp]: "code_point c < 256"
  by (simp add: code_point_def)

lemma code_point_char_of [simp]: "n < 256 \<Longrightarrow> code_point (char_of n) = n"
  by (simp add: code_point_def)

lemma code_point_digit_char:
  "d < 16 \<Longrightarrow> code_point (digit_char d) = (if d < 10 then 48 + d else 87 + d)"
  by (simp add: digit_char_def)

lemma hex_val_digit_char: "d < 16 \<Longrightarrow> hex_val (digit_char d) = Some d"
  by (simp add: hex_val_def is_digit_def code_point_digit_char)

lemma hex4_hex2: "n < 256 \<Longrightarrow>
  hex4 (CHR ''0'') (CHR ''0'') (digit_char (n div 16 mod 16)) (digit_char (n mod 16)) = Some n"
proof -
  assume n: "n < 256"
  have z: "hex_val (CHR ''0'') = Some 0"
    by (simp add: hex_val_def is_digit_def code_point_def)
  from n have "n div 16 < 16" by simp
  with z show ?thesis by (simp add: hex4_def hex_val_digit_char)
qed

lemma parse_str_dumps_char: "parse_str acc (dumps_char c @ t) = parse_str (c # acc) t"
  by (auto simp: dumps_char_def unescape_def hex2_def hex4_hex2)

lemma parse_str_dumps:
  "parse_str acc (concat (map dumps_char s) @ CHR 0x22 # rest) = Inr (rev acc @ s, rest)"
proof (induction s arbitrary: acc)
  case (Cons c s)
  show ?case by (simp add: parse_str_dumps_char Cons.IH del: parse_str.simps)
qed simp

subsection \<open>Numbers\<close>

lemma is_digit_digit_char [simp]: "d < 10 \<Longrightarrow> is_digit (digit_char d)"
  by (simp add: is_digit_def code_point_digit_char)

lemma digit_val_digit_char [simp]: "d < 10 \<Longrightarrow> digit_val (digit_char d) = d"
  by (simp add: digit_val_def code_point_digit_char)

lemma digits_val_snoc: "digits_val (ds @ [c]) = 10 * digits_val ds + digit_val c"
  by (simp add: digits_val_def)

lemma digits_val_str_nat: "digits_val (str_nat n) = n"
proof (induction n rule: str_nat.induct)
  case (1 n)
  then show ?case
    by (subst str_nat.simps) (auto simp: digits_val_snoc, simp add: digits_val_def)
qed

lemma str_nat_digits: "\<forall>c \<in> set (str_nat n). is_digit c"
proof (induction n rule: str_nat.induct)
  case (1 n)
  then show ?case by (subst str_nat.simps) auto
qed

lemma str_nat_hd: "hd (str_nat n) = CHR ''0'' \<longleftrightarrow> n = 0"
proof (induction n rule: str_nat.induct)
  case (1 n)
  show ?case
  proof (cases "n < 10")
    case True
    have "digit_char n = CHR ''0'' \<longleftrightarrow> n = 0"
    proof
      assume "digit_char n = CHR ''0''"
      then have "code_point (digit_char n) = 48" by (simp add: code_point_def)
      then show "n = 0" using True by (simp add: code_point_digit_char)
    next
      have "digit_char 0 = CHR ''0''" by code_simp
      then show "n = 0 \<Longrightarrow> digit_char n = CHR ''0''" by simp
    qed
    with True show ?thesis by (subst str_nat.simps) simp
  next
    case False
    then show ?thesis using 1 by (subst str_nat.simps) simp
  qed
qed

lemma takeWhile_digits_delimited:
  assumes "\<forall>c \<in> set ds. is_digit c" and "delimited rest"
  shows "takeWhile is_digit (ds @ rest) = ds" and "dropWhile is_digit (ds @ rest) = rest"
proof -
  have r: "takeWhile is_digit rest = []" "dropWhile is_digit rest = rest"
    using \<open>delimited rest\<close>
    by (cases rest; auto simp: delimited_def is_digit_def code_point_def)+
  show "takeWhile is_digit (ds @ rest) = ds" using assms(1) r by (simp add: takeWhile_append2)
  show "dropWhile is_digit (ds @ rest) = rest" using assms(1) r by (simp add: dropWhile_append2)
qed


lemma delimited_not_digit [simp]: "delimited (d # r) \<Longrightarrow> \<not> is_digit d"
  by (auto simp: delimited_def is_digit_def code_point_def)

lemma delimited_not_sign:
  "delimited (d # r) \<Longrightarrow> d \<notin> {CHR ''.'', CHR ''e'', CHR ''E'', CHR ''+'', CHR ''-''}"
  by (auto simp: delimited_def)

lemma split_frac_delimited [simp]: "delimited rest \<Longrightarrow> split_frac rest = ([], rest)"
  by (auto simp: split_frac_def dest!: delimited_not_sign split: list.splits)

lemma split_exp_delimited [simp]: "delimited rest \<Longrightarrow> split_exp rest = ([], rest)"
  by (auto simp: split_exp_def dest!: delimited_not_sign split: list.splits)

lemma takeWhile_append_delimited:
  assumes "delimited rest"
  shows "takeWhile is_digit (xs @ rest) = takeWhile is_digit xs"
    and "dropWhile is_digit (xs @ rest) = dropWhile is_digit xs @ rest"
proof -
  have r: "takeWhile is_digit rest = []" "dropWhile is_digit rest = rest"
    using takeWhile_digits_delimited[of "[]" rest] assms by simp_all
  show "takeWhile is_digit (xs @ rest) = takeWhile is_digit xs"
    using r by (cases "\<forall>x \<in> set xs. is_digit x") (auto simp: takeWhile_append takeWhile_eq_all_conv[THEN iffD2])
  show "dropWhile is_digit (xs @ rest) = dropWhile is_digit xs @ rest"
    using r by (auto simp: dropWhile_append)
qed

lemma split_frac_append:
  assumes "delimited rest" and "split_frac s = (a, b)"
  shows "split_frac (s @ rest) = (a, b @ rest)"
proof (cases s)
  case Nil
  then have "a = []" "b = []" using assms(2) by (auto simp: split_frac_def)
  with Nil assms(1) show ?thesis by simp
next
  case (Cons c cs)
  with assms show ?thesis
    by (cases cs; cases rest)
      (auto simp: split_frac_def takeWhile_append_delimited[of "_ # _", simplified] split: if_splits
        dest: delimited_not_digit)
qed

lemma split_exp_append:
  assumes "delimited rest" and "split_exp s = (a, b)"
  shows "split_exp (s @ rest) = (a, b @ rest)"
proof (cases s)
  case Nil
  then have "a = []" "b = []" using assms(2) by (auto simp: split_exp_def)
  with Nil assms(1) show ?thesis by simp
next
  case (Cons c cs)
  with assms show ?thesis
    by (cases cs; cases "tl cs"; cases rest)
      (auto simp: split_exp_def takeWhile_append_delimited takeWhile_append_delimited[of "_ # _", simplified]
        split: if_splits dest: delimited_not_digit delimited_not_sign)
qed

lemma finish_num_append:
  assumes "delimited rest" and "finish_num neg ip r = (v, q)"
  shows "finish_num neg ip (r @ rest) = (v, q @ rest)"
proof -
  obtain fp r1 where f: "split_frac r = (fp, r1)" by fastforce
  obtain ep r2 where e: "split_exp r1 = (ep, r2)" by fastforce
  show ?thesis
    using assms split_frac_append[OF assms(1) f] split_exp_append[OF assms(1) e] f e
    by (auto simp: finish_num_def split: if_splits)
qed

lemma int_digits_append:
  "s \<noteq> [] \<Longrightarrow> delimited rest \<Longrightarrow> int_digits (s @ rest) = int_digits s"
  by (simp add: int_digits_def takeWhile_append_delimited)

lemma length_int_digits: "s \<noteq> [] \<Longrightarrow> length (int_digits s) \<le> length s"
  by (cases s) (auto simp: int_digits_def length_takeWhile_le le_SucI)

lemma parse_unsigned_append:
  assumes "delimited rest" and "parse_unsigned neg s = Inr (v, [])"
  shows "parse_unsigned neg (s @ rest) = Inr (v, rest)"
proof (cases "is_digit (hd s)")
  case True
  have "s \<noteq> []" using assms by (auto simp: parse_unsigned_def)
  with True assms show ?thesis
    using finish_num_append[OF assms(1), of neg "int_digits s" "drop (length (int_digits s)) s" v "[]"]
    by (simp add: parse_unsigned_def int_digits_append length_int_digits)
next
  case False
  with assms(2) have p: "neg" "prefix ''Infinity'' s" "drop 8 s = []" "v = JFloat ''-Infinity''"
    by (auto simp: parse_unsigned_def split: if_splits)
  then have "s = ''Infinity''" by (auto elim!: prefixE)
  with False p show ?thesis by (simp add: parse_unsigned_def)
qed

lemma parse_unsigned_str_nat:
  assumes "delimited rest"
  shows "parse_unsigned neg (str_nat n @ rest) = Inr (JInt (if neg then - int n else int n), rest)"
proof -
  have dig: "\<forall>c \<in> set (str_nat n). is_digit c" by (rule str_nat_digits)
  then have hd: "is_digit (hd (str_nat n))" by (rule bspec) simp
  have z: "str_nat 0 = ''0''" by code_simp
  have "int_digits (str_nat n) = str_nat n"
    using dig z str_nat_hd[of n] by (auto simp: int_digits_def takeWhile_eq_all_conv)
  moreover have "finish_num neg (str_nat n) rest = (JInt (if neg then - int n else int n), rest)"
    using assms by (simp add: finish_num_def digits_val_str_nat)
  ultimately show ?thesis
    using assms hd by (simp add: parse_unsigned_def int_digits_append)
qed

lemma parse_num_str_int:
  assumes "delimited rest"
  shows "parse_num (str_int i @ rest) = Inr (JInt i, rest)"
proof (cases "i < 0")
  case True
  then show ?thesis
    by (simp add: parse_num_def str_int_def parse_unsigned_str_nat[OF assms])
next
  case False
  have "is_digit (hd (str_nat (nat i)))"
    using str_nat_digits[of "nat i"] by (rule bspec) simp
  then have "hd (str_nat (nat i)) \<noteq> CHR ''-''"
    by (auto simp: is_digit_def code_point_def)
  with False show ?thesis
    by (simp add: parse_num_def str_int_def parse_unsigned_str_nat[OF assms])
qed


lemma parse_num_append:
  assumes "delimited rest" and "parse_num s = Inr (v, [])" and "s \<noteq> []"
  shows "parse_num (s @ rest) = Inr (v, rest)"
  using assms by (auto simp: parse_num_def parse_unsigned_append split: if_splits)

text \<open>The first character of a number rules every other kind of value out.\<close>

definition num_start :: "char \<Rightarrow> bool" where
  "num_start c \<longleftrightarrow> is_digit c \<or> c = CHR ''-''"

lemma num_start_neq:
  "num_start c \<Longrightarrow> c \<notin> {CHR 0x22, CHR ''{'', CHR ''['', CHR ''n'', CHR ''t'', CHR ''f'', CHR ''N'', CHR ''I'', CHR '']''}"
  by (auto simp: num_start_def is_digit_def code_point_def)

lemma parse_value_num:
  "num_start c \<Longrightarrow> parse_value (Suc n) (c # cs) = parse_num (c # cs)"
  using num_start_neq[of c] by auto

lemma parse_num_start: "parse_num s = Inr x \<Longrightarrow> s \<noteq> [] \<and> num_start (hd s)"
  by (auto simp: parse_num_def parse_unsigned_def num_start_def split: if_splits)

lemma parse_value_str_int:
  assumes "delimited rest"
  shows "parse_value (Suc n) (str_int i @ rest) = Inr (JInt i, rest)"
proof -
  have "str_int i @ rest \<noteq> []" and "num_start (hd (str_int i @ rest))"
    using parse_num_start[OF parse_num_str_int[OF assms]] by auto
  then show ?thesis
    using parse_num_str_int[OF assms] parse_value_num
    by (metis list.exhaust_sel)
qed

lemma parse_value_float:
  assumes "delimited rest" and "float_text t"
  shows "parse_value (Suc n) (t @ rest) = Inr (JFloat t, rest)"
proof (cases "t \<in> {''NaN'', ''Infinity'', ''-Infinity''}")
  case True
  then show ?thesis
    by (auto simp: parse_num_def parse_unsigned_def is_digit_def code_point_def)
next
  case False
  with assms have p: "parse_num t = Inr (JFloat t, [])" by (simp add: float_text_def)
  then have "t \<noteq> []" and "num_start (hd t)" using parse_num_start[OF p] by auto
  then show ?thesis
    using parse_num_append[OF assms(1) p] parse_value_num
    by (metis append_is_Nil_conv hd_append2 list.exhaust_sel)
qed


subsection \<open>Arrays, objects, documents\<close>

lemma dumps_start:
  assumes "json_ok v"
  shows "json_dumps v \<noteq> [] \<and> \<not> json_ws (hd (json_dumps v)) \<and> hd (json_dumps v) \<noteq> CHR '']''"
proof -
  have n: "\<not> json_ws c \<and> c \<noteq> CHR '']''" if "num_start c" for c
  proof
    show "\<not> json_ws c" using that by (auto simp: json_ws_def num_start_def is_digit_def code_point_def)
    show "c \<noteq> CHR '']''" using num_start_neq[OF that] by simp
  qed
  have i: "str_int i \<noteq> [] \<and> num_start (hd (str_int i))" for i
    using parse_num_start[OF parse_num_str_int[of "[]" i]] by (simp add: delimited_def)
  show ?thesis
  proof (cases v)
    case (JInt i)
    with n i show ?thesis by simp
  next
    case (JFloat t)
    with assms n show ?thesis
      by (auto simp: float_text_def json_ws_def dest: parse_num_start)
  qed (auto simp: json_ws_def dumps_str_def)
qed

lemma skip_ws_start: "s \<noteq> [] \<Longrightarrow> \<not> json_ws (hd s) \<Longrightarrow> skip_ws (s @ t) = s @ t"
  by (cases s) auto

lemma skip_ws_dumps: "json_ok v \<Longrightarrow> skip_ws (json_dumps v @ t) = json_dumps v @ t"
  using dumps_start by (simp add: skip_ws_start)

lemma json_ws_simps [simp]: "json_ws (CHR '' '')" "\<not> json_ws (CHR '','')" "\<not> json_ws (CHR '']'')"
  "\<not> json_ws (CHR ''}'')" "\<not> json_ws (CHR '':'')" "\<not> json_ws (CHR 0x22)"
  by (simp_all add: json_ws_def)

lemma delimited_simps [simp]:
  "delimited []" "delimited (CHR '','' # r)" "delimited (CHR '']'' # r)" "delimited (CHR ''}'' # r)"
  by (simp_all add: delimited_def)

text \<open>What the induction below establishes of every value.\<close>

definition reads_back :: "json \<Rightarrow> bool" where
  "reads_back v \<longleftrightarrow> (\<forall>n rest. delimited rest \<longrightarrow> 2 * length (json_dumps v) \<le> n \<longrightarrow>
     parse_value n (json_dumps v @ rest) = Inr (v, rest))"

lemma parse_elems_dumps:
  assumes "vs \<noteq> []" and "\<forall>v \<in> set vs. json_ok v \<and> reads_back v"
    and "2 * length (py_join '', '' (map json_dumps vs)) < n"
  shows "parse_elems n (py_join '', '' (map json_dumps vs) @ CHR '']'' # rest) = Inr (vs, rest)"
  using assms
proof (induction vs arbitrary: n)
  case (Cons v vs)
  obtain m where n: "n = Suc m" using Cons.prems(3) by (cases n) auto
  have v: "json_ok v" "reads_back v" using Cons.prems(2) by auto
  show ?case
  proof (cases "vs = []")
    case True
    with v n Cons.prems(3) show ?thesis by (simp add: reads_back_def)
  next
    case False
    define tail where "tail = py_join '', '' (map json_dumps vs) @ CHR '']'' # rest"
    have j: "py_join '', '' (map json_dumps (v # vs)) = json_dumps v @ '', '' @ py_join '', '' (map json_dumps vs)"
      using False by (simp add: py_join_Cons)
    have e: "parse_value m (json_dumps v @ CHR '','' # CHR '' '' # tail) = Inr (v, CHR '','' # CHR '' '' # tail)"
      using v n Cons.prems(3) j by (simp add: reads_back_def)
    obtain w ws where vs: "vs = w # ws" using False by (cases vs) auto
    have w: "json_ok w" using Cons.prems(2) vs by simp
    obtain t where tw: "tail = json_dumps w @ t"
      by (cases "ws = []") (auto simp: tail_def vs py_join_Cons)
    have sk: "skip_ws tail = tail" and tl: "tail \<noteq> []" and hd: "hd tail \<noteq> CHR '']''"
      using dumps_start[OF w] skip_ws_dumps[OF w] by (simp_all add: tw)
    have "parse_elems m tail = Inr (vs, rest)"
      unfolding tail_def using Cons.IH False Cons.prems n j by simp
    with e sk tl hd show ?thesis
      unfolding n j by (simp add: tail_def [symmetric])
  qed
qed simp

lemma parse_members_dumps:
  assumes "kvs \<noteq> []" and "\<forall>(k, v) \<in> set kvs. json_ok v \<and> reads_back v"
    and "distinct (map fst (d @ kvs))"
    and "2 * length (py_join '', '' (map (\<lambda>(k, v). dumps_str k @ '': '' @ json_dumps v) kvs)) < n"
  shows "parse_members n d
    (py_join '', '' (map (\<lambda>(k, v). dumps_str k @ '': '' @ json_dumps v) kvs) @ CHR ''}'' # rest)
    = Inr (d @ kvs, rest)"
  using assms
proof (induction kvs arbitrary: n d)
  case (Cons kv kvs)
  let ?f = "\<lambda>(k, v). dumps_str k @ '': '' @ json_dumps v"
  obtain k v where kv: "kv = (k, v)" by fastforce
  obtain m where n: "n = Suc m" using Cons.prems(4) by (cases n) auto
  have v: "json_ok v" "reads_back v" using Cons.prems(2) kv by auto
  have fresh: "dict_set k v d = d @ [(k, v)]"
    using Cons.prems(3) kv by (intro dict_set_append) (auto simp: dict_has_in_keys)
  show ?case
  proof (cases "kvs = []")
    case True
    with v n fresh Cons.prems(4) kv show ?thesis
      by (simp add: reads_back_def dumps_str_def parse_str_dumps skip_ws_dumps)
  next
    case False
    define tail where "tail = py_join '', '' (map ?f kvs) @ CHR ''}'' # rest"
    have j: "py_join '', '' (map ?f (kv # kvs))
        = dumps_str k @ '': '' @ json_dumps v @ '', '' @ py_join '', '' (map ?f kvs)"
      using False kv by (simp add: py_join_Cons)
    have e: "parse_value m (json_dumps v @ CHR '','' # CHR '' '' # tail) = Inr (v, CHR '','' # CHR '' '' # tail)"
      using v n Cons.prems(4) j by (simp add: reads_back_def)
    obtain t where tq: "tail = CHR 0x22 # t"
      using False by (cases kvs; cases "tl kvs = []") (auto simp: tail_def dumps_str_def py_join_Cons split: prod.splits)
    have r: "parse_members m (d @ [(k, v)]) tail = Inr (d @ kv # kvs, rest)"
      unfolding tail_def using Cons.IH[of "d @ [(k, v)]" m] False Cons.prems n j kv by simp
    have "py_join '', '' (map ?f (kv # kvs)) @ CHR ''}'' # rest
        = CHR 0x22 # concat (map dumps_char k) @ CHR 0x22 # '': '' @ json_dumps v @ CHR '','' # CHR '' '' # tail"
      unfolding j by (simp add: tail_def dumps_str_def)
    with e r tq fresh v show ?thesis
      unfolding n by (simp add: parse_str_dumps skip_ws_dumps)
  qed
qed simp

lemma reads_backI:
  assumes "json_dumps v \<noteq> []"
    and "\<And>m rest. delimited rest \<Longrightarrow> 2 * length (json_dumps v) \<le> Suc m \<Longrightarrow>
      parse_value (Suc m) (json_dumps v @ rest) = Inr (v, rest)"
  shows "reads_back v"
  unfolding reads_back_def
proof (intro allI impI)
  fix n rest assume "delimited rest" and le: "2 * length (json_dumps v) \<le> n"
  moreover from le obtain m where "n = Suc m" using assms(1) by (cases n) auto
  ultimately show "parse_value n (json_dumps v @ rest) = Inr (v, rest)" using assms(2) by simp
qed

lemma reads_back: "json_ok v \<Longrightarrow> reads_back v"
proof (induction v)
  case (JArr xs)
  show ?case
  proof (cases "xs = []")
    case True
    then show ?thesis by (auto intro: reads_backI)
  next
    case False
    then obtain w ws where xs: "xs = w # ws" by (cases xs) auto
    have w: "json_ok w" using JArr.prems xs by simp
    have ok: "\<forall>v \<in> set xs. json_ok v \<and> reads_back v"
      using JArr by (auto simp: list_all_iff)
    obtain t where t: "py_join '', '' (map json_dumps xs) = json_dumps w @ t"
      by (cases "ws = []") (auto simp: xs py_join_Cons)
    show ?thesis
    proof (rule reads_backI)
      fix m rest assume "2 * length (json_dumps (JArr xs)) \<le> Suc m"
      then have m: "2 * length (py_join '', '' (map json_dumps xs)) < m" by simp
      show "parse_value (Suc m) (json_dumps (JArr xs) @ rest) = Inr (JArr xs, rest)"
        using parse_elems_dumps[OF False ok m, of rest] dumps_start[OF w] skip_ws_dumps[OF w]
        by (simp add: t)
    qed simp
  qed
next
  case (JObj d)
  let ?f = "\<lambda>(k, v). dumps_str k @ '': '' @ json_dumps v"
  show ?case
  proof (cases "d = []")
    case True
    then show ?thesis by (auto intro: reads_backI)
  next
    case False
    have ok: "\<forall>(k, v) \<in> set d. json_ok v \<and> reads_back v" and dist: "distinct (map fst ([] @ d))"
      using JObj by (auto simp: list_all_iff)
    obtain t where t: "py_join '', '' (map ?f d) = CHR 0x22 # t"
      using False by (cases d; cases "tl d = []") (auto simp: dumps_str_def py_join_Cons split: prod.splits)
    show ?thesis
    proof (rule reads_backI)
      fix m rest assume "2 * length (json_dumps (JObj d)) \<le> Suc m"
      then have m: "2 * length (py_join '', '' (map ?f d)) < m" by simp
      show "parse_value (Suc m) (json_dumps (JObj d) @ rest) = Inr (JObj d, rest)"
        using parse_members_dumps[OF False ok dist m, of rest] by (simp add: t[simplified])
    qed simp
  qed
next
  case (JInt i)
  show ?case
    by (rule reads_backI) (simp_all add: parse_value_str_int del: parse_value.simps, simp add: str_int_def)
next
  case (JFloat t)
  have "t \<noteq> []" using dumps_start[OF JFloat] by simp
  with JFloat show ?case
    by (intro reads_backI) (simp_all add: parse_value_float del: parse_value.simps)
next
  case (JStr s)
  show ?case by (rule reads_backI) (auto simp: dumps_str_def parse_str_dumps)
next
  case (JBool b)
  show ?case by (rule reads_backI) auto
qed (auto intro: reads_backI)

theorem json_loads_dumps: "json_ok v \<Longrightarrow> json_loads (json_dumps v) = Inr v"
proof -
  assume v: "json_ok v"
  then have "parse_value (2 * length (json_dumps v) + 2) (json_dumps v @ []) = Inr (v, [])"
    using reads_back[OF v] unfolding reads_back_def by (metis delimited_simps(1) le_add1)
  then show ?thesis
    using skip_ws_dumps[OF v, of "[]"] by (simp add: json_loads_def del: parse_value.simps)
qed



subsection \<open>The fuel is enough\<close>

lemma parse_str_consumes:
  "(\<forall>r. parse_str acc s = Inr r \<longrightarrow> length (snd r) < length s) \<and> parse_str acc s \<noteq> Inl Out_of_fuel"
proof (induction acc s rule: parse_str.induct)
  case (2 acc c cs)
  show ?case
  proof (cases "c = CHR 0x5C")
    case False
    with 2 show ?thesis by (auto simp: less_Suc_eq)
  next
    case c: True
    show ?thesis
    proof (cases cs)
      case (Cons e es)
      show ?thesis
      proof (cases "e = CHR ''u''")
        case True
        with 2(1) c Cons show ?thesis
          by (fastforce split: list.splits option.splits if_splits simp: less_Suc_eq)
      next
        case False
        with 2(2) c Cons show ?thesis
          by (cases "unescape e") (auto simp: less_Suc_eq)
      qed
    qed (simp add: c)
  qed
qed simp

lemma length_split_frac: "length (snd (split_frac s)) \<le> length s"
  by (auto simp: split_frac_def le_SucI length_dropWhile_le split: list.splits)

lemma length_split_exp: "length (snd (split_exp s)) \<le> length s"
  by (auto simp: split_exp_def le_SucI length_dropWhile_le split: list.splits)

lemma length_finish_num: "length (snd (finish_num neg ip r)) \<le> length r"
  using length_split_frac[of r] length_split_exp[of "snd (split_frac r)"]
  by (auto simp: finish_num_def split: prod.splits)

lemma parse_unsigned_consumes:
  "(\<forall>r. parse_unsigned neg s = Inr r \<longrightarrow> length (snd r) < length s) \<and> parse_unsigned neg s \<noteq> Inl Out_of_fuel"
proof (cases "s \<noteq> [] \<and> is_digit (hd s)")
  case True
  then have "0 < length (int_digits s)" "0 < length s" by (cases s; auto simp: int_digits_def)+
  then have "length (snd (finish_num neg (int_digits s) (drop (length (int_digits s)) s))) < length s"
    using True length_finish_num[of neg "int_digits s" "drop (length (int_digits s)) s"]
    by (simp del: length_greater_0_conv)
  with True show ?thesis by (simp add: parse_unsigned_def)
next
  case False
  then show ?thesis by (auto simp: parse_unsigned_def)
qed

lemma parse_num_consumes:
  "(\<forall>r. parse_num s = Inr r \<longrightarrow> length (snd r) < length s) \<and> parse_num s \<noteq> Inl Out_of_fuel"
  using parse_unsigned_consumes[of True "tl s"] parse_unsigned_consumes[of False s]
  by (cases s) (auto simp: parse_num_def)

lemma length_skip_ws: "length (skip_ws s) \<le> length s"
  by (rule length_dropWhile_le)

definition consumes :: "json_error + 'a \<times> string \<Rightarrow> string \<Rightarrow> bool" where
  "consumes res s \<longleftrightarrow> (case res of Inl e \<Rightarrow> e \<noteq> Out_of_fuel | Inr (v, r) \<Rightarrow> length r < length s)"

lemma consumes_simps [simp]:
  "consumes (Inl e) s \<longleftrightarrow> e \<noteq> Out_of_fuel"
  "consumes (Inr (v, r)) s \<longleftrightarrow> length r < length s"
  by (simp_all add: consumes_def)

lemma consumes_mono: "consumes res s \<Longrightarrow> length s \<le> length t \<Longrightarrow> consumes res t"
  by (auto simp: consumes_def split: sum.splits)

lemma consumes_str: "consumes (parse_str acc s) s"
  using parse_str_consumes[of acc s] by (auto simp: consumes_def split: sum.splits)

lemma consumes_num: "consumes (parse_num s) s"
  using parse_num_consumes[of s] by (auto simp: consumes_def split: sum.splits)

lemma parse_fuel:
  "2 * length s < n \<Longrightarrow> consumes (parse_value n s) s"
  "2 * length s + 1 < n \<Longrightarrow> consumes (parse_elems n s) s"
  "2 * length s + 1 < n \<Longrightarrow> consumes (parse_members n d s) s"
proof (induction n s and n s and n d s rule: parse_value_parse_elems_parse_members.induct)
  case (3 n c cs)
  note IH = "3.IH" and fuel = "3.prems"
  have l: "length (skip_ws cs) \<le> length cs" by (rule length_skip_ws)
  consider "c = CHR 0x22" | "c = CHR ''{''" | "c = CHR ''[''"
    | "c \<notin> {CHR 0x22, CHR ''{'', CHR ''[''}" by auto
  then show ?case
  proof cases
    case 1
    then show ?thesis using consumes_str[of "[]" cs] by (auto split: sum.splits)
  next
    case 2
    show ?thesis
    proof (cases "skip_ws cs \<noteq> [] \<and> hd (skip_ws cs) = CHR ''}''")
      case True
      with 2 l show ?thesis by (cases "skip_ws cs") auto
    next
      case False
      have "consumes (parse_members n [] (skip_ws cs)) (skip_ws cs)"
        using IH(1)[OF _ 2 refl False] 2 fuel l by simp
      with 2 False l show ?thesis by (auto simp: Let_def split: sum.splits)
    qed
  next
    case 3
    show ?thesis
    proof (cases "skip_ws cs \<noteq> [] \<and> hd (skip_ws cs) = CHR '']''")
      case True
      with 3 l show ?thesis by (cases "skip_ws cs") auto
    next
      case False
      have "consumes (parse_elems n (skip_ws cs)) (skip_ws cs)"
        using IH(2)[OF _ _ 3 refl False] 3 fuel l by simp
      with 3 False l show ?thesis by (auto simp: Let_def split: sum.splits)
    qed
  next
    case 4
    then show ?thesis using consumes_num[of "c # cs"]
      by (auto simp: less_Suc_eq_le )
  qed
next
  case (5 n s)
  have v: "consumes (parse_value n s) s" using 5 by simp
  show ?case
  proof (cases "parse_value n s")
    case (Inr vr)
    obtain w r where vr: "vr = (w, r)" by fastforce
    have r: "length (skip_ws r) < length s" using v Inr vr length_skip_ws[of r] by simp
    show ?thesis
    proof (cases "skip_ws r")
      case (Cons c cs)
      have cs: "length (skip_ws cs) \<le> length cs" by (rule length_skip_ws)
      have "consumes (parse_elems n (skip_ws cs)) (skip_ws cs)"
        if "c = CHR '',''" "\<not> (skip_ws cs \<noteq> [] \<and> hd (skip_ws cs) = CHR '']'')"
        using 5(2)[OF Inr vr[symmetric] Cons _ that(1) refl that(2)] that(1) 5(3) r Cons cs by simp
      then show ?thesis using Inr vr Cons r cs
        by (auto simp: Let_def split: sum.splits)
    qed (simp add: Inr vr del: dropWhile_eq_Nil_conv)
  qed (use v in simp)
next
  case (7 n d s)
  show ?case
  proof (cases "s = [] \<or> hd s \<noteq> CHR 0x22")
    case s: False
    have len: "Suc (length (tl s)) = length s" using s by (cases s) auto
    have str: "consumes (parse_str [] (tl s)) (tl s)" by (rule consumes_str)
    show ?thesis
    proof (cases "parse_str [] (tl s)")
      case (Inr kr)
      obtain k r where kr: "kr = (k, r)" by fastforce
      define r0 where "r0 = skip_ws r"
      have r0: "length r0 < length (tl s)"
        using str Inr kr length_skip_ws[of r] by (simp add: r0_def)
      show ?thesis
      proof (cases "r0 = [] \<or> hd r0 \<noteq> CHR '':''")
        case c: False
        define q where "q = skip_ws (tl r0)"
        have q: "length q < length (tl s)"
          using r0 length_skip_ws[of "tl r0"] by (simp add: q_def)
        have v: "consumes (parse_value n q) q"
          using 7(1)[OF s Inr kr[symmetric] r0_def c] 7(3) q len by (simp add: q_def)
        show ?thesis
        proof (cases "parse_value n q")
          case inner: (Inr vr)
          obtain w r1 where vr: "vr = (w, r1)" by fastforce
          have r1: "length (skip_ws r1) < length q"
            using v inner vr length_skip_ws[of r1] by simp
          show ?thesis
          proof (cases "skip_ws r1")
            case (Cons x cs)
            have cs: "length (skip_ws cs) \<le> length cs" by (rule length_skip_ws)
            have m: "consumes (parse_members n (dict_set k w d) (skip_ws cs)) (skip_ws cs)"
              if "x = CHR '',''" "\<not> (skip_ws cs \<noteq> [] \<and> hd (skip_ws cs) = CHR ''}'')"
              using 7(2)[OF s Inr kr[symmetric] r0_def c _ vr[symmetric] Cons _ that(1) refl that(2)]
                inner that(1) 7(3) r1 q len Cons cs by (simp add: q_def)
            have lt: "length (skip_ws cs) < length s" "length cs < length s"
              using cs r1 Cons q len by simp_all
            have "consumes (parse_members n (dict_set k w d) (skip_ws cs)) s"
              if "x = CHR '',''" "\<not> (skip_ws cs \<noteq> [] \<and> hd (skip_ws cs) = CHR ''}'')"
              using consumes_mono[OF m[OF that]] lt by simp
            with lt show ?thesis
              using s Inr kr c inner vr Cons
              by (auto simp: Let_def r0_def [symmetric] q_def [symmetric] split: sum.splits)
          qed (use s Inr kr c inner vr in \<open>simp add: Let_def r0_def [symmetric] q_def [symmetric] del: dropWhile_eq_Nil_conv\<close>)
        qed (use s Inr kr c v in \<open>simp add: Let_def r0_def [symmetric] q_def [symmetric] del: dropWhile_eq_Nil_conv\<close>)
      qed (use s Inr kr in \<open>simp add: Let_def r0_def [symmetric] del: dropWhile_eq_Nil_conv\<close>)
    qed (use s str in simp)
  qed simp
qed auto

text \<open>\<open>json_loads\<close> always answers: it never stops for want of fuel.\<close>

theorem json_loads_fuel: "json_loads s \<noteq> Inl Out_of_fuel"
proof -
  have "consumes (parse_value (2 * length s + 2) (skip_ws s)) (skip_ws s)"
    by (rule parse_fuel(1)) (use length_skip_ws[of s] in simp)
  then show ?thesis
    by (auto simp: json_loads_def simp del: parse_value.simps split: sum.splits)
qed

section \<open>Dumps as text\<close>

text \<open>A dump is one line: it holds no line feed, and no carriage return that reading in text mode would change.\<close>

definition number_char :: "char \<Rightarrow> bool" where
  "number_char c \<longleftrightarrow> is_digit c \<or> c \<in> set ''+-.eE''"

lemma digits_number: "set (takeWhile is_digit s) \<subseteq> Collect number_char"
  by (auto simp: number_char_def dest: set_takeWhileD)

lemma split_frac_chars: "set (fst (split_frac s)) \<subseteq> Collect number_char"
  using digits_number by (auto simp: split_frac_def number_char_def dest: set_takeWhileD split: list.splits if_splits)

lemma split_exp_chars: "set (fst (split_exp s)) \<subseteq> Collect number_char"
  using digits_number by (auto simp: split_exp_def number_char_def dest: set_takeWhileD split: list.splits if_splits)

lemma finish_num_chars:
  assumes "finish_num neg ip r = (JFloat t, q)" and "set ip \<subseteq> Collect number_char"
  shows "set t \<subseteq> Collect number_char"
proof -
  have "t = (if neg then ''-'' else []) @ ip @ fst (split_frac r) @ fst (split_exp (snd (split_frac r)))"
    using assms(1) by (auto simp: finish_num_def Let_def split: prod.splits if_splits)
  then show ?thesis
    using assms(2) split_frac_chars[of r] split_exp_chars[of "snd (split_frac r)"] by (auto simp: number_char_def)
qed

lemma parse_num_chars: "parse_num s = Inr (JFloat t, q) \<Longrightarrow> set t \<subseteq> Collect number_char \<or> t = ''-Infinity''"
proof -
  have ip: "set (int_digits s) \<subseteq> Collect number_char" for s
    using digits_number[of s] by (auto simp: int_digits_def number_char_def is_digit_def code_point_def)
  have "parse_unsigned neg s = Inr (JFloat t, q) \<Longrightarrow> set t \<subseteq> Collect number_char \<or> t = ''-Infinity''" for neg s
    using finish_num_chars[OF _ ip] by (auto simp: parse_unsigned_def split: if_splits)
  then show "parse_num s = Inr (JFloat t, q) \<Longrightarrow> ?thesis" by (auto simp: parse_num_def split: if_splits)
qed

lemma float_text_one_line: "float_text t \<Longrightarrow> {CR, NL} \<inter> set t = {}"
proof -
  have "\<not> number_char CR" "\<not> number_char NL" by (simp_all add: number_char_def is_digit_def code_point_def)
  then show "float_text t \<Longrightarrow> ?thesis" using parse_num_chars[of t t "[]"] by (auto simp: float_text_def)
qed

lemma hex2_one_line: "{CR, NL} \<inter> set (hex2 n) = {}"
proof -
  have "digit_char d \<notin> {CR, NL}" if "d < 16" for d
  proof
    assume "digit_char d \<in> {CR, NL}"
    with code_point_digit_char[OF that] show False by (auto simp: code_point_def split: if_splits)
  qed
  then have "digit_char (n div 16 mod 16) \<notin> {CR, NL}" "digit_char (n mod 16) \<notin> {CR, NL}"
    by (metis mod_less_divisor zero_less_numeral)+
  then show ?thesis by (auto simp: hex2_def)
qed

lemma dumps_char_one_line: "{CR, NL} \<inter> set (dumps_char c) = {}"
  using hex2_one_line[of "code_point c"] by (auto simp: dumps_char_def code_point_def)

lemma dumps_str_one_line: "{CR, NL} \<inter> set (dumps_str s) = {}"
  using dumps_char_one_line by (fastforce simp: dumps_str_def)

lemma py_join_one_line:
  "{CR, NL} \<inter> set sep = {} \<Longrightarrow> \<forall>x \<in> set xs. {CR, NL} \<inter> set x = {} \<Longrightarrow> {CR, NL} \<inter> set (py_join sep xs) = {}"
  by (induction sep xs rule: py_join.induct) auto

lemma str_int_one_line: "{CR, NL} \<inter> set (str_int i) = {}"
proof -
  have "CR \<notin> set (str_int i)" "NL \<notin> set (str_int i)"
    using str_nat_digits[of "nat i"] str_nat_digits[of "nat (- i)"]
    by (auto simp: str_int_def is_digit_def code_point_def)
  then show ?thesis by blast
qed

lemma json_dumps_one_line: "json_ok v \<Longrightarrow> {CR, NL} \<inter> set (json_dumps v) = {}"
proof (induction v)
  case (JArr xs)
  then have "{CR, NL} \<inter> set (py_join '', '' (map json_dumps xs)) = {}"
    by (intro py_join_one_line) (auto simp: list_all_iff)
  then show ?case by simp
next
  case (JObj d)
  have item: "{CR, NL} \<inter> set (dumps_str k @ '': '' @ json_dumps v) = {}" if "(k, v) \<in> set d" for k v
    using JObj that dumps_str_one_line[of k] by (fastforce simp: list_all_iff)
  then have "{CR, NL} \<inter> set (py_join '', '' (map (\<lambda>(k, v). dumps_str k @ '': '' @ json_dumps v) d)) = {}"
    by (intro py_join_one_line) auto
  then show ?case by simp
qed (simp_all add: float_text_one_line dumps_str_one_line str_int_one_line)

lemma json_dumps_no_cr: "json_ok v \<Longrightarrow> CR \<notin> set (json_dumps v)"
  using json_dumps_one_line by blast

section \<open>The interface of a codec\<close>

text \<open>
  What the clients of a writer and a reader of JSON rely on. The interpretation below
  is on the two functions the sources call.
\<close>

locale json_codec =
  fixes dumps :: "json \<Rightarrow> string"
    and loads :: "string \<Rightarrow> 'e + json"
    and good :: "json \<Rightarrow> bool"
  assumes loads_dumps: "good v \<Longrightarrow> loads (dumps v) = Inr v"
begin

lemma dumps_inject: "good v \<Longrightarrow> good w \<Longrightarrow> dumps v = dumps w \<longleftrightarrow> v = w"
  by (metis loads_dumps sum.inject(2))

lemma dumps_inj_on: "inj_on dumps {v. good v}"
  by (rule inj_onI) (simp add: dumps_inject)

text \<open>Text that the reader refuses was not written by the writer.\<close>

lemma unreadable_not_written: "loads s = Inl e \<Longrightarrow> good v \<Longrightarrow> s \<noteq> dumps v"
  by (auto simp: loads_dumps)

end

interpretation codec: json_codec json_dumps json_loads json_ok
  by unfold_locales (rule json_loads_dumps)

end
