(* ===== verification/Client.thy ===== *)
theory Client
  imports Json_Codec "HOL-Library.AList"
begin

text \<open>
  \<open>llm_assistant_agent/client.py\<close>: assembling a streamed turn. A turn is what the model
  produced; a partial call collects the fragments of a tool call. Two things end the
  model's answers early: a Python exception the code does not catch (\<open>Crash\<close>), and a
  JSON text with an escape outside the string model (\<open>Outside\<close>). A boolean \<open>index\<close> is
  the integer it equals.
\<close>

section \<open>Turns and partial calls\<close>

record tool_call =
  call_id :: string
  call_name :: string
  call_arguments :: dict

record partial_call =
  partial_id :: string
  partial_name :: string
  partial_arguments :: string

definition empty_partial :: partial_call where
  "empty_partial = \<lparr>partial_id = [], partial_name = [], partial_arguments = []\<rparr>"

record assistant_turn =
  content :: string
  tool_calls :: "tool_call list"
  finish_reason :: "string option"
  malformed :: "string list"

definition empty_turn :: assistant_turn where
  "empty_turn = \<lparr>content = [], tool_calls = [], finish_reason = None, malformed = []\<rparr>"

type_synonym message = dict

definition as_message :: "assistant_turn \<Rightarrow> json list \<Rightarrow> message" where
  "as_message turn raw_calls =
     [(''role'', JStr ''assistant''), (''content'', (if content turn \<noteq> [] then JStr (content turn) else JNull))]
     @ (if raw_calls \<noteq> [] then [(''tool_calls'', JArr raw_calls)] else [])"

section \<open>Consuming events\<close>

type_synonym partials = "(int \<times> partial_call) list"

datatype display = Text string | Tool_Delta

datatype failure = Crash string | Outside

definition add_fragment :: "json \<Rightarrow> partials \<Rightarrow> partials" where
  "add_fragment fragment partials =
     (case fragment of
        JObj f \<Rightarrow>
          (case (if dict_has f ''index'' then as_int (dict_get f ''index'') else Some 0) of
             None \<Rightarrow> partials
           | Some index \<Rightarrow>
               (let p0 = (case map_of partials index of Some p \<Rightarrow> p | None \<Rightarrow> empty_partial);
                    p1 = (case dict_get f ''id'' of JStr i \<Rightarrow> p0\<lparr>partial_id := i\<rparr> | _ \<Rightarrow> p0);
                    p2 = (case dict_get f ''function'' of
                            JObj g \<Rightarrow>
                              (let p2 = (case dict_get g ''name'' of
                                           JStr n \<Rightarrow> p1\<lparr>partial_name := partial_name p1 @ n\<rparr> | _ \<Rightarrow> p1)
                               in (case dict_get g ''arguments'' of
                                     JStr a \<Rightarrow> p2\<lparr>partial_arguments := partial_arguments p2 @ a\<rparr> | _ \<Rightarrow> p2))
                          | _ \<Rightarrow> p1)
                in AList.update index p2 partials))
      | _ \<Rightarrow> partials)"

text \<open>
  \<open>for fragment in fragments\<close>: what a truthy value iterates over. The characters of a
  string and the keys of a dictionary are no fragments; a number does not iterate.
\<close>

fun fragments_of :: "json \<Rightarrow> failure + json list" where
  "fragments_of (JArr xs) = Inr xs"
| "fragments_of (JStr s) = Inr (map (\<lambda>c. JStr [c]) s)"
| "fragments_of (JObj d) = Inr (map (\<lambda>(k, v). JStr k) d)"
| "fragments_of JNull = Inr []"
| "fragments_of v = (if truthy v then Inl (Crash ''TypeError'') else Inr [])"

type_synonym assembly = "assistant_turn \<times> partials \<times> display list"

definition consume_delta :: "dict \<Rightarrow> assembly \<Rightarrow> failure + assembly" where
  "consume_delta delta st =
     (let (turn, partials, shown) = st;
          (turn, shown) = (case dict_get delta ''content'' of
             JStr text \<Rightarrow> if text \<noteq> []
                then (turn\<lparr>content := content turn @ text\<rparr>, shown @ [Text text]) else (turn, shown)
           | _ \<Rightarrow> (turn, shown));
          raw = dict_get delta ''tool_calls'';
          shown = (if truthy raw then shown @ [Tool_Delta] else shown)
      in case fragments_of raw of
           Inl e \<Rightarrow> Inl e
         | Inr fragments \<Rightarrow> Inr (turn, fold add_fragment fragments partials, shown))"

definition consume :: "json \<Rightarrow> assembly \<Rightarrow> failure + assembly" where
  "consume event st =
     (case event of
        JObj e \<Rightarrow>
          (case dict_get e ''choices'' of
             JArr (JObj choice # _) \<Rightarrow>
               (let (turn, partials, shown) = st;
                    turn = (if truthy (dict_get choice ''finish_reason'')
                            then turn\<lparr>finish_reason := Some (json_str (dict_get choice ''finish_reason''))\<rparr> else turn)
                in case dict_get choice ''delta'' of
                     JObj delta \<Rightarrow> consume_delta delta (turn, partials, shown)
                   | _ \<Rightarrow> Inr (turn, partials, shown))
           | _ \<Rightarrow> Inr st)
      | _ \<Rightarrow> Inl (Crash ''AttributeError''))"

text \<open>One line of the stream: comments, blank lines, the end mark and broken JSON are skipped.\<close>

definition consume_line :: "string \<Rightarrow> assembly \<Rightarrow> failure + assembly" where
  "consume_line line st =
     (if \<not> prefix ''data:'' line then Inr st
      else
        (let payload = py_strip (drop 5 line) in
         if payload = [] \<or> payload = ''[DONE]'' then Inr st
         else
           (case json_loads payload of
              Inr event \<Rightarrow> consume event st
            | Inl (Decode_error m) \<Rightarrow> Inr st
            | Inl _ \<Rightarrow> Inl Outside)))"

fun consume_lines :: "string list \<Rightarrow> assembly \<Rightarrow> failure + assembly" where
  "consume_lines [] st = Inr st"
| "consume_lines (line # lines) st =
     (case consume_line line st of Inl e \<Rightarrow> Inl e | Inr st' \<Rightarrow> consume_lines lines st')"

section \<open>Validating the calls\<close>

definition is_name_start :: "char \<Rightarrow> bool" where
  "is_name_start c \<longleftrightarrow> (let n = code_point c in 65 \<le> n \<and> n \<le> 90 \<or> 97 \<le> n \<and> n \<le> 122 \<or> c = CHR ''_'')"

definition is_name_char :: "char \<Rightarrow> bool" where
  "is_name_char c \<longleftrightarrow> is_name_start c \<or> is_digit c \<or> c = CHR ''-''"

text \<open>The match of \<open><function\s*=\s*([A-Za-z_][A-Za-z0-9_-]*)\s*>\<close> at the start of a text: the name.\<close>

definition leaked_at :: "string \<Rightarrow> string option" where
  "leaked_at text =
     (if prefix ''<function'' text then
        (case dropWhile py_isspace (drop 9 text) of
           [] \<Rightarrow> None
         | c # rest \<Rightarrow>
             if c \<noteq> CHR ''='' then None
             else
               (let rest = dropWhile py_isspace rest;
                    name = takeWhile is_name_char rest;
                    after = dropWhile py_isspace (dropWhile is_name_char rest)
                in if name \<noteq> [] \<and> is_name_start (hd name) \<and> after \<noteq> [] \<and> hd after = CHR ''>''
                   then Some name else None))
      else None)"

fun leaked_call :: "string \<Rightarrow> string option" where
  "leaked_call [] = None"
| "leaked_call (c # cs) =
     (case leaked_at (c # cs) of Some name \<Rightarrow> Some name | None \<Rightarrow> leaked_call cs)"

definition raw_call :: "string \<Rightarrow> string \<Rightarrow> string \<Rightarrow> json" where
  "raw_call i name text =
     JObj [(''id'', JStr i), (''type'', JStr ''function''),
           (''function'', JObj [(''name'', JStr name), (''arguments'', JStr text)])]"

datatype validated = Valid tool_call json | Malformed string | Unreadable

definition validate_partial :: "string option \<Rightarrow> int \<Rightarrow> partial_call \<Rightarrow> validated" where
  "validate_partial finish index p =
     (if partial_name p = [] then Malformed ''a tool call arrived with no function name''
      else
        (let text = (if py_strip (partial_arguments p) \<noteq> [] then py_strip (partial_arguments p) else ''{}'') in
         case json_loads text of
           Inl (Decode_error msg) \<Rightarrow>
             if finish = Some ''length''
             then Malformed (partial_name p @ '': the arguments were cut off by the output token ''
                @ ''limit, so the call was not executed. It was too large to emit. ''
                @ ''Do the same work in smaller pieces - for a file, several small ''
                @ ''edit_file calls rather than one whole-file write_file.'')
             else Malformed (partial_name p @ '': arguments were not valid JSON ('' @ msg @ ''). ''
                @ ''The call was not executed.'')
         | Inl _ \<Rightarrow> Unreadable
         | Inr (JObj arguments) \<Rightarrow>
             (let i = (if partial_id p \<noteq> [] then partial_id p else ''call_'' @ str_int index) in
              Valid \<lparr>call_id = i, call_name = partial_name p, call_arguments = arguments\<rparr>
                (raw_call i (partial_name p) text))
         | Inr _ \<Rightarrow> Malformed (partial_name p @ '': arguments were not a JSON object.'')))"

fun collect :: "validated list \<Rightarrow> assistant_turn \<Rightarrow> json list \<Rightarrow> (failure + assistant_turn \<times> json list)" where
  "collect [] turn raw_calls = Inr (turn, raw_calls)"
| "collect (Valid c r # vs) turn raw_calls =
     collect vs (turn\<lparr>tool_calls := tool_calls turn @ [c]\<rparr>) (raw_calls @ [r])"
| "collect (Malformed m # vs) turn raw_calls =
     collect vs (turn\<lparr>malformed := malformed turn @ [m]\<rparr>) raw_calls"
| "collect (Unreadable # vs) turn raw_calls = Inl Outside"

definition leaked_note :: "assistant_turn \<Rightarrow> string list" where
  "leaked_note turn =
     (case leaked_call (content turn) of
        Some name \<Rightarrow>
          if (py_in ''</tool_call>'' (content turn) \<or> py_in ''<parameter='' (content turn))
              \<and> py_in ''</function>'' (content turn)
          then [name @ '': the call arrived as plain text rather than a ''
              @ ''tool call, so it was not executed. Emit it in the exact format you ''
              @ ''were given, including both the opening and the closing wrapper tags.'']
          else []
      | None \<Rightarrow> [])"

definition finalise :: "assistant_turn \<Rightarrow> partials \<Rightarrow> failure + assistant_turn \<times> json list" where
  "finalise turn partials =
     (case collect (map (\<lambda>(i, p). validate_partial (finish_reason turn) i p) (sort_key fst partials)) turn [] of
        Inl e \<Rightarrow> Inl e
      | Inr (turn, raw_calls) \<Rightarrow>
          Inr (if raw_calls = [] then turn\<lparr>malformed := malformed turn @ leaked_note turn\<rparr> else turn, raw_calls))"

section \<open>One turn\<close>

definition explain_error :: "nat \<Rightarrow> string \<Rightarrow> string option" where
  "explain_error status body =
     (let generic = (\<lambda>message. ''Gateway returned '' @ str_nat status @ '': '' @ take 400 message) in
      case json_loads body of
        Inl (Decode_error m) \<Rightarrow> Some (generic body)
      | Inl _ \<Rightarrow> None
      | Inr (JObj parsed) \<Rightarrow>
          (case dict_get parsed ''error'' of
             JObj e \<Rightarrow>
               (let message = (if dict_has e ''message'' then json_str (dict_get e ''message'') else body);
                    code = dict_get e ''code''
                in if code = JStr ''context_length_exceeded''
                   then Some (message @ '' (Try /compact or starting a new session.)'')
                   else if code = JStr ''invalid_api_key''
                   then Some (message @ '' (Check API_KEYS in .env.)'')
                   else Some (generic message))
           | _ \<Rightarrow> Some (generic body))
      | Inr _ \<Rightarrow> Some (generic body))"

text \<open>
  The exchange as the network may make it: no connection, an error status with its body, or
  the lines of the stream. A network error between two lines is not caught.
\<close>

datatype exchange =
    Unreachable string
  | Refused nat string
  | Streamed "string list" "string option"

datatype turn_result =
    Turn assistant_turn "json list"
  | TurnError string
  | Aborted failure
  | NetworkError string

definition run_turn :: "string \<Rightarrow> exchange \<Rightarrow> turn_result \<times> display list" where
  "run_turn base_url x =
     (case x of
        Unreachable e \<Rightarrow> (TurnError (''Cannot reach the gateway at '' @ base_url @ '': '' @ e), [])
      | Refused status body \<Rightarrow>
          ((case explain_error status body of Some m \<Rightarrow> TurnError m | None \<Rightarrow> Aborted Outside), [])
      | Streamed lines broken \<Rightarrow>
          (case consume_lines lines (empty_turn, [], []) of
             Inl e \<Rightarrow> (Aborted e, [])
           | Inr (turn, partials, shown) \<Rightarrow>
               (case broken of
                  Some e \<Rightarrow> (NetworkError e, shown)
                | None \<Rightarrow>
                    (case finalise turn partials of
                       Inl e \<Rightarrow> (Aborted e, shown)
                     | Inr (turn, raw_calls) \<Rightarrow> (Turn turn raw_calls, shown)))))"

section \<open>Only complete calls run\<close>

definition call_matches :: "tool_call \<Rightarrow> json \<Rightarrow> bool" where
  "call_matches c r \<longleftrightarrow> call_name c \<noteq> [] \<and> call_id c \<noteq> [] \<and>
     (\<exists>text. r = raw_call (call_id c) (call_name c) text \<and> json_loads text = Inr (JObj (call_arguments c)))"

lemma validate_matches: "validate_partial finish i p = Valid c r \<Longrightarrow> call_matches c r"
  by (auto simp: validate_partial_def call_matches_def Let_def split: if_splits sum.splits json_error.splits json.splits)

lemma collect_matches:
  assumes "collect vs turn raw_calls = Inr (turn', raw_calls')"
    and "\<forall>v \<in> set vs. \<forall>c r. v = Valid c r \<longrightarrow> call_matches c r"
    and "list_all2 call_matches (tool_calls turn) raw_calls"
  shows "list_all2 call_matches (tool_calls turn') raw_calls'"
  using assms
proof (induction vs turn raw_calls rule: collect.induct)
  case (2 c r vs turn raw_calls)
  then show ?case by (auto intro: list_all2_appendI)
qed auto

lemma collect_extends:
  "collect vs turn raw_calls = Inr (turn', raw_calls') \<Longrightarrow>
     content turn' = content turn \<and> finish_reason turn' = finish_reason turn \<and> prefix (malformed turn) (malformed turn')"
proof (induction vs turn raw_calls rule: collect.induct)
  case (3 m vs turn raw_calls)
  then have "prefix (malformed turn @ [m]) (malformed turn')" by auto
  with 3 show ?case by (auto dest: append_prefixD)
qed auto

lemma finalise_matches:
  assumes "finalise turn ps = Inr (turn', raw_calls)" and "tool_calls turn = []"
  shows "list_all2 call_matches (tool_calls turn') raw_calls"
proof -
  obtain t where t: "collect (map (\<lambda>(i, p). validate_partial (finish_reason turn) i p) (sort_key fst ps)) turn [] =
      Inr (t, raw_calls)" "tool_calls turn' = tool_calls t"
    using assms(1) by (auto simp: finalise_def split: sum.splits)
  have "list_all2 call_matches (tool_calls t) raw_calls"
    using assms(2) by (intro collect_matches[OF t(1)]) (auto dest: validate_matches)
  with t(2) show ?thesis by simp
qed

text \<open>
  C15. What a finished turn executes is complete: its calls and the raw calls that go back into
  the transcript pair up, each with the same id and name, neither empty, and arguments that
  are the JSON object the raw text parses to. A call cut off in the stream is never among
  them, and then no call is lost silently: either some call is valid or somebody is told.
\<close>

theorem finalise_sound:
  assumes "finalise turn partials = Inr (turn', raw_calls)" and "tool_calls turn = []" and "malformed turn = []"
  shows "list_all2 call_matches (tool_calls turn') raw_calls \<and> content turn' = content turn \<and>
    (partials \<noteq> [] \<longrightarrow> tool_calls turn' \<noteq> [] \<or> malformed turn' \<noteq> [])"
proof -
  let ?vs = "map (\<lambda>(i, p). validate_partial (finish_reason turn) i p) (sort_key fst partials)"
  obtain t where t: "collect ?vs turn [] = Inr (t, raw_calls)"
    "turn' = (if raw_calls = [] then t\<lparr>malformed := malformed t @ leaked_note t\<rparr> else t)"
    using assms(1) by (auto simp: finalise_def split: sum.splits)
  have "list_all2 call_matches (tool_calls turn') raw_calls" by (rule finalise_matches[OF assms(1,2)])
  moreover have "tool_calls t \<noteq> [] \<or> malformed t \<noteq> []" if "partials \<noteq> []"
  proof -
    have step: "collect vs u rs = Inr (u', rs') \<Longrightarrow> vs \<noteq> [] \<or> tool_calls u \<noteq> [] \<or> malformed u \<noteq> [] \<Longrightarrow>
        tool_calls u' \<noteq> [] \<or> malformed u' \<noteq> []" for vs u rs u' rs'
      by (induction vs u rs rule: collect.induct) auto
    have "?vs \<noteq> []" using that by (metis length_0_conv length_map length_sort)
    with step[OF t(1)] show ?thesis by blast
  qed
  ultimately show ?thesis using t(2) collect_extends[OF t(1)] by auto
qed

theorem finalise_sound_witness:
  "\<exists>turn' raw_calls.
     finalise empty_turn [(0, \<lparr>partial_id = ''a'', partial_name = ''run'', partial_arguments = ''{ ''\<rparr>),
                          (1, \<lparr>partial_id = [], partial_name = ''run'', partial_arguments = []\<rparr>)] = Inr (turn', raw_calls) \<and>
     length (malformed turn') = 1 \<and> list_all2 call_matches (tool_calls turn') raw_calls \<and> length raw_calls = 1"
proof -
  let ?x = "finalise empty_turn [(0, \<lparr>partial_id = ''a'', partial_name = ''run'', partial_arguments = ''{ ''\<rparr>),
                          (1, \<lparr>partial_id = [], partial_name = ''run'', partial_arguments = []\<rparr>)]"
  have "case ?x of Inr (t, r) \<Rightarrow> length (malformed t) = 1 \<and> length r = 1 | _ \<Rightarrow> False" by code_simp
  then obtain t r where x: "?x = Inr (t, r)" "length (malformed t) = 1" "length r = 1"
    by (auto split: sum.splits)
  from finalise_sound[OF x(1)] have "list_all2 call_matches (tool_calls t) r" by (simp add: empty_turn_def)
  with x show ?thesis by blast
qed

lemma consume_keeps_calls:
  "consume event (turn, ps, shown) = Inr (turn', ps', shown') \<Longrightarrow>
     tool_calls turn' = tool_calls turn \<and> malformed turn' = malformed turn"
  by (auto simp: consume_def consume_delta_def Let_def split: json.splits list.splits sum.splits if_splits)

lemma consume_lines_keep_calls:
  "consume_lines lines (turn, ps, shown) = Inr (turn', ps', shown') \<Longrightarrow>
     tool_calls turn' = tool_calls turn \<and> malformed turn' = malformed turn"
proof (induction lines arbitrary: turn ps shown)
  case (Cons line lines)
  then obtain t p d where step: "consume_line line (turn, ps, shown) = Inr (t, p, d)"
    "consume_lines lines (t, p, d) = Inr (turn', ps', shown')"
    by (auto split: sum.splits)
  have "tool_calls t = tool_calls turn \<and> malformed t = malformed turn"
    using step(1) consume_keeps_calls
    by (auto simp: consume_line_def Let_def split: if_splits sum.splits json_error.splits)
  with Cons.IH[OF step(2)] show ?case by simp
qed simp

lemma run_turn_matches:
  "run_turn url x = (Turn turn raw_calls, shown) \<Longrightarrow> list_all2 call_matches (tool_calls turn) raw_calls"
  by (auto simp: run_turn_def empty_turn_def dest!: consume_lines_keep_calls finalise_matches
      split: exchange.splits sum.splits option.splits prod.splits)

section \<open>Fragments\<close>

definition argument_fragment :: "int \<Rightarrow> string \<Rightarrow> json" where
  "argument_fragment i chunk = JObj [(''index'', JInt i), (''function'', JObj [(''arguments'', JStr chunk)])]"

definition opening_fragment :: "int \<Rightarrow> string \<Rightarrow> string \<Rightarrow> json" where
  "opening_fragment i cid name = JObj [(''index'', JInt i), (''id'', JStr cid),
     (''function'', JObj [(''name'', JStr name), (''arguments'', JStr [])])]"

definition delta_event :: "json \<Rightarrow> json" where
  "delta_event fragment = JObj [(''choices'', JArr [JObj [(''delta'', JObj [(''tool_calls'', JArr [fragment])])]])]"

definition sse :: "json \<Rightarrow> string" where
  "sse event = ''data: '' @ json_dumps event"

lemma py_strip_object: "py_strip (CHR '' '' # json_dumps (JObj d)) = json_dumps (JObj d)"
  "py_strip (json_dumps (JObj d)) = json_dumps (JObj d)"
  by (simp_all add: py_strip_def py_lstrip_def py_rstrip_def py_isspace_def code_point_def)

lemma consume_line_sse:
  assumes "json_ok (JObj d)"
  shows "consume_line (sse (JObj d)) st = consume (JObj d) st"
proof -
  have "json_dumps (JObj d) \<noteq> [] \<and> json_dumps (JObj d) \<noteq> ''[DONE]''" by simp
  then show ?thesis
    using codec.loads_dumps[OF assms] py_strip_object(1)[of d]
    by (simp add: consume_line_def sse_def Let_def del: json_dumps.simps)
qed

lemma consume_fragment:
  "consume (delta_event f) (turn, partials, shown) =
     Inr (turn, add_fragment f partials, shown @ [Tool_Delta])"
  by (simp add: delta_event_def consume_def consume_delta_def dict_get_def)

lemma consume_sse_fragment:
  assumes "json_ok f"
  shows "consume_line (sse (delta_event f)) (turn, partials, shown) =
     Inr (turn, add_fragment f partials, shown @ [Tool_Delta])"
  using consume_line_sse[of "[(''choices'', JArr [JObj [(''delta'', JObj [(''tool_calls'', JArr [f])])]])]"] assms
    consume_fragment[of f] by (simp add: delta_event_def)

lemma add_argument_fragment:
  "add_fragment (argument_fragment i chunk) [(i, p)] = [(i, p\<lparr>partial_arguments := partial_arguments p @ chunk\<rparr>)]"
  by (simp add: argument_fragment_def add_fragment_def dict_get_def dict_has_def Let_def)

lemma consume_argument_lines:
  "consume_lines (map (\<lambda>chunk. sse (delta_event (argument_fragment i chunk))) chunks) (turn, [(i, p)], shown) =
     Inr (turn, [(i, p\<lparr>partial_arguments := partial_arguments p @ concat chunks\<rparr>)],
          shown @ replicate (length chunks) Tool_Delta)"
proof (induction chunks arbitrary: p shown)
  case (Cons chunk chunks)
  have "json_ok (argument_fragment i chunk)" by (simp add: argument_fragment_def)
  from consume_sse_fragment[OF this] Cons show ?case by (simp add: add_argument_fragment)
qed simp

text \<open>
  C14. A streamed call arrives intact however its arguments are cut up: when the fragments add
  up to the JSON text of an object, the turn holds exactly that call with that object,
  and the text goes back into the transcript as it was sent.
\<close>

theorem streamed_call_intact:
  assumes "concat chunks = json_dumps (JObj args)" and "json_ok (JObj args)" and "name \<noteq> []" and "cid \<noteq> []"
  shows "run_turn url (Streamed (sse (delta_event (opening_fragment i cid name))
           # map (\<lambda>chunk. sse (delta_event (argument_fragment i chunk))) chunks) None) =
     (Turn (empty_turn\<lparr>tool_calls := [\<lparr>call_id = cid, call_name = name, call_arguments = args\<rparr>]\<rparr>)
           [raw_call cid name (json_dumps (JObj args))],
      replicate (length chunks + 1) Tool_Delta)"
proof -
  let ?p = "\<lparr>partial_id = cid, partial_name = name, partial_arguments = []\<rparr>"
  have "json_ok (opening_fragment i cid name)" by (simp add: opening_fragment_def)
  from consume_sse_fragment[OF this, of empty_turn "[]" "[]"]
  have "consume_line (sse (delta_event (opening_fragment i cid name))) (empty_turn, [], []) =
      Inr (empty_turn, [(i, ?p)], [Tool_Delta])"
    by (simp add: opening_fragment_def add_fragment_def dict_get_def dict_has_def empty_partial_def Let_def)
  then have "consume_lines (sse (delta_event (opening_fragment i cid name))
           # map (\<lambda>chunk. sse (delta_event (argument_fragment i chunk))) chunks) (empty_turn, [], []) =
      Inr (empty_turn, [(i, ?p\<lparr>partial_arguments := json_dumps (JObj args)\<rparr>)],
           Tool_Delta # replicate (length chunks) Tool_Delta)"
    using consume_argument_lines[of i chunks empty_turn ?p "[Tool_Delta]"] assms(1) by simp
  moreover have "validate_partial None i (?p\<lparr>partial_arguments := json_dumps (JObj args)\<rparr>) =
      Valid \<lparr>call_id = cid, call_name = name, call_arguments = args\<rparr> (raw_call cid name (json_dumps (JObj args)))"
  proof -
    have "json_dumps (JObj args) \<noteq> []" by simp
    with codec.loads_dumps[OF assms(2)] assms(3,4) show ?thesis
      by (simp add: validate_partial_def py_strip_object Let_def del: json_dumps.simps)
  qed
  ultimately show ?thesis
    by (simp add: run_turn_def finalise_def empty_turn_def del: json_dumps.simps)
qed

theorem streamed_call_intact_witness:
  "fst (run_turn ''u'' (Streamed (sse (delta_event (opening_fragment 0 ''c1'' ''run''))
       # map (\<lambda>chunk. sse (delta_event (argument_fragment 0 chunk))) [''{'', [CHR 0x22], ''x'', [CHR 0x22], '': 1}'']) None)) =
   Turn (empty_turn\<lparr>tool_calls := [\<lparr>call_id = ''c1'', call_name = ''run'', call_arguments = [(''x'', JInt 1)]\<rparr>]\<rparr>)
        [raw_call ''c1'' ''run'' (json_dumps (JObj [(''x'', JInt 1)]))]"
proof -
  have c: "concat [''{'', [CHR 0x22], ''x'', [CHR 0x22], '': 1}''] = json_dumps (JObj [(''x'', JInt 1)])" by code_simp
  have ok: "json_ok (JObj [(''x'', JInt 1)])" by simp
  show ?thesis by (subst streamed_call_intact[OF c ok]) simp_all
qed

text \<open>
  A stream line holding JSON that is no object ends the turn with an exception nobody
  expects: the event is asked for its choices whatever it is.
\<close>

theorem non_object_event_crashes:
  assumes "json_loads (py_strip payload) = Inr v" and "\<forall>d. v \<noteq> JObj d"
    and "py_strip payload \<noteq> []" and "py_strip payload \<noteq> ''[DONE]''"
  shows "consume_lines ((''data:'' @ payload) # lines) st = Inl (Crash ''AttributeError'')"
  using assms by (cases v) (simp_all add: consume_line_def consume_def)

theorem non_object_event_crashes_witness:
  "run_turn ''u'' (Streamed [''data: null''] None) = (Aborted (Crash ''AttributeError''), [])"
proof -
  have "json_loads (py_strip '' null'') = Inr JNull" by code_simp
  moreover have "py_strip '' null'' = ''null''" by code_simp
  ultimately have "consume_lines [''data:'' @ '' null''] (empty_turn, [], []) = Inl (Crash ''AttributeError'')"
    by (intro non_object_event_crashes[where v = JNull]) simp_all
  then show ?thesis by (simp add: run_turn_def)
qed

end
