(* ===== verification/Edits.thy ===== *)
theory Edits
  imports Prelude
begin

text \<open>
  \<open>llm_assistant_agent/edits.py\<close>: applying an edit the model proposed to the text of
  a file. An edit replaces an exact anchor; everything that is not unambiguously safe
  is an \<open>EditError\<close> whose message says what to do next. The messages are modelled to
  the character, because they are the interface to the model. And the diff of a change, over
  \<open>difflib\<close>.
\<close>

section \<open>The diff of a change\<close>

text \<open>\<open>splitlines(keepends=True)\<close>.\<close>

fun kept_lines_from :: "string \<Rightarrow> string \<Rightarrow> string list" where
  "kept_lines_from acc [] = (if acc = [] then [] else [rev acc])"
| "kept_lines_from acc (c # cs) =
     (if \<not> is_line_break c then kept_lines_from (c # acc) cs
      else if c = CR \<and> cs \<noteq> [] \<and> hd cs = NL then rev (NL # c # acc) # kept_lines_from [] (tl cs)
      else rev (c # acc) # kept_lines_from [] cs)"

text \<open>\<open>difflib.unified_diff(before, after, fromfile, tofile, n)\<close> is a parameter.\<close>

type_synonym difflib = "string list \<Rightarrow> string list \<Rightarrow> string \<Rightarrow> string \<Rightarrow> nat \<Rightarrow> string list"

definition unified_diff :: "difflib \<Rightarrow> string \<Rightarrow> string \<Rightarrow> string \<Rightarrow> string" where
  "unified_diff difflib old_text new_text path =
     concat (difflib (kept_lines_from [] old_text) (kept_lines_from [] new_text) (''a/'' @ path) (''b/'' @ path) 3)"

lemma concat_kept_lines: "concat (kept_lines_from acc s) = rev acc @ s"
proof (induction acc s rule: kept_lines_from.induct)
  case (2 acc c cs)
  then show ?case by (cases cs) auto
qed simp

lemma unified_diff_empty:
  assumes "\<And>xs ys p q. concat (difflib xs ys p q 3) = [] \<Longrightarrow> xs = ys" and "unified_diff difflib a b path = []"
  shows "a = b"
proof -
  have "kept_lines_from [] a = kept_lines_from [] b" using assms by (simp add: unified_diff_def)
  then have "concat (kept_lines_from [] a) = concat (kept_lines_from [] b)" by simp
  then show ?thesis by (simp add: concat_kept_lines)
qed

section \<open>Where the anchor stands\<close>

definition MAX_REPORTED_LINES :: nat where "MAX_REPORTED_LINES = 5"
definition LONG_ANCHOR_LINES :: nat where "LONG_ANCHOR_LINES = 60"
definition REWRITABLE_CHARS :: nat where "REWRITABLE_CHARS = 20000"

datatype edit_error = EditError string

function line_numbers_from :: "string \<Rightarrow> string \<Rightarrow> nat \<Rightarrow> nat list" where
  "line_numbers_from content needle start =
     (case py_find content needle start of
        None \<Rightarrow> []
      | Some index \<Rightarrow>
          (count_list (take index content) NL + 1) # line_numbers_from content needle (index + 1))"
  by pat_completeness auto
termination
  by (relation "measure (\<lambda>(content, needle, start). Suc (length content) - start)")
    (auto simp: py_find_def split: if_splits dest: find_in_Some_less)

declare line_numbers_from.simps [simp del]

definition line_numbers_of :: "string \<Rightarrow> string \<Rightarrow> nat list" where
  "line_numbers_of content needle = line_numbers_from content needle 0"

section \<open>Why it does not\<close>

text \<open>\<open>re.sub(r"\s+", " ", text)\<close>.\<close>

function collapse_ws :: "string \<Rightarrow> string" where
  "collapse_ws [] = []"
| "collapse_ws (c # cs) =
     (if py_isspace c then CHR '' '' # collapse_ws (dropWhile py_isspace cs)
      else c # collapse_ws cs)"
  by pat_completeness auto
termination
  by (relation "measure length") (auto simp: le_imp_less_Suc length_dropWhile_le)

definition squash :: "string \<Rightarrow> string" where
  "squash text = py_strip (collapse_ws text)"

definition whitespace_insensitive_hint :: "string \<Rightarrow> string \<Rightarrow> string option" where
  "whitespace_insensitive_hint content old_string =
     (let squashed_old = squash old_string in
      if squashed_old = [] then None
      else if py_count (squash content) squashed_old > 0 then
        Some ('' A block matching this text apart from whitespace does exist, but it ''
            @ ''could not be lined up against the file to say where - the line breaks ''
            @ ''differ too. Re-read the file and copy a few of its lines verbatim.'')
      else None)"

definition leading :: "string \<Rightarrow> string" where
  "leading line = take (length line - length (py_lstrip line)) line"

definition describe_indent :: "string \<Rightarrow> string" where
  "describe_indent whitespace =
     (let n = length whitespace in
      if n = 0 then ''no indentation''
      else if whitespace = replicate n (CHR '' '')
      then str_nat n @ '' space'' @ plural n
      else if whitespace = replicate n TAB
      then str_nat n @ '' tab'' @ plural n
      else ''the whitespace '' @ py_repr whitespace)"

definition shown :: "string \<Rightarrow> string" where
  "shown line =
     (let text = take 100 (py_strip line) in if text \<noteq> [] then text else ''(a blank line)'')"

text \<open>
  The place where the anchor stops matching: the index of its first non-blank line, the
  start among the candidate lines of the file with the longest run of equal lines (the
  first such), and the length of that run.
\<close>

definition nonblank :: "string \<Rightarrow> bool" where
  "nonblank line \<longleftrightarrow> py_strip line \<noteq> []"

definition anchor_starts :: "string list \<Rightarrow> string \<Rightarrow> nat list" where
  "anchor_starts lines anchor =
     (let exact = filter (\<lambda>i. lines ! i = anchor) [0..<length lines] in
      if exact \<noteq> [] then exact
      else filter (\<lambda>i. py_strip (lines ! i) = py_strip anchor) [0..<length lines])"

fun best_match :: "string list \<Rightarrow> string list \<Rightarrow> nat list \<Rightarrow> nat \<times> int \<Rightarrow> nat \<times> int" where
  "best_match lines rest [] best = best"
| "best_match lines rest (start # starts) best =
     (let matched = int (common_len (drop start lines) rest) in
      best_match lines rest starts
        (if matched > snd best then (start, matched) else best))"

definition locate_anchor :: "string list \<Rightarrow> string list \<Rightarrow> (nat \<times> nat \<times> nat) option" where
  "locate_anchor lines wanted =
     (case first_index nonblank wanted of
        None \<Rightarrow> None
      | Some offset \<Rightarrow>
          (case anchor_starts lines (wanted ! offset) of
             [] \<Rightarrow> None
           | start # starts \<Rightarrow>
               (let (best_start, best_matched) =
                      best_match lines (drop offset wanted) (start # starts) (start, -1)
                in Some (offset, best_start, nat best_matched))))"

definition divergence_hint :: "string \<Rightarrow> string \<Rightarrow> string option" where
  "divergence_hint content old_string =
     (let wanted = py_split [NL] old_string;
          lines = py_split [NL] content
      in case locate_anchor lines wanted of
           None \<Rightarrow> None
         | Some (offset, best_start, best_matched) \<Rightarrow>
             (let sent_index = offset + best_matched;
                  file_index = best_start + best_matched
              in if sent_index \<ge> length wanted then None
                 else
                   (let sent = wanted ! sent_index;
                        at_end = (file_index \<ge> length lines);
                        actual = (if at_end then [] else lines ! file_index);
                        where_text =
                          (if best_matched = 0
                           then '' It lines up with line '' @ str_nat (best_start + 1)
                              @ '' of the file, but differs''
                           else '' It matches the file from line '' @ str_nat (best_start + 1)
                              @ '' for '' @ str_nat best_matched @ '' line'' @ plural best_matched
                              @ '', then differs'');
                        left = length wanted - sent_index
                    in if at_end then
                         Some (where_text @ '': the file ends there, while your old_string carries on for ''
                             @ str_nat left @ '' more line'' @ plural left @ ''.'' @ [NL]
                             @ ''  Anchor on a shorter run of lines around the change.'')
                       else if py_strip sent = py_strip actual then
                         Some (where_text @ '' only in indentation, on line '' @ str_nat (file_index + 1)
                             @ '':'' @ [NL]
                             @ ''    you sent:      '' @ describe_indent (leading sent) @ [NL]
                             @ ''    the file has:  '' @ describe_indent (leading actual) @ [NL]
                             @ ''    on this line:  '' @ shown actual @ [NL]
                             @ ''  Re-indent from that line on to match the file, or anchor on a shorter ''
                             @ ''run of lines around the change.'')
                       else
                         Some (where_text @ '' on line '' @ str_nat (file_index + 1) @ '':'' @ [NL]
                             @ ''    you sent:      '' @ shown sent @ [NL]
                             @ ''    the file has:  '' @ shown actual @ [NL]
                             @ ''  Fix that line, or anchor on a shorter run of lines around the change.''))))"

definition absent_anchor_hint :: "string \<Rightarrow> string \<Rightarrow> string option" where
  "absent_anchor_hint content old_string =
     (let lines = py_split [NL] content in
      case find nonblank (py_split [NL] old_string) of
        None \<Rightarrow> None
      | Some anchor \<Rightarrow>
          if list_ex (\<lambda>line. py_strip line = py_strip anchor) lines then None
          else Some ('' Its first non-blank line is not in the file at all:'' @ [NL] @ ''    ''
                 @ shown anchor @ [NL]
                 @ ''  So this anchor was not copied from the file. Call read_file and copy ''
                 @ ''the few lines you mean to change.''))"

definition size_hint :: "string \<Rightarrow> string \<Rightarrow> string" where
  "size_hint old_string content =
     (let count = count_list old_string NL + 1 in
      if count < LONG_ANCHOR_LINES then []
      else
        (let way_out =
               (if length content > REWRITABLE_CHARS
                then ''Anchor on the few lines that actually change. This file is ''
                   @ str_nat (length content div 1000)
                   @ '' kB, which is more than one reply can carry, so ''
                   @ ''write_file is not an option here either - several small edits are.''
                else ''Anchor on the few lines that actually change, or use write_file to ''
                   @ ''replace the file whole.'')
         in [NL] @ ''  old_string is '' @ str_nat count
          @ '' lines. edit_file needs a byte-exact copy, and that ''
          @ ''much text reproduced from memory almost never is one. '' @ way_out))"

section \<open>Applying an edit\<close>

text \<open>\<open>a or b\<close> for hints: an absent or empty hint gives way to the next.\<close>

definition hint_or :: "string option \<Rightarrow> string \<Rightarrow> string" where
  "hint_or h otherwise = (case h of Some t \<Rightarrow> if t \<noteq> [] then t else otherwise | None \<Rightarrow> otherwise)"

definition not_found_message :: "string \<Rightarrow> string \<Rightarrow> bool \<Rightarrow> string" where
  "not_found_message content old_string written_since_read =
     (let stale = (if written_since_read
                   then [NL] @ ''  You have written this file since you last read it, so it no longer ''
                      @ ''says what you remember. Call read_file before editing it again.''
                   else []);
          hint = hint_or (divergence_hint content old_string)
                   (hint_or (whitespace_insensitive_hint content old_string)
                      (hint_or (absent_anchor_hint content old_string)
                         '' Re-read the file: the text may have changed, or it may never have been there.''));
          size = size_hint old_string content
      in ''old_string was not found in the file.'' @ hint @ stale @ size)"

definition ambiguous_message :: "string \<Rightarrow> string \<Rightarrow> string" where
  "ambiguous_message content old_string =
     (let lines = line_numbers_of content old_string;
          shown_lines = py_join '', '' (map str_nat (take MAX_REPORTED_LINES lines));
          more = (if length lines \<le> MAX_REPORTED_LINES then [] else '', ...'')
      in ''old_string appears '' @ str_nat (py_count content old_string) @ '' times (lines ''
       @ shown_lines @ more @ ''), so this ''
       @ ''edit is ambiguous. Include more surrounding context to make it unique, ''
       @ ''or pass replace_all=true if every occurrence should change.'')"

definition identical_message :: "string \<Rightarrow> string \<Rightarrow> string" where
  "identical_message content old_string =
     (if py_in old_string content
      then ''old_string and new_string are identical, so this call asks for no ''
         @ ''change, and the file already contains that text. Nothing was written. ''
         @ ''If you meant to change something, send the text as it is now in ''
         @ ''old_string and the text you want in new_string. If you meant to add ''
         @ ''something, anchor on the line you want to add it next to. Call ''
         @ ''git_diff to see what has actually landed so far.''
      else ''old_string and new_string are identical, and neither appears in the file. ''
         @ ''Both fields hold what you want the file to become; old_string has to hold ''
         @ ''what it contains now. Call read_file and copy the current text into it.'')"

definition apply_edit :: "string \<Rightarrow> string \<Rightarrow> string \<Rightarrow> bool \<Rightarrow> bool \<Rightarrow> edit_error + string" where
  "apply_edit content old_string new_string replace_all written_since_read =
     (if old_string = []
      then Inl (EditError (''old_string is empty. Use write_file to create a file or replace it ''
                         @ ''wholesale.''))
      else if old_string = new_string
      then Inl (EditError (identical_message content old_string))
      else
        (let occurrences = py_count content old_string in
         if occurrences = 0
         then Inl (EditError (not_found_message content old_string written_since_read))
         else if occurrences > 1 \<and> \<not> replace_all
         then Inl (EditError (ambiguous_message content old_string))
         else if replace_all then Inr (py_replace content old_string new_string)
         else Inr (py_replace1 content old_string new_string)))"

section \<open>What an applied edit does\<close>

lemma apply_edit_simps [state_simps]:
  "apply_edit c [] n ra w = Inl (EditError (''old_string is empty. Use write_file to create a file or replace it ''
                         @ ''wholesale.''))"
  "o' \<noteq> [] \<Longrightarrow> apply_edit c o' o' ra w = Inl (EditError (identical_message c o'))"
  "o' \<noteq> [] \<Longrightarrow> o' \<noteq> n \<Longrightarrow> py_count c o' = 0 \<Longrightarrow>
     apply_edit c o' n ra w = Inl (EditError (not_found_message c o' w))"
  "o' \<noteq> [] \<Longrightarrow> o' \<noteq> n \<Longrightarrow> 1 < py_count c o' \<Longrightarrow>
     apply_edit c o' n False w = Inl (EditError (ambiguous_message c o'))"
  "o' \<noteq> [] \<Longrightarrow> o' \<noteq> n \<Longrightarrow> 0 < py_count c o' \<Longrightarrow> apply_edit c o' n True w = Inr (py_replace c o' n)"
  "o' \<noteq> [] \<Longrightarrow> o' \<noteq> n \<Longrightarrow> py_count c o' = 1 \<Longrightarrow> apply_edit c o' n False w = Inr (py_replace1 c o' n)"
  by (simp_all add: apply_edit_def)

lemma apply_edit_once_iff:
  "apply_edit c o' n False w = Inr r \<longleftrightarrow>
     o' \<noteq> [] \<and> o' \<noteq> n \<and> py_count c o' = 1 \<and> r = py_replace1 c o' n"
  by (auto simp: apply_edit_def Let_def)

lemma apply_edit_all_iff:
  "apply_edit c o' n True w = Inr r \<longleftrightarrow>
     o' \<noteq> [] \<and> o' \<noteq> n \<and> py_in o' c \<and> r = py_replace c o' n"
  by (cases "o' = []") (auto simp: apply_edit_def Let_def py_count_0)

text \<open>An anchor that can stand at two overlapping places, such as a repeated character.\<close>

definition self_overlapping :: "string \<Rightarrow> bool" where
  "self_overlapping o' \<longleftrightarrow> (\<exists>k. 0 < k \<and> k < length o' \<and> prefix (drop k o') o')"

lemma single_occurrence:
  assumes "c = pre @ old @ post" and "\<forall>j < length pre. \<not> occurs_at c old j" and "\<not> py_in old post"
    and "\<not> self_overlapping old" and "occurs_at c old j"
  shows "j = length pre"
proof -
  obtain more where more: "drop j c = old @ more" and j: "j \<le> length c"
    using assms(5) by (auto simp: occurs_at_def prefix_def)
  have "length pre \<le> j" using assms(2,5) by (meson not_le)
  then obtain k where k: "j = length pre + k" using le_Suc_ex by blast
  have shifted: "drop k old @ drop (k - length old) post = old @ more" using more by (simp add: assms(1) k)
  show ?thesis
  proof (cases "k < length old")
    case True
    then have "drop k old @ post = old @ more" using shifted by simp
    then have "prefix (drop k old) (old @ more)" by (metis prefixI)
    moreover have "prefix old (old @ more)" by simp
    ultimately have "prefix (drop k old) old" by (rule prefix_length_prefix) simp
    with True assms(4) k show ?thesis by (auto simp: self_overlapping_def)
  next
    case False
    then have "drop (k - length old) post = old @ more" using shifted by simp
    then have "sublist old post" by (metis append_take_drop_id sublist_appendI)
    with assms(3) show ?thesis by (simp add: py_in_iff_sublist)
  qed
qed

text \<open>
  C6. A single edit succeeds exactly when the anchor is non-empty, differs from the
  replacement and is counted once in the file. \<open>str.count\<close> skips overlaps, so that is: the file
  splits into what precedes the anchor, the anchor, and what follows; the anchor stands
  nowhere before that place and nowhere in what follows; and only the anchor is replaced.
  Then an anchor that cannot overlap itself is unique in the file, as promised; one that can
  may stand there twice (\<open>overlapping_anchor_applied\<close>).
\<close>

theorem apply_edit_single:
  "(apply_edit c old new False w = Inr r \<longleftrightarrow>
     old \<noteq> [] \<and> old \<noteq> new \<and>
     (\<exists>pre post. c = pre @ old @ post \<and> r = pre @ new @ post \<and>
        (\<forall>j < length pre. \<not> occurs_at c old j) \<and> \<not> py_in old post)) \<and>
   (apply_edit c old new False w = Inr r \<and> \<not> self_overlapping old \<longrightarrow> (\<exists>!i. occurs_at c old i))"
proof -
  have eq: "py_count c old = 1 \<and> r = py_replace1 c old new \<longleftrightarrow>
     (\<exists>pre post. c = pre @ old @ post \<and> r = pre @ new @ post \<and>
        (\<forall>j < length pre. \<not> occurs_at c old j) \<and> \<not> py_in old post)" (is "?l \<longleftrightarrow> ?r")
    if ne: "old \<noteq> []"
  proof
    assume l: ?l
    then obtain i where i: "find_in old c = Some i" and post: "\<not> py_in old (drop (i + length old) c)"
      using py_count_1[OF ne] by auto
    have len: "length (take i c) = i" using find_in_Some_less[OF i] by simp
    have "r = take i c @ new @ drop (i + length old) c"
      using l by (simp add: py_replace1_found[OF i])
    with i post len show ?r
      using find_in_Some_occurs[OF i] by (metis find_in_Some_iff)
  next
    assume ?r
    then obtain pre post where h: "c = pre @ old @ post" "r = pre @ new @ post"
      "\<forall>j < length pre. \<not> occurs_at c old j" "\<not> py_in old post" by blast
    have "occurs_at c old (length pre)" using h(1) by (simp add: occurs_at_def)
    with h(3) have i: "find_in old c = Some (length pre)" by (simp add: find_in_Some_iff)
    with h ne show ?l by (simp add: py_count_1[OF ne, simplified] py_replace1_found)
  qed
  then have once: "apply_edit c old new False w = Inr r \<longleftrightarrow> old \<noteq> [] \<and> old \<noteq> new \<and>
     (\<exists>pre post. c = pre @ old @ post \<and> r = pre @ new @ post \<and>
        (\<forall>j < length pre. \<not> occurs_at c old j) \<and> \<not> py_in old post)"
    unfolding apply_edit_once_iff using eq by blast
  have "\<exists>!i. occurs_at c old i" if ok: "apply_edit c old new False w = Inr r" and apart: "\<not> self_overlapping old"
  proof -
    obtain pre post where h: "c = pre @ old @ post" "\<forall>j < length pre. \<not> occurs_at c old j" "\<not> py_in old post"
      using ok once by blast
    have "occurs_at c old (length pre)" using h(1) by (simp add: occurs_at_def)
    with single_occurrence[OF h apart] show ?thesis by blast
  qed
  then show ?thesis using once by (intro conjI impI) (simp_all only: simp_thms)
qed

theorem apply_edit_single_witness:
  "\<exists>!i. occurs_at ''a = 1; b = 1'' ''b'' i"
proof -
  have "apply_edit ''a = 1; b = 1'' ''b'' ''c'' False False = Inr ''a = 1; c = 1''" by code_simp
  moreover have "\<not> self_overlapping ''b''" by (simp add: self_overlapping_def)
  ultimately show ?thesis using conjunct2[OF apply_edit_single] by blast
qed

text \<open>
  A replace-all edit succeeds exactly when the anchor is non-empty, differs from the
  replacement and stands in the file; the result joins with the replacement the pieces
  the anchor separates, none of which holds the anchor any more.
\<close>

theorem apply_edit_replace_all:
  "apply_edit c old new True w = Inr r \<longleftrightarrow>
     old \<noteq> [] \<and> old \<noteq> new \<and> py_in old c \<and>
     r = py_join new (py_split old c) \<and> c = py_join old (py_split old c) \<and>
     list_all (\<lambda>piece. \<not> py_in old piece) (py_split old c)"
  by (auto simp: apply_edit_all_iff py_replace_def py_join_split list_all_iff dest: py_split_pieces)

text \<open>
  With the anchor found once, replace-all and a single edit agree: the flag matters
  only for an ambiguous anchor.
\<close>

theorem apply_edit_flag_irrelevant_once:
  "py_count c old = 1 \<Longrightarrow> apply_edit c old new True w = apply_edit c old new False w"
  by (cases "old = []"; cases "old = new") (simp_all add: state_simps py_replace_once)

theorem apply_edit_flag_irrelevant_once_witness:
  "apply_edit ''xay'' ''a'' ''b'' True False = apply_edit ''xay'' ''a'' ''b'' False False"
  by (rule apply_edit_flag_irrelevant_once) code_simp

text \<open>
  An applied single edit can be undone: when the replacement stands at one place of
  the result, the edit with the two texts swapped restores the file.
\<close>

theorem apply_edit_undo:
  assumes "apply_edit c old new False w = Inr r" and "new \<noteq> []" and "length (py_positions r new) = 1"
  shows "apply_edit r new old False w' = Inr c"
proof -
  from assms(1) obtain pre post where h: "c = pre @ old @ post" "r = pre @ new @ post" "old \<noteq> new"
    by (auto simp: apply_edit_single)
  then have at: "occurs_at r new (length pre)" by (simp add: occurs_at_def)
  obtain k where "py_positions r new = [k]"
    using assms(3) by (auto simp: length_Suc_conv)
  then have "{i. occurs_at r new i} = {k}"
    using set_py_positions[of r new] by simp
  with at have only: "occurs_at r new i \<longleftrightarrow> i = length pre" for i
    by (metis mem_Collect_eq singletonD)
  have "\<not> py_in new post"
  proof
    assume "py_in new post"
    then obtain j where j: "occurs_at post new j" by (auto simp: py_in_iff)
    then have "occurs_at r new (length pre + length new + j)"
      by (auto simp: occurs_at_def h(2) add.commute)
    with \<open>new \<noteq> []\<close> only show False by simp
  qed
  with only h \<open>new \<noteq> []\<close> show ?thesis by (auto simp: apply_edit_single)
qed

theorem apply_edit_undo_witness: "apply_edit ''xby'' ''b'' ''a'' False False = Inr ''xay''"
proof (rule apply_edit_undo)
  show "apply_edit ''xay'' ''a'' ''b'' False True = Inr ''xby''" by code_simp
  show "length (py_positions ''xby'' ''b'') = 1" by code_simp
qed simp

text \<open>
  The uniqueness the edit checks is that of \<open>str.count\<close>, which skips overlapping
  occurrences: an anchor that stands at two overlapping places counts as unique and is
  applied, at the first of them.
\<close>

theorem overlapping_anchor_applied:
  "py_positions ''x = aaa'' ''aa'' = [4, 5] \<and>
   apply_edit ''x = aaa'' ''aa'' ''b'' False False = Inr ''x = ba''"
  by code_simp

section \<open>What an error reports\<close>

definition line_of :: "string \<Rightarrow> nat \<Rightarrow> nat" where
  "line_of content i = count_list (take i content) NL + 1"

lemma line_numbers_from_places:
  "start \<le> length content \<Longrightarrow> needle \<noteq> [] \<Longrightarrow> line_numbers_from content needle start =
     map (line_of content) (filter (occurs_at content needle) [start..<Suc (length content)])"
proof (induction content needle start rule: line_numbers_from.induct)
  case (1 content needle start)
  have shift: "occurs_at (drop start content) needle i \<longleftrightarrow> occurs_at content needle (start + i)" for i
    using 1 by (auto simp: occurs_at_def add.commute)
  show ?case
  proof (cases "py_find content needle start")
    case None
    then have "\<not> occurs_at (drop start content) needle (i - start)" for i
      using 1 by (simp add: py_find_def find_in_None)
    then have "\<not> occurs_at content needle i" if "start \<le> i" for i
      using that shift[of "i - start"] by simp
    then have "filter (occurs_at content needle) [start..<Suc (length content)] = []"
      by (simp add: filter_empty_conv del: upt_Suc)
    with None show ?thesis by (subst line_numbers_from.simps) simp
  next
    case (Some index)
    with 1 obtain k where k: "find_in needle (drop start content) = Some k" "index = start + k"
      by (auto simp: py_find_def)
    have at: "occurs_at content needle index" using k by (auto simp: find_in_Some_iff shift)
    have len: "index < length content"
      using find_in_Some_less[OF k(1)] 1 k(2) by (cases needle) auto
    have "\<not> occurs_at content needle i" if "start \<le> i" "i < index" for i
    proof -
      have "\<not> occurs_at (drop start content) needle (i - start)"
        using k that by (auto simp: find_in_Some_iff)
      with that show ?thesis by (simp add: shift)
    qed
    then have "filter (occurs_at content needle) [start..<index] = []"
      by (simp add: filter_empty_conv)
    moreover have "[start..<Suc (length content)] = [start..<index] @ index # [Suc index..<Suc (length content)]"
    proof -
      have "[start..<index + (Suc (length content) - index)] =
          [start..<index] @ [index..<index + (Suc (length content) - index)]"
        using k by (intro upt_add_eq_append) simp
      then show ?thesis using len by (simp add: upt_conv_Cons del: upt_Suc)
    qed
    ultimately show ?thesis
      using Some 1 at len by (subst line_numbers_from.simps) (simp add: line_of_def del: upt_Suc)
  qed
qed

lemma line_numbers_of_places:
  "needle \<noteq> [] \<Longrightarrow> line_numbers_of content needle = map (line_of content) (py_positions content needle)"
  unfolding line_numbers_of_def py_positions_def by (rule line_numbers_from_places) simp_all

lemma line_of_mono: "i \<le> j \<Longrightarrow> line_of content i \<le> line_of content j"
  by (auto simp: line_of_def le_iff_add take_add)

lemma py_count_le_positions:
  "needle \<noteq> [] \<Longrightarrow> py_count c needle \<le> card {i. occurs_at c needle i}"
proof (induction "length c" arbitrary: c rule: less_induct)
  case less
  have fin: "finite {i. occurs_at d needle i}" for d :: "'a list"
    by (rule finite_subset[of _ "{..length d}"]) (auto simp: occurs_at_def)
  show ?case
  proof (cases "find_in needle c")
    case None
    with less show ?thesis by (simp add: py_count_absent)
  next
    case (Some i)
    define d where "d = drop (i + length needle) c"
    have len: "i + length needle \<le> length c" using Some by (rule find_in_Some_less)
    have "length d < length c" using len less.prems by (cases needle) (simp_all add: d_def)
    then have IH: "py_count d needle \<le> card {j. occurs_at d needle j}" using less by blast
    have "(\<lambda>j. i + length needle + j) ` {j. occurs_at d needle j} \<subseteq> {j. occurs_at c needle j} - {i}"
    proof (rule image_subsetI)
      fix j assume "j \<in> {j. occurs_at d needle j}"
      then have "occurs_at c needle (i + length needle + j)"
        using len by (auto simp: occurs_at_def d_def add.commute add.left_commute)
      then show "i + length needle + j \<in> {j. occurs_at c needle j} - {i}"
        using less.prems by simp
    qed
    then have "card ((\<lambda>j. i + length needle + j) ` {j. occurs_at d needle j}) \<le> card ({j. occurs_at c needle j} - {i})"
      using fin by (intro card_mono) auto
    then have "card {j. occurs_at d needle j} \<le> card ({j. occurs_at c needle j} - {i})"
      by (simp add: card_image)
    moreover have "i \<in> {j. occurs_at c needle j}" using Some by (simp add: find_in_Some_iff)
    then have "card {j. occurs_at c needle j} = Suc (card ({j. occurs_at c needle j} - {i}))"
      using fin[of c] by (rule card.remove[rotated])
    ultimately show ?thesis
      using IH py_count_found[OF less.prems Some] unfolding d_def by linarith
  qed
qed

text \<open>
  An edit is refused as ambiguous exactly when it does not ask for every occurrence
  and the anchor is found more than once. The line numbers behind the message are those
  of every place the anchor stands at, overlapping places included, in ascending
  order, so at least as many as the count in the message.
\<close>

theorem apply_edit_ambiguous:
  assumes "old \<noteq> []" and "old \<noteq> new"
  shows "(1 < py_count c old \<longrightarrow>
      apply_edit c old new False w = Inl (EditError (ambiguous_message c old))) \<and>
    line_numbers_of c old = map (line_of c) (py_positions c old) \<and>
    sorted (line_numbers_of c old) \<and>
    py_count c old \<le> length (line_numbers_of c old)"
proof -
  have lines: "line_numbers_of c old = map (line_of c) (py_positions c old)"
    using assms(1) by (rule line_numbers_of_places)
  have "sorted (map (line_of c) (py_positions c old))"
    using sorted_py_positions(1)[of c old]
    by (simp add: sorted_map sorted_wrt_mono_rel[of _ "(\<le>)"] line_of_mono)
  moreover have "py_count c old \<le> length (py_positions c old)"
    using py_count_le_positions[OF assms(1), of c] sorted_py_positions(2)[of c old]
    by (simp add: set_py_positions flip: distinct_card)
  ultimately show ?thesis using assms lines by (simp add: state_simps)
qed

theorem apply_edit_ambiguous_witness:
  "apply_edit ''a b a'' ''a'' ''c'' False False = Inl (EditError (ambiguous_message ''a b a'' ''a''))"
proof -
  have "1 < py_count ''a b a'' ''a''" by code_simp
  then show ?thesis using apply_edit_ambiguous[of "''a''" "''c''" "''a b a''" False] by simp
qed

lemma best_match_prefers:
  "best_match lines rest starts best = (s, m) \<Longrightarrow>
     snd best \<le> m \<and>
     (\<forall>x \<in> set starts. int (common_len (drop x lines) rest) \<le> m) \<and>
     ((s, m) = best \<or> s \<in> set starts \<and> m = int (common_len (drop s lines) rest))"
proof (induction lines rest starts best rule: best_match.induct)
  case (2 lines rest start starts best)
  then show ?case by (auto simp: Let_def split: if_splits)
qed simp

lemma anchor_starts_bound: "s \<in> set (anchor_starts lines a) \<Longrightarrow> s < length lines"
  by (auto simp: anchor_starts_def Let_def split: if_splits)

lemma locate_anchor_cases:
  assumes "locate_anchor lines wanted = Some (offset, start, matched)"
  shows "first_index nonblank wanted = Some offset"
    and "start \<in> set (anchor_starts lines (wanted ! offset))"
    and "matched = common_len (drop start lines) (drop offset wanted)"
    and "\<And>s. s \<in> set (anchor_starts lines (wanted ! offset)) \<Longrightarrow>
           common_len (drop s lines) (drop offset wanted) \<le> matched"
proof -
  obtain s ss m where h: "first_index nonblank wanted = Some offset"
    "anchor_starts lines (wanted ! offset) = s # ss"
    "best_match lines (drop offset wanted) (s # ss) (s, -1) = (start, m)" "matched = nat m"
    using assms by (auto simp: locate_anchor_def Let_def split: option.splits list.splits prod.splits
        simp del: best_match.simps)
  from best_match_prefers[OF h(3)]
  have p: "\<forall>x \<in> set (s # ss). int (common_len (drop x lines) (drop offset wanted)) \<le> m"
    "(start, m) = (s, -1) \<or>
       start \<in> set (s # ss) \<and> m = int (common_len (drop start lines) (drop offset wanted))" by blast+
  from p(1) have "0 \<le> m" by (auto intro: order_trans[rotated])
  with p(2) have q: "start \<in> set (s # ss)" "m = int (common_len (drop start lines) (drop offset wanted))"
    by auto
  show "first_index nonblank wanted = Some offset" by (rule h(1))
  show "start \<in> set (anchor_starts lines (wanted ! offset))" using q h by simp
  show "matched = common_len (drop start lines) (drop offset wanted)" using q h by simp
  show "common_len (drop s' lines) (drop offset wanted) \<le> matched"
    if "s' \<in> set (anchor_starts lines (wanted ! offset))" for s'
    using that p(1) h(2,4) by (metis nat_int nat_mono)
qed

text \<open>
  Where a missed anchor is reported to stop matching is where it does: the offset is
  that of its first line that is not blank, the matched lines of the file and of the
  anchor are equal, the line after them differs unless one of the two ends there, and
  no line of the file that equals the anchor's first line starts a longer match.
\<close>

theorem locate_anchor_sound:
  assumes "locate_anchor lines wanted = Some (offset, start, matched)"
  shows "offset < length wanted \<and> nonblank (wanted ! offset) \<and>
    (\<forall>j < offset. \<not> nonblank (wanted ! j)) \<and>
    start < length lines \<and> py_strip (lines ! start) = py_strip (wanted ! offset) \<and>
    take matched (drop start lines) = take matched (drop offset wanted) \<and>
    (start + matched < length lines \<longrightarrow> offset + matched < length wanted \<longrightarrow>
       lines ! (start + matched) \<noteq> wanted ! (offset + matched)) \<and>
    (\<forall>s < length lines. lines ! s = wanted ! offset \<longrightarrow>
       common_len (drop s lines) (drop offset wanted) \<le> matched)"
proof -
  note c = locate_anchor_cases[OF assms]
  have "start < length lines" using c(2) by (rule anchor_starts_bound)
  moreover have "py_strip (lines ! start) = py_strip (wanted ! offset)"
    using c(2) by (auto simp: anchor_starts_def Let_def split: if_splits)
  moreover have "take matched (drop start lines) = take matched (drop offset wanted)"
    unfolding c(3) by (rule common_len_take)
  moreover have "lines ! (start + matched) \<noteq> wanted ! (offset + matched)"
    if "start + matched < length lines" "offset + matched < length wanted"
    using common_len_differ[of "drop start lines" "drop offset wanted"] that c(3) by simp
  moreover have "common_len (drop s lines) (drop offset wanted) \<le> matched"
    if "s < length lines" "lines ! s = wanted ! offset" for s
  proof (rule c(4))
    have "filter (\<lambda>i. lines ! i = wanted ! offset) [0..<length lines] \<noteq> []"
      using that by (auto simp: filter_empty_conv)
    then show "s \<in> set (anchor_starts lines (wanted ! offset))"
      using that by (simp add: anchor_starts_def)
  qed
  ultimately show ?thesis using c(1) by (auto simp: first_index_Some)
qed

theorem locate_anchor_sound_witness:
  "locate_anchor [''a'', ''b'', ''a'', ''c''] [[], ''a'', ''c'', ''d''] = Some (1, 2, 2) \<and>
   take 2 (drop 2 [''a'', ''b'', ''a'', ''c'']) = take 2 (drop 1 [[], ''a'', ''c'', ''d''])"
proof -
  have at: "locate_anchor [''a'', ''b'', ''a'', ''c''] [[], ''a'', ''c'', ''d''] = Some (1, 2, 2)"
    by code_simp
  from at locate_anchor_sound[OF at] show ?thesis by blast
qed

end
