(* ===== verification/Workspace.thy ===== *)
theory Workspace
  imports Prelude "HOL-Library.AList"
begin

text \<open>
  \<open>llm_assistant_agent/workspace.py\<close>: the working tree the agent may touch. A path is the
  list of its components from the root of the file system. The file system is a map
  from paths to nodes; \<open>realpath\<close>, what the operating system makes of a path with
  dots and links in it, is a parameter, and \<open>lexical\<close> is it on a tree without
  links. Git is not modelled.
\<close>

type_synonym path = "string list"

section \<open>The file system\<close>

text \<open>
  A file holds its text as decoded (or its bytes, when they are no UTF-8) and the time it
  was last written.
\<close>

datatype node = Directory | File (raw: string) (is_utf8: bool) (mtime: rat)

type_synonym fs = "path \<Rightarrow> node option"

definition byte_size :: "node \<Rightarrow> nat" where
  "byte_size n =
     (case n of
        Directory \<Rightarrow> 0
      | File text utf8 t \<Rightarrow>
          if utf8 then sum_list (map (\<lambda>c. if code_point c < 128 then 1 else 2) text) else length text)"

definition is_file :: "fs \<Rightarrow> path \<Rightarrow> bool" where
  "is_file fs p = (case fs p of Some (File t u m) \<Rightarrow> True | _ \<Rightarrow> False)"

definition exists_path :: "fs \<Rightarrow> path \<Rightarrow> bool" where
  "exists_path fs p = (case fs p of None \<Rightarrow> False | Some n \<Rightarrow> True)"

text \<open>\<open>read_text\<close> opens in text mode: both \<open>\r\n\<close> and a lone \<open>\r\<close> arrive as \<open>\n\<close>.\<close>

fun universal_newlines :: "string \<Rightarrow> string" where
  "universal_newlines [] = []"
| "universal_newlines (c # cs) =
     (if c = CR then NL # universal_newlines (if cs \<noteq> [] \<and> hd cs = NL then tl cs else cs)
      else c # universal_newlines cs)"

text \<open>
  \<open>mkdir(parents=True, exist_ok=True)\<close> on the parent and \<open>write_text\<close>: None when something
  on the way is a file or the target is a directory (an \<open>OSError\<close>).
\<close>

definition parents :: "path \<Rightarrow> path list" where
  "parents p = map (\<lambda>n. take n p) [0..<length p]"

definition write_text :: "path \<Rightarrow> string \<Rightarrow> rat \<Rightarrow> fs \<Rightarrow> fs option" where
  "write_text p content now fs =
     (if list_ex (is_file fs) (parents p) \<or> fs p = Some Directory then None
      else Some (\<lambda>q. if q = p then Some (File content True now)
                     else if q \<in> set (parents p) \<and> fs q = None then Some Directory
                     else fs q))"

section \<open>The cache of file contents\<close>

definition CACHE_MAX_SIZE :: nat where "CACHE_MAX_SIZE = 50"
definition MAX_READ_BYTES :: int where "MAX_READ_BYTES = 512000"

text \<open>An \<open>OrderedDict\<close>, least recently used entry first.\<close>

type_synonym file_cache = "(path \<times> rat \<times> string) list"

definition cache_get :: "path \<Rightarrow> rat \<Rightarrow> file_cache \<Rightarrow> string option \<times> file_cache" where
  "cache_get p t cache =
     (case map_of cache p of
        None \<Rightarrow> (None, cache)
      | Some (cached_mtime, content) \<Rightarrow>
          if cached_mtime \<noteq> t then (None, AList.delete p cache)
          else (Some content, AList.delete p cache @ [(p, cached_mtime, content)]))"

definition cache_put :: "path \<Rightarrow> rat \<Rightarrow> string \<Rightarrow> file_cache \<Rightarrow> file_cache" where
  "cache_put p t content cache =
     (if map_of cache p \<noteq> None then AList.delete p cache
      else if length cache \<ge> CACHE_MAX_SIZE then tl cache
      else cache) @ [(p, t, content)]"

definition cache_invalidate :: "path \<Rightarrow> file_cache \<Rightarrow> file_cache" where
  "cache_invalidate p cache = AList.delete p cache"

section \<open>The workspace\<close>

datatype workspace_error = WorkspaceError string | OSError

record workspace =
  root :: path
  seen :: "path set"
  written_since_read :: "path set"
  written :: "path set"
  baseline_dirty :: "string list"
  file_cache :: file_cache

text \<open>\<open>baseline\<close> is what git says was dirty when the workspace was opened, a set kept as a list.\<close>

definition new_workspace :: "path \<Rightarrow> string list \<Rightarrow> workspace" where
  "new_workspace r baseline =
     \<lparr>root = r, seen = {}, written_since_read = {}, written = {}, baseline_dirty = baseline, file_cache = []\<rparr>"

text \<open>\<open>str(path)\<close> and the components of a path as text.\<close>

definition path_str :: "path \<Rightarrow> string" where
  "path_str p = ''/'' @ py_join ''/'' p"

definition components :: "string \<Rightarrow> path" where
  "components text = filter (\<lambda>c. c \<noteq> [] \<and> c \<noteq> ''.'') (py_split ''/'' text)"

text \<open>\<open>root / path\<close>: an absolute path replaces the root.\<close>

definition join_path :: "path \<Rightarrow> string \<Rightarrow> path" where
  "join_path r text =
     (if text \<noteq> [] \<and> hd text = CHR ''/'' then components text else r @ components text)"

fun lexical_from :: "path \<Rightarrow> path \<Rightarrow> path" where
  "lexical_from done [] = rev done"
| "lexical_from done (c # cs) =
     (if c = ''..'' then lexical_from (tl done) cs else lexical_from (c # done) cs)"

definition lexical :: "path \<Rightarrow> path" where
  "lexical p = lexical_from [] p"

definition resolve :: "(path \<Rightarrow> path) \<Rightarrow> workspace \<Rightarrow> string \<Rightarrow> workspace_error + path" where
  "resolve realpath ws text =
     (let candidate = realpath (join_path (root ws) text) in
      if candidate \<noteq> root ws \<and> root ws \<notin> set (parents candidate)
      then Inl (WorkspaceError (text @ '' is outside the workspace ('' @ path_str (root ws) @ ''). ''
             @ ''The agent may only touch files under the directory it was started in.''))
      else Inr candidate)"

definition relative :: "workspace \<Rightarrow> path \<Rightarrow> string" where
  "relative ws p =
     (if prefix (root ws) p
      then (if drop (length (root ws)) p = [] then ''.'' else py_join ''/'' (drop (length (root ws)) p))
      else path_str p)"

text \<open>What a successful read leaves on record.\<close>

definition mark_read :: "path \<Rightarrow> bool \<Rightarrow> workspace \<Rightarrow> workspace" where
  "mark_read target partial ws =
     ws\<lparr>seen := insert target (seen ws),
        written_since_read := (if partial then written_since_read ws else written_since_read ws - {target})\<rparr>"

definition missing_message :: "fs \<Rightarrow> string \<Rightarrow> path \<Rightarrow> string" where
  "missing_message fs text target =
     (if exists_path fs target then text @ '' exists but is not a file (it may be a directory).''
      else if exists_path fs (butlast target)
      then text @ '' does not exist. Use list_files to see available files, or check the path spelling.''
      else text @ '' does not exist and its parent directory is missing. ''
         @ ''Use list_files to see available files.'')"

definition read_file_text ::
  "(path \<Rightarrow> path) \<Rightarrow> fs \<Rightarrow> string \<Rightarrow> bool \<Rightarrow> workspace \<Rightarrow> (workspace_error + string) \<times> workspace" where
  "read_file_text realpath fs text partial ws =
     (case resolve realpath ws text of
        Inl e \<Rightarrow> (Inl e, ws)
      | Inr target \<Rightarrow>
          (case fs target of
             Some (File contents utf8 t) \<Rightarrow>
               if int (byte_size (File contents utf8 t)) > MAX_READ_BYTES
               then (Inl (WorkspaceError (text @ '' is larger than '' @ str_int (MAX_READ_BYTES div 1000) @ '' kB. ''
                       @ ''Use grep to find the relevant region instead of reading it whole.'')), ws)
               else
                 (case cache_get target t (file_cache ws) of
                    (Some cached, cache) \<Rightarrow> (Inr cached, mark_read target partial (ws\<lparr>file_cache := cache\<rparr>))
                  | (None, cache) \<Rightarrow>
                      if \<not> utf8
                      then (Inl (WorkspaceError (text @ '' is not UTF-8 text.'')), ws\<lparr>file_cache := cache\<rparr>)
                      else
                        (let content = universal_newlines contents in
                         (Inr content,
                          mark_read target partial (ws\<lparr>file_cache := cache_put target t content cache\<rparr>))))
           | _ \<Rightarrow> (Inl (WorkspaceError (missing_message fs text target)), ws)))"

definition require_seen :: "path \<Rightarrow> string \<Rightarrow> workspace \<Rightarrow> workspace_error + unit" where
  "require_seen target text ws =
     (if target \<notin> seen ws
      then Inl (WorkspaceError (text @ '' has not been read in this session. Read it first so the ''
             @ ''edit is built from what the file actually contains.''))
      else Inr ())"

definition write_file_text ::
  "(path \<Rightarrow> path) \<Rightarrow> rat \<Rightarrow> string \<Rightarrow> string \<Rightarrow> fs \<times> workspace \<Rightarrow>
     (workspace_error + path) \<times> fs \<times> workspace" where
  "write_file_text realpath now text content st =
     (let (fs, ws) = st in
      case resolve realpath ws text of
        Inl e \<Rightarrow> (Inl e, fs, ws)
      | Inr target \<Rightarrow>
          (case write_text target content now fs of
             None \<Rightarrow> (Inl OSError, fs, ws)
           | Some fs' \<Rightarrow>
               (Inr target, fs',
                ws\<lparr>file_cache := cache_invalidate target (file_cache ws),
                   seen := insert target (seen ws),
                   written := insert target (written ws),
                   written_since_read := insert target (written_since_read ws)\<rparr>)))"

section \<open>The contract of the cache\<close>

text \<open>
  What the workspace needs of its cache: a hit returns what is entered under the same
  time, and no operation makes an entry up. An entry is coherent when it says what
  \<open>current\<close> allows; coherence then survives every operation.
\<close>

locale content_cache =
  fixes get :: "'p \<Rightarrow> 't \<Rightarrow> 'c \<Rightarrow> 'v option \<times> 'c"
    and put :: "'p \<Rightarrow> 't \<Rightarrow> 'v \<Rightarrow> 'c \<Rightarrow> 'c"
    and forget :: "'p \<Rightarrow> 'c \<Rightarrow> 'c"
    and entry :: "'c \<Rightarrow> 'p \<Rightarrow> ('t \<times> 'v) option"
    and bounded :: "'c \<Rightarrow> bool"
  assumes hit: "bounded c \<Longrightarrow> fst (get p t c) = Some v \<longleftrightarrow> entry c p = Some (t, v)"
    and get_entry: "bounded c \<Longrightarrow> entry (snd (get p t c)) q = Some e \<Longrightarrow> entry c q = Some e"
    and put_entry: "bounded c \<Longrightarrow> entry (put p t v c) q = Some e \<Longrightarrow> (if q = p then e = (t, v) else entry c q = Some e)"
    and put_same: "bounded c \<Longrightarrow> entry (put p t v c) p = Some (t, v)"
    and forget_entry: "bounded c \<Longrightarrow> entry (forget p c) q = Some e \<Longrightarrow> q \<noteq> p \<and> entry c q = Some e"
    and get_bounded: "bounded c \<Longrightarrow> bounded (snd (get p t c))"
    and put_bounded: "bounded c \<Longrightarrow> bounded (put p t v c)"
    and forget_bounded: "bounded c \<Longrightarrow> bounded (forget p c)"
begin

lemma get_after_put: "bounded c \<Longrightarrow> fst (get p t (put p t v c)) = Some v"
  by (simp add: hit put_bounded put_same)

lemma get_after_forget: "bounded c \<Longrightarrow> fst (get p t (forget p c)) = None"
proof -
  assume c: "bounded c"
  have "fst (get p t (forget p c)) \<noteq> Some v" for v
    using hit[OF forget_bounded[OF c]] forget_entry[OF c] by blast
  then show ?thesis by (cases "fst (get p t (forget p c))") auto
qed

lemma coherent_get:
  "bounded c \<Longrightarrow> \<forall>q t v. entry c q = Some (t, v) \<longrightarrow> current q t v \<Longrightarrow>
     \<forall>q t' v. entry (snd (get p t c)) q = Some (t', v) \<longrightarrow> current q t' v"
  by (blast dest: get_entry)

lemma coherent_put:
  "bounded c \<Longrightarrow> \<forall>q t v. entry c q = Some (t, v) \<longrightarrow> current q t v \<Longrightarrow> current p t v \<Longrightarrow>
     \<forall>q t' v'. entry (put p t v c) q = Some (t', v') \<longrightarrow> current q t' v'"
  using put_entry by (metis prod.inject)

lemma coherent_forget:
  "bounded c \<Longrightarrow> \<forall>q t v. q \<noteq> p \<longrightarrow> entry c q = Some (t, v) \<longrightarrow> current q t v \<Longrightarrow>
     \<forall>q t v. entry (forget p c) q = Some (t, v) \<longrightarrow> current q t v"
  by (blast dest: forget_entry)

end

definition cache_ok :: "file_cache \<Rightarrow> bool" where
  "cache_ok c \<longleftrightarrow> distinct (map fst c) \<and> length c \<le> CACHE_MAX_SIZE"

lemma map_of_delete: "distinct (map fst c) \<Longrightarrow> map_of (AList.delete p c) q = (if q = p then None else map_of c q)"
  by (simp add: delete_conv')

lemma length_delete: "map_of c p \<noteq> None \<Longrightarrow> length (AList.delete p c) < length c"
  by (induction c) (auto simp: le_imp_less_Suc length_delete_le split: if_splits)

lemma cache_ok_snoc:
  "distinct (map fst c) \<Longrightarrow> map_of c p = None \<Longrightarrow> length c < CACHE_MAX_SIZE \<Longrightarrow> cache_ok (c @ [(p, e)])"
  by (auto simp: cache_ok_def map_of_eq_None_iff)

lemma map_of_tl:
  assumes "distinct (map fst c)" and "map_of (tl c) q = Some e"
  shows "map_of c q = Some e"
proof (cases c)
  case (Cons x xs)
  have "q \<in> fst ` set xs"
    using assms(2) Cons by (metis domI dom_map_of_conv_image_fst list.sel(3))
  with assms Cons show ?thesis by (cases x) auto
qed (use assms in simp)

lemma map_of_snoc: "map_of (c @ [(p, e)]) q =
    (case map_of c q of Some x \<Rightarrow> Some x | None \<Rightarrow> if q = p then Some e else None)"
  by (simp add: map_add_def split: option.split)

lemma cache_ok_delete: "cache_ok c \<Longrightarrow> cache_ok (AList.delete p c)"
  using length_delete_le[of p c] by (auto simp: cache_ok_def distinct_delete)

lemma cache_ok_move:
  "cache_ok c \<Longrightarrow> map_of c p \<noteq> None \<Longrightarrow> cache_ok (AList.delete p c @ [(p, e)])"
  using length_delete[of c p]
  by (intro cache_ok_snoc) (auto simp: cache_ok_def distinct_delete map_of_delete)

lemma cache_get_ok: "cache_ok c \<Longrightarrow> cache_ok (snd (cache_get p t c))"
  by (auto simp: cache_get_def cache_ok_delete cache_ok_move split: option.split)

lemma cache_put_ok: "cache_ok c \<Longrightarrow> cache_ok (cache_put p t v c)"
proof (cases "map_of c p")
  case None
  assume c: "cache_ok c"
  have "map_of (tl c) p = None"
    using None map_of_tl[of c p] c by (cases "map_of (tl c) p") (auto simp: cache_ok_def)
  moreover have "length (tl c) < CACHE_MAX_SIZE"
    using c by (auto simp: cache_ok_def CACHE_MAX_SIZE_def)
  moreover have "distinct (map fst (tl c))" using c by (simp add: cache_ok_def map_tl distinct_tl)
  ultimately show ?thesis
    using c None by (auto simp: cache_put_def cache_ok_def intro!: cache_ok_snoc[unfolded cache_ok_def])
next
  case (Some e)
  assume "cache_ok c"
  with Some show ?thesis by (simp add: cache_put_def cache_ok_move)
qed

interpretation lru: content_cache cache_get cache_put cache_invalidate map_of cache_ok
proof
  fix c :: file_cache and p q :: path and t :: rat and v :: string and e
  assume c: "cache_ok c"
  then have d: "distinct (map fst c)" by (simp add: cache_ok_def)
  show "fst (cache_get p t c) = Some v \<longleftrightarrow> map_of c p = Some (t, v)"
    by (auto simp: cache_get_def split: option.split)
  show "map_of (snd (cache_get p t c)) q = Some e \<Longrightarrow> map_of c q = Some e"
    using d by (auto simp: cache_get_def map_of_delete map_of_snoc simp del: map_of_append map_of_eq_Some_iff split: option.splits if_splits)
  have entries: "map_of (cache_put p t v c) q = Some e \<longleftrightarrow>
      (if q = p then e = (t, v) else map_of (if map_of c p \<noteq> None then c
         else if length c \<ge> CACHE_MAX_SIZE then tl c else c) q = Some e)" for q e
    using d map_of_tl[OF d, of p]
    by (auto simp: cache_put_def map_of_delete map_of_snoc simp del: map_of_append map_of_eq_Some_iff split: option.splits if_splits)
  show "map_of (cache_put p t v c) q = Some e \<Longrightarrow> if q = p then e = (t, v) else map_of c q = Some e"
    using entries[of q e] map_of_tl[OF d, of q e] by (auto split: if_splits)
  show "map_of (cache_put p t v c) p = Some (t, v)" using entries[of p "(t, v)"] by simp
  show "map_of (cache_invalidate p c) q = Some e \<Longrightarrow> q \<noteq> p \<and> map_of c q = Some e"
    using d by (auto simp: cache_invalidate_def map_of_delete split: if_splits)
  show "cache_ok (snd (cache_get p t c))" "cache_ok (cache_put p t v c)" "cache_ok (cache_invalidate p c)"
    using c by (simp_all add: cache_get_ok cache_put_ok cache_ok_delete cache_invalidate_def)
qed

section \<open>What can happen to a workspace\<close>

text \<open>
  The agent reads and writes; between two steps anyone may change the tree, and a changed
  file gets a time that no cache entry of it carries.
\<close>

definition noticeable :: "fs \<Rightarrow> fs \<Rightarrow> file_cache \<Rightarrow> bool" where
  "noticeable fs fs' cache \<longleftrightarrow>
     (\<forall>p text u t v. fs' p = Some (File text u t) \<longrightarrow> map_of cache p = Some (t, v) \<longrightarrow> fs' p = fs p)"

inductive workspace_step :: "(path \<Rightarrow> path) \<Rightarrow> fs \<times> workspace \<Rightarrow> fs \<times> workspace \<Rightarrow> bool" for realpath where
  reading: "workspace_step realpath (fs, ws) (fs, snd (read_file_text realpath fs text partial ws))"
| writing: "workspace_step realpath (fs, ws) (snd (write_file_text realpath now text content (fs, ws)))"
| outside: "noticeable fs fs' (file_cache ws) \<Longrightarrow> workspace_step realpath (fs, ws) (fs', ws)"

inductive workspace_run :: "(path \<Rightarrow> path) \<Rightarrow> fs \<times> workspace \<Rightarrow> fs \<times> workspace \<Rightarrow> bool" for realpath where
  start: "workspace_run realpath s s"
| step: "workspace_run realpath s t \<Longrightarrow> workspace_step realpath t u \<Longrightarrow> workspace_run realpath s u"

inductive_cases workspace_stepE: "workspace_step realpath (fs, ws) t"

text \<open>What a cache entry may say of a file: its text, when the file still has that time.\<close>

definition current :: "fs \<Rightarrow> path \<Rightarrow> rat \<Rightarrow> string \<Rightarrow> bool" where
  "current fs p t v \<longleftrightarrow>
     (\<forall>text u. fs p = Some (File text u t) \<longrightarrow> u \<and> v = universal_newlines text)"

definition workspace_inv :: "path \<Rightarrow> fs \<times> workspace \<Rightarrow> bool" where
  "workspace_inv r st \<longleftrightarrow> (case st of (fs, ws) \<Rightarrow>
     root ws = r \<and> cache_ok (file_cache ws) \<and>
     (\<forall>p t v. map_of (file_cache ws) p = Some (t, v) \<longrightarrow> current fs p t v) \<and>
     (\<forall>p \<in> seen ws. prefix r p) \<and>
     written_since_read ws \<subseteq> written ws \<and> written ws \<subseteq> seen ws)"

lemma resolve_inside: "resolve realpath ws text = Inr p \<Longrightarrow> prefix (root ws) p"
  by (auto simp: resolve_def parents_def Let_def split: if_splits) (metis take_is_prefix)

lemma mark_read_simps [simp]:
  "root (mark_read p b ws) = root ws" "file_cache (mark_read p b ws) = file_cache ws"
  "seen (mark_read p b ws) = insert p (seen ws)" "written (mark_read p b ws) = written ws"
  "written_since_read (mark_read p b ws) =
     (if b then written_since_read ws else written_since_read ws - {p})"
  by (simp_all add: mark_read_def)

lemma read_cases:
  obtains (failed) e where "read_file_text realpath fs text partial ws = (Inl e, ws)"
  | (undecodable) e p t where "read_file_text realpath fs text partial ws =
        (Inl e, ws\<lparr>file_cache := snd (cache_get p t (file_cache ws))\<rparr>)"
  | (hit) p raw u t v where "resolve realpath ws text = Inr p" "fs p = Some (File raw u t)"
      "fst (cache_get p t (file_cache ws)) = Some v"
      "read_file_text realpath fs text partial ws =
         (Inr v, mark_read p partial (ws\<lparr>file_cache := snd (cache_get p t (file_cache ws))\<rparr>))"
  | (miss) p raw t where "resolve realpath ws text = Inr p" "fs p = Some (File raw True t)"
      "read_file_text realpath fs text partial ws = (Inr (universal_newlines raw), mark_read p partial
         (ws\<lparr>file_cache := cache_put p t (universal_newlines raw) (snd (cache_get p t (file_cache ws)))\<rparr>))"
proof -
  note d = read_file_text_def
  show thesis
  proof (cases "resolve realpath ws text")
    case (Inl e)
    then show ?thesis by (intro failed[of e]) (simp add: d)
  next
    case (Inr p)
    show ?thesis
    proof (cases "\<exists>raw u t. fs p = Some (File raw u t) \<and> \<not> int (byte_size (File raw u t)) > MAX_READ_BYTES")
      case False
      then show ?thesis using Inr
        by (intro failed[of "projl (fst (read_file_text realpath fs text partial ws))"])
          (auto simp: d split: option.split node.split)
    next
      case True
      then obtain raw u t where f: "fs p = Some (File raw u t)" "\<not> int (byte_size (File raw u t)) > MAX_READ_BYTES" by blast
      obtain got c where g: "cache_get p t (file_cache ws) = (got, c)" by fastforce
      show ?thesis
      proof (cases got)
        case (Some v)
        with Inr f g show ?thesis by (intro hit[of p raw u t v]) (simp_all add: d)
      next
        case None
        with Inr f g show ?thesis
          by (cases u) (auto simp: d Let_def intro: miss[of p raw t] undecodable[of _ p t])
      qed
    qed
  qed
qed

lemma coherent_mark:
  "current fs p t v \<Longrightarrow> cache_ok c \<Longrightarrow> \<forall>p t v. map_of c p = Some (t, v) \<longrightarrow> current fs p t v \<Longrightarrow>
     \<forall>q t' v'. map_of (cache_put p t v c) q = Some (t', v') \<longrightarrow> current fs q t' v'"
  by (rule lru.coherent_put)

lemma inv_read:
  assumes "workspace_inv r (fs, ws)"
  shows "workspace_inv r (fs, snd (read_file_text realpath fs text partial ws))"
proof -
  have i: "root ws = r" "cache_ok (file_cache ws)" "\<forall>p \<in> seen ws. prefix r p"
    "written_since_read ws \<subseteq> written ws" "written ws \<subseteq> seen ws"
    "\<forall>p t v. map_of (file_cache ws) p = Some (t, v) \<longrightarrow> current fs p t v"
    using assms by (simp_all add: workspace_inv_def)
  note kept = lru.coherent_get[OF i(2,6)] lru.get_bounded[OF i(2)]
  show ?thesis
  proof (cases rule: read_cases[of realpath fs "text" partial ws])
    case (failed e)
    with assms show ?thesis by simp
  next
    case (undecodable e p t)
    with kept[of p t] i show ?thesis by (simp add: workspace_inv_def)
  next
    case (hit p raw u t v)
    with kept[of p t] i resolve_inside[OF hit(1)] show ?thesis by (auto simp: workspace_inv_def)
  next
    case (miss p raw t)
    have "current fs p t (universal_newlines raw)" using miss(2) by (simp add: current_def)
    from coherent_mark[OF this kept(2,1)] miss i lru.put_bounded[OF kept(2)] resolve_inside[OF miss(1)]
    show ?thesis by (auto simp: workspace_inv_def)
  qed
qed

lemma write_text_cases:
  assumes "write_text p content now fs = Some fs'"
  shows "fs' p = Some (File content True now)"
    and "q \<noteq> p \<Longrightarrow> fs' q = fs q \<or> fs q = None \<and> fs' q = Some Directory \<and> q \<in> set (parents p)"
  using assms by (auto simp: write_text_def split: if_splits)

lemma write_cases:
  obtains (failed) e where "write_file_text realpath now text content (fs, ws) = (Inl e, fs, ws)"
  | (wrote) p fs' where "resolve realpath ws text = Inr p" "write_text p content now fs = Some fs'"
      "write_file_text realpath now text content (fs, ws) = (Inr p, fs',
         ws\<lparr>file_cache := cache_invalidate p (file_cache ws), seen := insert p (seen ws),
            written := insert p (written ws), written_since_read := insert p (written_since_read ws)\<rparr>)"
  by (cases "resolve realpath ws text"; cases "write_text (projr (resolve realpath ws text)) content now fs")
    (auto simp: write_file_text_def intro: failed wrote)

lemma inv_write:
  assumes "workspace_inv r (fs, ws)"
  shows "workspace_inv r (snd (write_file_text realpath now text content (fs, ws)))"
proof (cases rule: write_cases[of realpath now "text" content fs ws])
  case (failed e)
  with assms show ?thesis by simp
next
  case (wrote p fs')
  have i: "root ws = r" "cache_ok (file_cache ws)" "\<forall>p \<in> seen ws. prefix r p"
    "written_since_read ws \<subseteq> written ws" "written ws \<subseteq> seen ws"
    "\<forall>p t v. map_of (file_cache ws) p = Some (t, v) \<longrightarrow> current fs p t v"
    using assms by (simp_all add: workspace_inv_def)
  have "\<forall>q t v. q \<noteq> p \<longrightarrow> map_of (file_cache ws) q = Some (t, v) \<longrightarrow> current fs' q t v"
    using i(6) write_text_cases(2)[OF wrote(2)] by (fastforce simp: current_def)
  from lru.coherent_forget[OF i(2) this] wrote(3) i lru.forget_bounded[OF i(2), of p] resolve_inside[OF wrote(1)]
  show ?thesis by (auto simp: workspace_inv_def)
qed

lemma inv_step: "workspace_step realpath s t \<Longrightarrow> workspace_inv r s \<Longrightarrow> workspace_inv r t"
proof (induction rule: workspace_step.induct)
  case (outside fs fs' ws)
  have "current fs' p t v" if "map_of (file_cache ws) p = Some (t, v)" for p t v
  proof -
    have "current fs p t v" using outside(2) that by (simp add: workspace_inv_def)
    moreover have "fs' p = fs p" if "fs' p = Some (File raw u t)" for raw u
      using outside(1) that \<open>map_of (file_cache ws) p = Some (t, v)\<close> unfolding noticeable_def by blast
    ultimately show ?thesis unfolding current_def by metis
  qed
  with outside(2) show ?case by (simp add: workspace_inv_def)
qed (rule inv_read inv_write; assumption)+

lemma inv_start: "workspace_inv r (fs, new_workspace r baseline)"
  by (simp add: workspace_inv_def new_workspace_def cache_ok_def)

lemma inv_run:
  assumes "workspace_run realpath (fs, new_workspace r baseline) t"
  shows "workspace_inv r t"
  using assms by (induction "(fs, new_workspace r baseline)" t rule: workspace_run.induct) (auto intro: inv_start inv_step)

section \<open>What the workspace guarantees\<close>

text \<open>
  C24. In every state a session can reach: the cache holds at most fifty files, one entry
  each; every file on record as seen lies inside the root; and what was written since it
  was read was written in this session, and counts as seen.
\<close>

theorem workspace_invariant:
  assumes "workspace_run realpath (fs, new_workspace r baseline) (fs', ws)"
  shows "root ws = r \<and> length (file_cache ws) \<le> 50 \<and> distinct (map fst (file_cache ws)) \<and>
    (\<forall>p \<in> seen ws. prefix r p) \<and> written_since_read ws \<subseteq> written ws \<and> written ws \<subseteq> seen ws"
  using inv_run[OF assms] by (simp add: workspace_inv_def cache_ok_def CACHE_MAX_SIZE_def)

definition sample_fs :: fs where
  "sample_fs p =
     (if p = [''repo'', ''a.py''] then Some (File (''x = 1'' @ [CR, NL] @ ''y = 2'' @ [CR, NL]) True 5)
      else if p = [] \<or> p = [''repo''] then Some Directory else None)"

theorem workspace_invariant_witness:
  "let ws = snd (read_file_text lexical sample_fs ''a.py'' False (new_workspace [''repo''] [])) in
   [''repo'', ''a.py''] \<in> seen ws \<and> length (file_cache ws) \<le> 50"
proof -
  let ?ws = "snd (read_file_text lexical sample_fs ''a.py'' False (new_workspace [''repo''] []))"
  have "workspace_run lexical (sample_fs, new_workspace [''repo''] []) (sample_fs, ?ws)"
    by (rule workspace_run.step[OF workspace_run.start]) (rule workspace_step.reading)
  from workspace_invariant[OF this] have "length (file_cache ?ws) \<le> 50" by blast
  moreover have "[''repo'', ''a.py''] \<in> seen ?ws" by code_simp
  ultimately show ?thesis by (simp only: Let_def simp_thms)
qed

text \<open>
  C11. The cache is invisible: whatever was read and written before, by the agent or behind
  its back, a read that succeeds returns the text the file has now.
\<close>

theorem read_is_current:
  assumes "workspace_run realpath (fs0, new_workspace r baseline) (fs, ws)"
    and "fst (read_file_text realpath fs text partial ws) = Inr content"
  shows "\<exists>p raw t. resolve realpath ws text = Inr p \<and> prefix r p \<and>
    fs p = Some (File raw True t) \<and> content = universal_newlines raw"
proof -
  have i: "root ws = r" "cache_ok (file_cache ws)"
    "\<forall>p t v. map_of (file_cache ws) p = Some (t, v) \<longrightarrow> current fs p t v"
    using inv_run[OF assms(1)] by (simp_all add: workspace_inv_def)
  show ?thesis
  proof (cases rule: read_cases[of realpath fs "text" partial ws])
    case (hit p raw u t v)
    then have "current fs p t v" using i(3) lru.hit[OF i(2)] by blast
    with hit assms(2) resolve_inside[OF hit(1)] i(1) show ?thesis by (auto simp: current_def)
  next
    case (miss p raw t)
    with assms(2) resolve_inside[OF miss(1)] i(1) show ?thesis by auto
  qed (use assms(2) in simp_all)
qed

theorem read_is_current_witness:
  "\<exists>p raw t. resolve lexical (new_workspace [''repo''] []) ''a.py'' = Inr p \<and> prefix [''repo''] p \<and>
     sample_fs p = Some (File raw True t) \<and> ''x = 1'' @ [NL] @ ''y = 2'' @ [NL] = universal_newlines raw"
proof (rule read_is_current)
  show "workspace_run lexical (sample_fs, new_workspace [''repo''] []) (sample_fs, new_workspace [''repo''] [])"
    by (rule workspace_run.start)
  show "fst (read_file_text lexical sample_fs ''a.py'' False (new_workspace [''repo''] [])) =
      Inr (''x = 1'' @ [NL] @ ''y = 2'' @ [NL])" by code_simp
qed

text \<open>
  C10. A write stays inside: the only file it changes is the one its path resolves to, below
  the root; besides it only creates directories missing on the way, below the root too.
\<close>

theorem write_confined:
  assumes "write_file_text realpath now text content (fs, ws) = (result, fs', ws')"
    and "\<forall>n \<le> length (root ws). fs (take n (root ws)) = Some Directory" and "fs' q \<noteq> fs q"
  shows "strict_prefix (root ws) q \<and>
    (resolve realpath ws text = Inr q \<and> fs' q = Some (File content True now) \<or>
     fs q = None \<and> fs' q = Some Directory)"
proof (cases rule: write_cases[of realpath now "text" content fs ws])
  case (failed e)
  with assms show ?thesis by simp
next
  case (wrote p fs'')
  have w: "write_text p content now fs = Some fs'" using wrote assms(1) by simp
  have inside: "prefix (root ws) p" by (rule resolve_inside[OF wrote(1)])
  have below: "strict_prefix (root ws) q'" if "q' = p \<or> q' \<in> set (parents p)" "fs q' \<noteq> Some Directory" for q'
  proof -
    have "prefix q' p" using that(1) by (auto simp: parents_def take_is_prefix)
    moreover have "\<not> prefix q' (root ws)"
    proof
      assume "prefix q' (root ws)"
      then have "q' = take (length q') (root ws)" "length q' \<le> length (root ws)"
        by (auto simp: prefix_def)
      with assms(2) that(2) show False by metis
    qed
    ultimately show ?thesis using inside by (metis prefix_same_cases strict_prefixI prefix_order.order_refl)
  qed
  from w have "fs p \<noteq> Some Directory" by (auto simp: write_text_def split: if_splits)
  show ?thesis
  proof (cases "q = p")
    case True
    with write_text_cases(1)[OF w] below[of p] \<open>fs p \<noteq> Some Directory\<close> wrote(1) show ?thesis by simp
  next
    case False
    with write_text_cases(2)[OF w False] assms(3) below[of q] show ?thesis by auto
  qed
qed

theorem write_confined_witness:
  "let fs' = fst (snd (write_file_text lexical 9 ''pkg/b.py'' ''z'' (sample_fs, new_workspace [''repo''] []))) in
   fs' [''repo'', ''pkg'', ''b.py''] \<noteq> sample_fs [''repo'', ''pkg'', ''b.py''] \<and>
   strict_prefix [''repo''] [''repo'', ''pkg'', ''b.py'']"
proof -
  let ?w = "write_file_text lexical 9 ''pkg/b.py'' ''z'' (sample_fs, new_workspace [''repo''] [])"
  have w: "?w = (fst ?w, fst (snd ?w), snd (snd ?w))" by simp
  have root: "root (new_workspace [''repo''] []) = [''repo'']" by (simp add: new_workspace_def)
  have dirs: "\<forall>n \<le> length (root (new_workspace [''repo''] [])). sample_fs (take n (root (new_workspace [''repo''] []))) = Some Directory"
    unfolding root by (auto simp: sample_fs_def le_Suc_eq)
  have "fst (snd ?w) [''repo'', ''pkg'', ''b.py''] = Some (File ''z'' True 9)"
    "sample_fs [''repo'', ''pkg'', ''b.py''] = None" by code_simp+
  then have changed: "fst (snd ?w) [''repo'', ''pkg'', ''b.py''] \<noteq> sample_fs [''repo'', ''pkg'', ''b.py'']" by simp
  from write_confined[OF w dirs changed] changed show ?thesis unfolding root Let_def by blast
qed

end
