(* ===== verification/Git.thy ===== *)
theory Git
  imports Workspace
begin

text \<open>
  The git side of \<open>llm_assistant_agent/workspace.py\<close>: what was dirty when the workspace was
  opened, the diff shown to the model, and \<open>MultiWorkspace\<close>, which holds several of them.
  What git answers is a parameter: the finished process for a list of arguments, run in
  the root of the workspace. The commands used only look at the tree.
\<close>

record completed =
  returncode :: int
  stdout :: string
  stderr :: string

type_synonym git = "string list \<Rightarrow> completed"

section \<open>What is dirty\<close>

definition is_git_repo :: "git \<Rightarrow> bool" where
  "is_git_repo git \<longleftrightarrow> returncode (git [''rev-parse'', ''--git-dir'']) = 0"

definition is_dirty :: "git \<Rightarrow> bool" where
  "is_dirty git \<longleftrightarrow> py_strip (stdout (git [''status'', ''--porcelain''])) \<noteq> []"

definition ARROW :: string where "ARROW = '' -> ''"

text \<open>
  The name on one line of \<open>git status --porcelain\<close>: without the status, the new name of a
  rename, without quotes around it.
\<close>

definition dirty_name :: "string \<Rightarrow> string" where
  "dirty_name line =
     (let name = py_strip (drop 3 line);
          name = (if py_in ARROW name then py_after_last ARROW name else name)
      in py_strip_chars [CHR 0x22] (py_strip name))"

definition dirty_paths :: "git \<Rightarrow> string list" where
  "dirty_paths git =
     (if \<not> is_git_repo git then []
      else remdups (filter (\<lambda>name. name \<noteq> [])
             (map dirty_name (py_splitlines (stdout (git [''status'', ''--porcelain'']))))))"

definition open_workspace ::
  "(path \<Rightarrow> path) \<Rightarrow> git \<Rightarrow> fs \<Rightarrow> path \<Rightarrow> workspace_error + workspace" where
  "open_workspace realpath git fs r =
     (let resolved = realpath r in
      if fs resolved \<noteq> Some Directory then Inl (WorkspaceError (path_str r @ '' is not a directory''))
      else Inr (new_workspace resolved (dirty_paths git)))"

definition git_head :: "git \<Rightarrow> string option" where
  "git_head git =
     (if \<not> is_git_repo git then None
      else (let commit = py_strip (stdout (git [''rev-parse'', ''HEAD''])) in
            if commit = [] then None else Some commit))"

definition diff_stat :: "git \<Rightarrow> string" where
  "diff_stat git = py_strip (stdout (git [''diff'', ''--stat'']))"

section \<open>The diff\<close>

definition untracked_sections :: "git \<Rightarrow> bool \<Rightarrow> string list" where
  "untracked_sections git stat =
     (let names = filter (\<lambda>name. py_strip name \<noteq> [])
            (py_splitlines (stdout (git [''ls-files'', ''--others'', ''--exclude-standard''])))
      in if names = [] then []
         else if stat then [''untracked: '' @ py_join '', '' names]
         else map (\<lambda>name. py_strip (stdout (git [''diff'', ''--no-index'', ''--'', ''/dev/null'', name]))) names)"

definition workspace_diff ::
  "(path \<Rightarrow> path) \<Rightarrow> git \<Rightarrow> workspace \<Rightarrow> string option \<Rightarrow> bool \<Rightarrow> workspace_error + string" where
  "workspace_diff realpath git ws only stat =
     (if \<not> is_git_repo git
      then Inl (WorkspaceError ''This workspace is not a git repository, so there is no diff to show.'')
      else
        (let start = [''diff'', if stat then ''--stat'' else ''--patch'']
         in case (case only of
                    None \<Rightarrow> Inr start
                  | Some text \<Rightarrow>
                      (if text = [] then Inr start
                       else (case resolve realpath ws text of
                               Inl e \<Rightarrow> Inl e
                             | Inr p \<Rightarrow> Inr (start @ [''--'', relative ws p])))) of
              Inl e \<Rightarrow> Inl e
            | Inr arguments \<Rightarrow>
                (let result = git arguments in
                 if returncode result \<noteq> 0
                 then Inl (WorkspaceError (''git diff failed: '' @ py_strip (stderr result)))
                 else Inr (py_join [NL] (filter (\<lambda>s. s \<noteq> [])
                        (py_strip (stdout result)
                           # (if only = None \<or> only = Some [] then untracked_sections git stat else [])))))))"

section \<open>Several workspaces\<close>

datatype index_error = Unknown_Name string | Out_Of_Range int

record multi_workspace =
  workspaces :: "workspace list"
  names :: "string list"
  active_index :: int

text \<open>\<open>self.names.index(name)\<close>, and \<open>xs[i]\<close> with Python's negative indices.\<close>

definition name_index :: "string list \<Rightarrow> string \<Rightarrow> int option" where
  "name_index ns name = map_option int (first_index (\<lambda>n. n = name) ns)"

definition py_index :: "'a list \<Rightarrow> int \<Rightarrow> 'a option" where
  "py_index xs i =
     (if 0 \<le> i \<and> i < int (length xs) then Some (xs ! nat i)
      else if i < 0 \<and> - int (length xs) \<le> i then Some (xs ! nat (int (length xs) + i))
      else None)"

definition base_name :: "path \<Rightarrow> string" where
  "base_name p = (if p = [] then [] else last p)"

definition open_multi ::
  "(path \<Rightarrow> path) \<Rightarrow> (path \<Rightarrow> git) \<Rightarrow> fs \<Rightarrow> path list \<Rightarrow> string list option \<Rightarrow> workspace_error + multi_workspace" where
  "open_multi realpath git fs roots ns =
     map_sum id (\<lambda>wss. \<lparr>workspaces = wss, names = (case ns of None \<Rightarrow> map base_name roots | Some given \<Rightarrow> given),
         active_index = 0\<rparr>)
       (foldr (\<lambda>r rest. case open_workspace realpath (git r) fs r of
                 Inl e \<Rightarrow> Inl e
               | Inr ws \<Rightarrow> map_sum id (\<lambda>wss. ws # wss) rest) roots (Inr []))"

definition active_workspace :: "multi_workspace \<Rightarrow> workspace option" where
  "active_workspace m = py_index (workspaces m) (active_index m)"

definition active_name :: "multi_workspace \<Rightarrow> string option" where
  "active_name m = (if names m = [] then Some (str_int (active_index m)) else py_index (names m) (active_index m))"

text \<open>A key is an index or a name.\<close>

definition set_active :: "int + string \<Rightarrow> multi_workspace \<Rightarrow> (index_error + unit) \<times> multi_workspace" where
  "set_active key m =
     (case (case key of
              Inl i \<Rightarrow> Inr i
            | Inr name \<Rightarrow> (case name_index (names m) name of None \<Rightarrow> Inl (Unknown_Name name) | Some i \<Rightarrow> Inr i)) of
        Inl e \<Rightarrow> (Inl e, m)
      | Inr i \<Rightarrow>
          if \<not> (0 \<le> i \<and> i < int (length (workspaces m))) then (Inl (Out_Of_Range i), m)
          else (Inr (), m\<lparr>active_index := i\<rparr>))"

definition get_workspace :: "int + string \<Rightarrow> multi_workspace \<Rightarrow> index_error + workspace" where
  "get_workspace key m =
     (case (case key of
              Inl i \<Rightarrow> Inr i
            | Inr name \<Rightarrow> (case name_index (names m) name of None \<Rightarrow> Inl (Unknown_Name name) | Some i \<Rightarrow> Inr i)) of
        Inl e \<Rightarrow> Inl e
      | Inr i \<Rightarrow> (case py_index (workspaces m) i of None \<Rightarrow> Inl (Out_Of_Range i) | Some ws \<Rightarrow> Inr ws))"

definition list_workspaces :: "multi_workspace \<Rightarrow> (string \<times> path) list" where
  "list_workspaces m = zip (names m) (map root (workspaces m))"

section \<open>Reading the porcelain format\<close>

lemma splitlines_from_line:
  "list_all (\<lambda>c. \<not> is_line_break c) l \<Longrightarrow>
     splitlines_from acc (l @ NL # rest) = (rev acc @ l) # splitlines_from [] rest"
proof (induction l arbitrary: acc)
  case Nil
  have "is_line_break NL" by code_simp
  moreover have "NL \<noteq> CR" by simp
  ultimately show ?case by simp
qed simp

lemma splitlines_of_lines:
  "list_all (list_all (\<lambda>c. \<not> is_line_break c)) ls \<Longrightarrow> py_splitlines (concat (map (\<lambda>l. l @ [NL]) ls)) = ls"
  unfolding py_splitlines_def by (induction ls) (simp_all add: splitlines_from_line)

lemma after_last_arrow:
  assumes "\<not> py_in ARROW ('' '' @ name)"
  shows "py_after_last ARROW (old @ ARROW @ name) = name"
proof -
  have "j \<le> length old" if "occurs_at (old @ ARROW @ name) ARROW j" for j
  proof (rule ccontr)
    assume "\<not> j \<le> length old"
    then obtain d where j: "j = length old + Suc d" by (metis less_iff_Suc_add not_le add_Suc_right)
    have at: "prefix ARROW (drop (Suc d) (ARROW @ name))"
      using that j by (simp add: occurs_at_def)
    have "occurs_at ('' '' @ name) ARROW (d - 2)" if "2 \<le> d"
      using at that by (auto simp: occurs_at_def ARROW_def numeral_2_eq_2 drop_Cons Suc_le_eq split: nat.splits)
        (rule ccontr, simp)
    moreover have "2 \<le> d"
    proof (rule ccontr)
      assume "\<not> 2 \<le> d"
      then have "d = 0 \<or> d = 1" by auto
      with at show False by (auto simp: ARROW_def)
    qed
    ultimately show False using assms by (auto simp: py_in_iff)
  qed
  moreover have "occurs_at (old @ ARROW @ name) ARROW (length old)" by (simp add: occurs_at_def)
  ultimately show ?thesis using last_position[of "old @ ARROW @ name" ARROW "length old"] by simp
qed

text \<open>A name git does not quote, as it stands on a line.\<close>

definition plain_name :: "string \<Rightarrow> bool" where
  "plain_name name \<longleftrightarrow>
     name \<noteq> [] \<and> list_all (\<lambda>c. \<not> is_line_break c) name \<and>
     \<not> py_isspace (hd name) \<and> \<not> py_isspace (last name) \<and>
     hd name \<noteq> CHR 0x22 \<and> last name \<noteq> CHR 0x22 \<and> \<not> py_in ARROW ('' '' @ name)"

record status_entry =
  status_xy :: "char \<times> char"
  renamed_from :: "string option"
  status_name :: string

definition porcelain :: "status_entry \<Rightarrow> string" where
  "porcelain e = [fst (status_xy e), snd (status_xy e), CHR '' '']
     @ (case renamed_from e of None \<Rightarrow> [] | Some old \<Rightarrow> old @ ARROW) @ status_name e"

definition plain_entry :: "status_entry \<Rightarrow> bool" where
  "plain_entry e \<longleftrightarrow> plain_name (status_name e) \<and>
     \<not> is_line_break (fst (status_xy e)) \<and> \<not> is_line_break (snd (status_xy e)) \<and>
     (case renamed_from e of None \<Rightarrow> True | Some old \<Rightarrow> plain_name old)"

lemma strip_id: "s \<noteq> [] \<Longrightarrow> \<not> py_isspace (hd s) \<Longrightarrow> \<not> py_isspace (last s) \<Longrightarrow> py_strip s = s"
  by (simp add: py_strip_def py_lstrip_def py_rstrip_def dropWhile_eq_self_iff[THEN iffD2] hd_rev)

lemma strip_quotes_id: "s \<noteq> [] \<Longrightarrow> hd s \<noteq> CHR 0x22 \<Longrightarrow> last s \<noteq> CHR 0x22 \<Longrightarrow> py_strip_chars [CHR 0x22] s = s"
  by (simp add: py_strip_chars_def dropWhile_eq_self_iff[THEN iffD2] hd_rev)

lemma dirty_name_porcelain:
  assumes "plain_entry e"
  shows "dirty_name (porcelain e) = status_name e"
proof -
  have name: "plain_name (status_name e)" using assms by (simp add: plain_entry_def)
  then have n: "status_name e \<noteq> []" "py_strip (status_name e) = status_name e"
    "py_strip_chars [CHR 0x22] (status_name e) = status_name e" "\<not> py_in ARROW ('' '' @ status_name e)"
    by (auto simp: plain_name_def strip_id strip_quotes_id)
  show ?thesis
  proof (cases "renamed_from e")
    case None
    have "\<not> py_in ARROW (status_name e)"
      using n(4) by (metis append_Cons append_Nil occurs_at_Suc py_in_iff)
    with None n show ?thesis by (simp add: dirty_name_def porcelain_def)
  next
    case (Some old)
    then have old: "old \<noteq> []" "\<not> py_isspace (hd old)" using assms by (auto simp: plain_entry_def plain_name_def)
    then have "py_strip (old @ ARROW @ status_name e) = old @ ARROW @ status_name e"
      using name by (intro strip_id) (auto simp: plain_name_def ARROW_def)
    moreover have "py_in ARROW (old @ ARROW @ status_name e)"
      by (auto simp: py_in_iff occurs_at_def intro!: exI[of _ "length old"])
    ultimately show ?thesis
      using Some n after_last_arrow[OF n(4), of old] by (simp add: dirty_name_def porcelain_def)
  qed
qed

text \<open>
  What was dirty when the workspace was opened is read off the status listing exactly: for
  names git does not quote, and renames with their new name, the names found are those
  listed, each once.
\<close>

theorem dirty_paths_porcelain:
  assumes "is_git_repo git" and "list_all plain_entry es"
    and "stdout (git [''status'', ''--porcelain'']) = concat (map (\<lambda>e. porcelain e @ [NL]) es)"
  shows "set (dirty_paths git) = set (map status_name es) \<and> distinct (dirty_paths git)"
proof -
  have "list_all (\<lambda>c. \<not> is_line_break c) (porcelain e)" if "plain_entry e" for e
    using that by (auto simp: plain_entry_def plain_name_def porcelain_def ARROW_def is_line_break_def
        code_point_def split: option.splits)
  then have "list_all (list_all (\<lambda>c. \<not> is_line_break c)) (map porcelain es)"
    using assms(2) by (auto simp: list_all_iff)
  from splitlines_of_lines[OF this] assms(3)
  have "py_splitlines (stdout (git [''status'', ''--porcelain''])) = map porcelain es" by (simp add: comp_def)
  moreover have "map dirty_name (map porcelain es) = map status_name es"
    using assms(2) dirty_name_porcelain by (auto simp: list_all_iff)
  moreover have "filter (\<lambda>name. name \<noteq> []) (map status_name es) = map status_name es"
    using assms(2) by (auto simp: list_all_iff plain_entry_def plain_name_def intro!: filter_True)
  ultimately have "dirty_paths git = remdups (map status_name es)"
    using assms(1) by (simp only: dirty_paths_def simp_thms if_False)
  then show ?thesis by simp
qed

definition sample_git :: git where
  "sample_git args =
     (if args = [''status'', ''--porcelain'']
      then \<lparr>returncode = 0, stdout = '' M a.py'' @ [NL] @ ''R  b.py -> c.py'' @ [NL], stderr = []\<rparr>
      else \<lparr>returncode = 0, stdout = [], stderr = []\<rparr>)"

theorem dirty_paths_porcelain_witness:
  "set (dirty_paths sample_git) = {''a.py'', ''c.py''} \<and> distinct (dirty_paths sample_git)"
proof -
  let ?es = "[\<lparr>status_xy = (CHR '' '', CHR ''M''), renamed_from = None, status_name = ''a.py''\<rparr>,
    \<lparr>status_xy = (CHR ''R'', CHR '' ''), renamed_from = Some ''b.py'', status_name = ''c.py''\<rparr>]"
  have "is_git_repo sample_git" "list_all plain_entry ?es"
    "stdout (sample_git [''status'', ''--porcelain'']) = concat (map (\<lambda>e. porcelain e @ [NL]) ?es)"
    by code_simp+
  from dirty_paths_porcelain[OF this] show ?thesis by simp
qed

section \<open>Switching workspaces\<close>

definition multi_ok :: "multi_workspace \<Rightarrow> bool" where
  "multi_ok m \<longleftrightarrow> 0 \<le> active_index m \<and> active_index m < int (length (workspaces m))"

lemma set_active_ok: "multi_ok m \<Longrightarrow> multi_ok (snd (set_active key m))"
  by (auto simp: set_active_def multi_ok_def split: sum.splits option.splits)

text \<open>
  Switching workspaces is safe: with one workspace at least there always is an active one,
  whatever was switched to before, a switch that fails changes nothing, and one that succeeds
  makes active what indexing by the same key returns.
\<close>

theorem set_active_selects:
  assumes "0 < length (workspaces m)" and "active_index m = 0"
  shows "\<exists>ws. active_workspace (after set_active keys m) = Some ws \<and>
    (case set_active key (after set_active keys m) of
       (Inl e, m') \<Rightarrow> m' = after set_active keys m
     | (Inr _, m') \<Rightarrow> active_workspace m' = Some (projr (get_workspace key m')) \<and> isl (get_workspace key m') = False)"
proof -
  let ?m = "after set_active keys m"
  have "multi_ok m" using assms by (simp add: multi_ok_def)
  from after_invariant[where I = multi_ok and ok = "\<lambda>_. True", OF set_active_ok _ this]
  have "multi_ok ?m" by (simp add: list_all_iff)
  then have "active_workspace ?m = Some (workspaces ?m ! nat (active_index ?m))"
    by (simp add: active_workspace_def py_index_def multi_ok_def)
  then show ?thesis
    by (auto simp: set_active_def active_workspace_def get_workspace_def py_index_def split: sum.splits option.splits)
qed

definition two_workspaces :: multi_workspace where
  "two_workspaces = \<lparr>workspaces = [new_workspace [''a''] [], new_workspace [''b''] []],
     names = [''a'', ''b''], active_index = 0\<rparr>"

theorem set_active_selects_witness:
  "\<exists>ws. active_workspace (after set_active [Inr ''b'', Inl 7] two_workspaces) = Some ws"
proof -
  have "0 < length (workspaces two_workspaces)" "active_index two_workspaces = 0"
    by (simp_all add: two_workspaces_def)
  from set_active_selects[OF this] show ?thesis by blast
qed

end
