(* ===== verification/Checks.thy ===== *)
theory Checks
  imports Git "HOL-Library.Multiset"
begin

text \<open>
  \<open>llm_assistant_agent/checks.py\<close>: the checkers run on a file the agent has changed. The
  shell is a parameter, which may change the tree it runs in; so is \<open>compile\<close>, Python's
  parser. \<open>shlex.quote\<close> of the standard library is modelled, with a reader of shell words to
  state what the commands rendered with it are.
\<close>

datatype process = Finished completed | Timed_Out | Os_Error string

type_synonym shell = "string \<Rightarrow> fs \<Rightarrow> process \<times> fs"

datatype compile_result = Compiles | Syntax_Error nat string | Value_Error string

section \<open>Quoting\<close>

definition safe_char :: "char \<Rightarrow> bool" where
  "safe_char c \<longleftrightarrow>
     (let n = code_point c in
      48 \<le> n \<and> n \<le> 57 \<or> 65 \<le> n \<and> n \<le> 90 \<or> 97 \<le> n \<and> n \<le> 122) \<or> c \<in> set ''_@%+=:,./-''"

abbreviation (input) QUOTE :: char where "QUOTE \<equiv> CHR 0x27"
abbreviation (input) DQUOTE :: char where "DQUOTE \<equiv> CHR 0x22"

definition shell_quote :: "string \<Rightarrow> string" where
  "shell_quote s =
     (if s = [] then [QUOTE, QUOTE]
      else if list_all safe_char s then s
      else [QUOTE] @ py_replace s [QUOTE] [QUOTE, DQUOTE, QUOTE, DQUOTE, QUOTE] @ [QUOTE])"

section \<open>The checks\<close>

definition MAX_OUTPUT :: nat where "MAX_OUTPUT = 4000"

record check =
  check_command :: string
  check_suffixes :: "string list"

definition applies_to :: "check \<Rightarrow> string \<Rightarrow> bool" where
  "applies_to c path \<longleftrightarrow> check_suffixes c = [] \<or> list_ex (\<lambda>x. suffix x path) (check_suffixes c)"

definition rendered :: "check \<Rightarrow> string \<Rightarrow> string" where
  "rendered c path = py_replace (check_command c) ''{path}'' (shell_quote path)"

text \<open>\<open>timeout_shown\<close> is the timeout as the messages print it.\<close>

record checks =
  active_checks :: "check list"
  timeout_shown :: string
  broken_checks :: "string list"

definition python_syntax_error ::
  "(path \<Rightarrow> path) \<Rightarrow> (string \<Rightarrow> compile_result) \<Rightarrow> fs \<Rightarrow> path \<Rightarrow> string \<Rightarrow> string" where
  "python_syntax_error realpath py_compile fs r path =
     (if \<not> suffix ''.py'' path then []
      else
        (case fs (realpath (join_path r path)) of
           Some (File source True t) \<Rightarrow>
             (case py_compile (universal_newlines source) of
                Compiles \<Rightarrow> []
              | Syntax_Error line msg \<Rightarrow>
                  (if line \<noteq> 0 then path @ '':'' @ str_nat line else path) @ '': SyntaxError: '' @ msg
              | Value_Error msg \<Rightarrow> path @ '': '' @ msg)
         | _ \<Rightarrow> []))"

definition truncate_output :: "string \<Rightarrow> string" where
  "truncate_output text =
     (if length text \<le> MAX_OUTPUT then text
      else take MAX_OUTPUT text @ [NL] @ ''... more diagnostics not shown.'')"

text \<open>\<open>command.split()[0]\<close>: None for the \<open>IndexError\<close> of a blank command.\<close>

definition check_program :: "check \<Rightarrow> string option" where
  "check_program c = (case py_words (check_command c) of [] \<Rightarrow> None | w # ws \<Rightarrow> Some w)"

definition disable :: "check \<Rightarrow> string \<Rightarrow> checks \<Rightarrow> checks option" where
  "disable c output cs =
     (let cs = (if c \<in> set (active_checks cs) then cs\<lparr>active_checks := remove1 c (active_checks cs)\<rparr> else cs);
          first = (if output = [] then ''no output'' else hd (py_splitlines output))
      in case check_program c of
           None \<Rightarrow> None
         | Some name \<Rightarrow>
             Some (cs\<lparr>broken_checks := broken_checks cs @ [name @ '' could not run ('' @ first @ '') - not checking'']\<rparr>))"

definition run_one :: "shell \<Rightarrow> check \<Rightarrow> string \<Rightarrow> checks \<times> fs \<Rightarrow> (string \<times> checks \<times> fs) option" where
  "run_one sh c path st =
     (let (cs, fs) = st in
      case sh (rendered c path) fs of
        (Timed_Out, fs) \<Rightarrow>
          map_option (\<lambda>name. (''('' @ name @ '' timed out after '' @ timeout_shown cs @ ''s)'', cs, fs)) (check_program c)
      | (Os_Error e, fs) \<Rightarrow>
          map_option (\<lambda>name. (''('' @ name @ '' could not run: '' @ e @ '')'', cs, fs)) (check_program c)
      | (Finished result, fs) \<Rightarrow>
          (if returncode result = 0 then Some ([], cs, fs)
           else
             (let output = py_strip (stdout result @ stderr result) in
              if output = [] then Some ([], cs, fs)
              else if \<not> py_in (base_name (components path)) output
              then map_option (\<lambda>cs. ([], cs, fs)) (disable c output cs)
              else Some (truncate_output output, cs, fs))))"

fun run_each :: "shell \<Rightarrow> check list \<Rightarrow> string \<Rightarrow> checks \<times> fs \<Rightarrow> (string list \<times> checks \<times> fs) option" where
  "run_each sh [] path (cs, fs) = Some ([], cs, fs)"
| "run_each sh (c # todo) path (cs, fs) =
     (if \<not> applies_to c path then run_each sh todo path (cs, fs)
      else
        (case run_one sh c path (cs, fs) of
           None \<Rightarrow> None
         | Some (finding, cs, fs) \<Rightarrow>
             map_option (\<lambda>(findings, st). ((if finding = [] then findings else finding # findings), st))
               (run_each sh todo path (cs, fs))))"

definition run_checks ::
  "(path \<Rightarrow> path) \<Rightarrow> (string \<Rightarrow> compile_result) \<Rightarrow> shell \<Rightarrow> path \<Rightarrow> string \<Rightarrow> checks \<times> fs \<Rightarrow>
     (string \<times> checks \<times> fs) option" where
  "run_checks realpath py_compile sh r path st =
     (let (cs, fs) = st; syntax = python_syntax_error realpath py_compile fs r path in
      if syntax \<noteq> [] then Some (syntax, cs, fs)
      else map_option (\<lambda>(findings, st). (py_join [NL] findings, st)) (run_each sh (active_checks cs) path (cs, fs)))"

text \<open>What is worth running: \<open>which\<close> finds a program, \<open>probe\<close> runs it with \<open>--version\<close>.\<close>

definition works :: "(string \<Rightarrow> bool) \<Rightarrow> (string list \<Rightarrow> process) \<Rightarrow> string \<Rightarrow> bool" where
  "works which probe name \<longleftrightarrow>
     which name \<and> (case probe [name, ''--version''] of Finished p \<Rightarrow> returncode p = 0 | _ \<Rightarrow> False)"

definition detect_checks :: "(string \<Rightarrow> bool) \<Rightarrow> (string list \<Rightarrow> process) \<Rightarrow> check list" where
  "detect_checks which probe =
     (if works which probe ''ruff''
      then [\<lparr>check_command = ''ruff check --no-cache --force-exclude --output-format=concise {path}'',
             check_suffixes = [''.py'']\<rparr>]
      else [])"

section \<open>What the shell makes of a quoted path\<close>

text \<open>
  One word of a shell command: characters without a meaning to the shell stand for
  themselves, single quotes keep everything, double quotes keep what has no meaning
  inside them. The result is the word and the rest of the line, None for anything else.
\<close>

function shell_word :: "string \<Rightarrow> (string \<times> string) option" where
  "shell_word [] = Some ([], [])"
| "shell_word (c # cs) =
     (if c = QUOTE then
        (let (quoted, rest) = (takeWhile (\<lambda>x. x \<noteq> QUOTE) cs, dropWhile (\<lambda>x. x \<noteq> QUOTE) cs) in
         if rest = [] then None
         else map_option (\<lambda>(w, rest). (quoted @ w, rest)) (shell_word (tl rest)))
      else if c = DQUOTE then
        (let (quoted, rest) = (takeWhile (\<lambda>x. x \<noteq> DQUOTE) cs, dropWhile (\<lambda>x. x \<noteq> DQUOTE) cs) in
         if rest = [] \<or> list_ex (\<lambda>x. x \<in> set [CHR ''$'', CHR 0x60, CHR 0x5C]) quoted then None
         else map_option (\<lambda>(w, rest). (quoted @ w, rest)) (shell_word (tl rest)))
      else if safe_char c then map_option (\<lambda>(w, rest). (c # w, rest)) (shell_word cs)
      else if c = CHR '' '' \<or> c = NL then Some ([], c # cs)
      else None)"
  by pat_completeness auto
termination
proof (relation "measure length", goal_cases)
  case (2 c cs x quoted rest)
  then show ?case using length_dropWhile_le[of "\<lambda>x. x \<noteq> QUOTE" cs] by simp
next
  case (3 c cs x quoted rest)
  then show ?case using length_dropWhile_le[of "\<lambda>x. x \<noteq> DQUOTE" cs] by simp
qed simp_all

declare shell_word.simps [simp del]

lemma py_in_single: "py_in [c] s \<longleftrightarrow> c \<in> set s"
  by (auto simp: py_in_iff_sublist sublist_def in_set_conv_decomp)

text \<open>The words of a command line.\<close>

function shell_words :: "string \<Rightarrow> string list option" where
  "shell_words s =
     (let s' = dropWhile (\<lambda>c. c = CHR '' '') s in
      if s' = [] then Some []
      else
        (case shell_word s' of
           None \<Rightarrow> None
         | Some (w, rest) \<Rightarrow> if length rest < length s' then map_option ((#) w) (shell_words rest) else None))"
  by pat_completeness auto
termination
proof (relation "measure length", goal_cases)
  case (2 s s' w word rest)
  then show ?case using length_dropWhile_le[of "\<lambda>c. c = CHR '' ''" s] by simp
qed simp

declare shell_words.simps [simp del]

definition word_ends :: "string \<Rightarrow> bool" where
  "word_ends rest \<longleftrightarrow> rest = [] \<or> hd rest = CHR '' '' \<or> hd rest = NL"

lemma shell_word_stop: "word_ends rest \<Longrightarrow> shell_word rest = Some ([], rest)"
proof -
  have "\<not> safe_char (CHR '' '')" "\<not> safe_char NL" by code_simp+
  then show "word_ends rest \<Longrightarrow> shell_word rest = Some ([], rest)"
    by (cases rest) (auto simp: word_ends_def shell_word.simps)
qed

text \<open>A word with some more characters before it.\<close>

definition onto :: "string \<Rightarrow> (string \<times> string) option \<Rightarrow> (string \<times> string) option" where
  "onto p x = map_option (\<lambda>(w, r). (p @ w, r)) x"

lemma onto_simps [simp]: "onto [] x = x" "onto p (onto q x) = onto (p @ q) x" "onto p (Some (w, r)) = Some (p @ w, r)"
  by (cases x; auto simp: onto_def)+

lemma shell_word_safe:
  "list_all safe_char s \<Longrightarrow> shell_word (s @ rest) = onto s (shell_word rest)"
proof (induction s)
  case (Cons c s)
  have "\<not> safe_char QUOTE" "\<not> safe_char DQUOTE" by code_simp+
  with Cons.prems have "shell_word (c # s @ rest) = onto [c] (shell_word (s @ rest))"
    by (auto simp: shell_word.simps(2)[of c] onto_def)
  with Cons show ?case by simp
qed simp

lemma shell_word_quote:
  assumes "QUOTE \<notin> set p"
  shows "shell_word (QUOTE # p @ QUOTE # rest) = onto p (shell_word rest)"
proof -
  have "\<forall>x \<in> set p. x \<noteq> QUOTE" using assms by auto
  then have "takeWhile (\<lambda>x. x \<noteq> QUOTE) (p @ QUOTE # rest) = p" "dropWhile (\<lambda>x. x \<noteq> QUOTE) (p @ QUOTE # rest) = QUOTE # rest"
    by (simp_all add: takeWhile_append dropWhile_append)
  then show ?thesis by (simp add: shell_word.simps onto_def)
qed

lemma shell_word_pieces:
  "ps \<noteq> [] \<Longrightarrow> list_all (\<lambda>p. QUOTE \<notin> set p) ps \<Longrightarrow>
    shell_word (QUOTE # py_join [QUOTE, DQUOTE, QUOTE, DQUOTE, QUOTE] ps @ QUOTE # rest) =
      onto (py_join [QUOTE] ps) (shell_word rest)"
proof (induction ps)
  case (Cons p ps)
  show ?case
  proof (cases "ps = []")
    case True
    with Cons.prems shell_word_quote[where p = p] show ?thesis by simp
  next
    case False
    let ?more = "QUOTE # py_join [QUOTE, DQUOTE, QUOTE, DQUOTE, QUOTE] ps @ QUOTE # rest"
    have "shell_word (DQUOTE # QUOTE # DQUOTE # ?more) = onto [QUOTE] (shell_word ?more)"
      by (simp add: shell_word.simps(2)[of DQUOTE] onto_def)
    with Cons False shell_word_quote[where p = p]
    show ?thesis by (simp add: py_join_Cons)
  qed
qed simp

text \<open>The shell reads a quoted path as the path, to the character, whatever it contains.\<close>

lemma shell_word_quoted:
  "shell_word (shell_quote path @ rest) = onto path (shell_word rest)"
proof -
  consider "path = []" | "path \<noteq> []" "list_all safe_char path" | "path \<noteq> []" "\<not> list_all safe_char path" by blast
  then show ?thesis
  proof cases
    case 1
    with shell_word_quote[where p = "[]"] show ?thesis by (simp add: shell_quote_def)
  next
    case 2
    with shell_word_safe show ?thesis by (simp add: shell_quote_def)
  next
    case 3
    have "list_all (\<lambda>p. QUOTE \<notin> set p) (py_split [QUOTE] path)"
      using py_split_pieces[of "[QUOTE]" _ path] by (auto simp: list_all_iff py_in_single)
    from shell_word_pieces[OF _ this] 3 show ?thesis
      by (simp add: shell_quote_def py_replace_def py_join_split)
  qed
qed

text \<open>The words a template may have: nothing but placeholders and characters without a meaning.\<close>

definition PLACEHOLDER :: string where "PLACEHOLDER = ''{path}''"

definition template_word :: "string \<Rightarrow> bool" where
  "template_word w \<longleftrightarrow> w \<noteq> [] \<and> list_all (list_all safe_char) (py_split PLACEHOLDER w)"

lemma shell_word_joined:
  "ps \<noteq> [] \<Longrightarrow> list_all (list_all safe_char) ps \<Longrightarrow>
     shell_word (py_join (shell_quote path) ps @ rest) = onto (py_join path ps) (shell_word rest)"
proof (induction ps rule: induct_list012)
  case (3 p q ps)
  then show ?case
    by (simp add: shell_word_safe shell_word_quoted)
qed (simp_all add: shell_word_safe)

definition substituted :: "string \<Rightarrow> string \<Rightarrow> string" where
  "substituted path w = py_replace w PLACEHOLDER (shell_quote path)"

lemma shell_word_template:
  assumes "template_word w" and "word_ends rest"
  shows "shell_word (substituted path w @ rest) = Some (py_replace w PLACEHOLDER path, rest)"
  using assms shell_word_joined[of "py_split PLACEHOLDER w" path rest]
  by (simp add: template_word_def substituted_def py_replace_def shell_word_stop)

lemma hd_joined:
  "ps \<noteq> [] \<Longrightarrow> sep \<noteq> [] \<Longrightarrow> py_join sep ps \<noteq> [] \<Longrightarrow>
     hd (py_join sep ps) = hd sep \<or> (\<exists>p \<in> set ps. p \<noteq> [] \<and> hd (py_join sep ps) = hd p)"
  by (cases ps; cases "tl ps") (auto simp: hd_append)

lemma hd_quoted: "shell_quote path \<noteq> [] \<and> hd (shell_quote path) \<noteq> CHR '' ''"
proof (cases "path \<noteq> [] \<and> list_all safe_char path")
  case True
  moreover have "\<not> safe_char (CHR '' '')" by code_simp
  ultimately show ?thesis by (cases path) (auto simp: shell_quote_def)
qed (auto simp: shell_quote_def)

lemma substituted_start:
  assumes "template_word w"
  shows "substituted path w \<noteq> [] \<and> hd (substituted path w) \<noteq> CHR '' ''"
proof -
  have blank: "\<not> safe_char (CHR '' '')" by code_simp
  let ?ps = "py_split PLACEHOLDER w"
  have nonempty: "py_join (shell_quote path) ?ps \<noteq> []"
  proof
    assume empty: "py_join (shell_quote path) ?ps = []"
    have "?ps \<noteq> []" by simp
    then obtain p ps where ps: "?ps = p # ps" by (cases ?ps) auto
    with empty hd_quoted[of path] have "ps = [] \<and> p = []" by (cases ps) auto
    with ps py_join_split[of PLACEHOLDER w] assms show False by (simp add: template_word_def)
  qed
  with hd_joined[of ?ps "shell_quote path"] hd_quoted[of path] assms blank show ?thesis
    by (auto simp: substituted_def py_replace_def template_word_def list_all_iff)
      (metis list.set_sel(1))
qed

lemma shell_words_template:
  "list_all template_word ws \<Longrightarrow> shell_words (py_join '' '' (map (substituted path) ws)) =
     Some (map (\<lambda>w. py_replace w PLACEHOLDER path) ws)"
proof (induction ws)
  case Nil
  show ?case by (subst shell_words.simps) simp
next
  case (Cons w ws)
  then have w: "template_word w" and ws: "list_all template_word ws" by simp_all
  define rest where "rest = (if ws = [] then [] else CHR '' '' # py_join '' '' (map (substituted path) ws))"
  have line: "py_join '' '' (map (substituted path) (w # ws)) = substituted path w @ rest"
    by (cases ws) (simp_all add: rest_def)
  have ends: "word_ends rest" by (simp add: rest_def word_ends_def)
  have "shell_words rest = shell_words (py_join '' '' (map (substituted path) ws))"
    by (cases "ws = []") (simp_all add: rest_def shell_words.simps[of "CHR '' '' # _"] shell_words.simps[of "py_join _ _"])
  with Cons.IH[OF ws] have "shell_words rest = Some (map (\<lambda>w. py_replace w PLACEHOLDER path) ws)" by simp
  moreover have "dropWhile (\<lambda>c. c = CHR '' '') (substituted path w @ rest) = substituted path w @ rest"
    using substituted_start[OF w, of path] by (cases "substituted path w") auto
  ultimately show ?case
    unfolding line using shell_word_template[OF w ends, of path] substituted_start[OF w, of path]
    by (subst shell_words.simps) simp
qed



section \<open>Broken checkers\<close>

lemma run_one_cases:
  assumes "run_one sh c path (cs, fs) = Some (finding, cs', fs')"
  shows "cs' = cs \<or> (\<exists>output. finding = [] \<and> disable c output cs = Some cs')"
  using assms by (auto simp: run_one_def Let_def split: prod.splits process.splits if_splits)

lemma subseq_remove1: "subseq (remove1 x xs) xs"
  by (induction xs) auto

lemma disable_counts:
  assumes "disable c output cs = Some cs'" and "c \<in> set (active_checks cs)"
  shows "mset (active_checks cs) = add_mset c (mset (active_checks cs'))" and "subseq (active_checks cs') (active_checks cs)"
    and "length (broken_checks cs') = Suc (length (broken_checks cs))" and "prefix (broken_checks cs) (broken_checks cs')"
  using assms by (auto simp: disable_def Let_def subseq_remove1 split: option.splits)

lemma run_each_counts:
  "run_each sh todo path (cs, fs) = Some (findings, cs', fs') \<Longrightarrow> mset todo \<subseteq># mset (active_checks cs) \<Longrightarrow>
     subseq (active_checks cs') (active_checks cs) \<and> prefix (broken_checks cs) (broken_checks cs') \<and>
     length (active_checks cs') + length (broken_checks cs') = length (active_checks cs) + length (broken_checks cs)"
proof (induction todo arbitrary: cs fs findings)
  case (Cons c todo)
  have todo: "mset todo \<subseteq># mset (active_checks cs)" using Cons.prems(2) by (auto dest: mset_subset_eq_insertD)
  show ?case
  proof (cases "applies_to c path")
    case False
    with Cons.prems(1) Cons.IH[OF _ todo] show ?thesis by simp
  next
    case True
    then obtain finding cs1 fs1 found where step: "run_one sh c path (cs, fs) = Some (finding, cs1, fs1)"
      "run_each sh todo path (cs1, fs1) = Some (found, cs', fs')"
      using Cons.prems(1) by (auto split: option.splits)
    from run_one_cases[OF step(1)] show ?thesis
    proof
      assume "cs1 = cs"
      with Cons.IH[OF step(2)] todo show ?thesis by simp
    next
      assume "\<exists>output. finding = [] \<and> disable c output cs = Some cs1"
      then obtain said where d: "disable c said cs = Some cs1" by blast
      have "c \<in> set (active_checks cs)" using Cons.prems(2) by (auto dest: mset_subset_eqD)
      note counts = disable_counts[OF d this]
      have "mset todo \<subseteq># mset (active_checks cs1)" using Cons.prems(2) counts(1) by simp
      from Cons.IH[OF step(2) this] counts show ?thesis
        by (auto intro: subseq_order.trans prefix_order.trans dest: arg_cong[where f = size])
    qed
  qed
qed simp

text \<open>What entitles a checker to a finding on a file: it named the file, or never got to answer.\<close>

definition entitled :: "shell \<Rightarrow> check \<Rightarrow> string \<Rightarrow> fs \<Rightarrow> bool" where
  "entitled sh c path fs \<longleftrightarrow>
     (case fst (sh (rendered c path) fs) of
        Finished p \<Rightarrow> returncode p \<noteq> 0 \<and> py_in (base_name (components path)) (py_strip (stdout p @ stderr p))
      | _ \<Rightarrow> True)"

lemma run_one_entitled:
  "run_one sh c path (cs, fs) = Some (finding, st) \<Longrightarrow> finding \<noteq> [] \<Longrightarrow> entitled sh c path fs"
  by (auto simp: run_one_def entitled_def Let_def split: prod.splits process.splits if_splits)

lemma run_each_entitled:
  "run_each sh todo path (cs, fs) = Some (findings, st) \<Longrightarrow> findings \<noteq> [] \<Longrightarrow>
     \<exists>c \<in> set todo. applies_to c path \<and> (\<exists>fs. entitled sh c path fs)"
proof (induction todo arbitrary: cs fs findings)
  case (Cons c todo)
  show ?case
  proof (cases "applies_to c path")
    case True
    then obtain finding cs1 fs1 found where step: "run_one sh c path (cs, fs) = Some (finding, cs1, fs1)"
      "run_each sh todo path (cs1, fs1) = Some (found, st)" "findings = (if finding = [] then found else finding # found)"
      using Cons.prems(1) by (auto split: option.splits)
    show ?thesis
    proof (cases "finding = []")
      case True
      with step Cons.prems(2) Cons.IH[OF step(2)] show ?thesis by auto
    next
      case False
      with run_one_entitled[OF step(1)] \<open>applies_to c path\<close> show ?thesis by auto
    qed
  qed (use Cons in auto)
qed simp

text \<open>
  Every checker is accounted for: after a run the checkers that remain are a part of those
  before, in their order, and each that was dropped added exactly one line for the user.
  The model is told something only by the parser, or by a checker that named the file or did
  not get to answer: a checker that is broken itself is never blamed on the file.
\<close>

theorem checkers_accounted:
  assumes "run_checks realpath py_compile sh r path (cs, fs) = Some (findings, cs', fs')"
  shows "subseq (active_checks cs') (active_checks cs) \<and> prefix (broken_checks cs) (broken_checks cs') \<and>
    length (active_checks cs') + length (broken_checks cs') = length (active_checks cs) + length (broken_checks cs) \<and>
    (findings \<noteq> [] \<longrightarrow> findings = python_syntax_error realpath py_compile fs r path \<or>
       (\<exists>c \<in> set (active_checks cs). applies_to c path \<and> (\<exists>fs. entitled sh c path fs)))"
proof (cases "python_syntax_error realpath py_compile fs r path = []")
  case True
  then obtain found where f: "run_each sh (active_checks cs) path (cs, fs) = Some (found, cs', fs')" "findings = py_join [NL] found"
    using assms by (auto simp: run_checks_def Let_def)
  from run_each_counts[OF f(1)] have counts: "subseq (active_checks cs') (active_checks cs)" "prefix (broken_checks cs) (broken_checks cs')"
    "length (active_checks cs') + length (broken_checks cs') = length (active_checks cs) + length (broken_checks cs)" by simp_all
  moreover have "found \<noteq> []" if "findings \<noteq> []" using that f(2) by auto
  ultimately show ?thesis using run_each_entitled[OF f(1)] by blast
next
  case False
  with assms show ?thesis by (auto simp: run_checks_def Let_def)
qed

definition broken_shim :: shell where
  "broken_shim command fs =
     (Finished \<lparr>returncode = 1, stdout = [], stderr = ''ruff: command not found''\<rparr>, fs)"

definition ruff :: check where
  "ruff = \<lparr>check_command = ''ruff check {path}'', check_suffixes = [''.py'']\<rparr>"

theorem checkers_accounted_witness:
  "\<exists>cs'. run_checks lexical (\<lambda>_. Compiles) broken_shim [''repo''] ''a.py''
       (\<lparr>active_checks = [ruff], timeout_shown = ''30'', broken_checks = []\<rparr>, sample_fs) = Some ([], cs', sample_fs) \<and>
     length (active_checks cs') + length (broken_checks cs') = 1 \<and> active_checks cs' = []"
proof -
  let ?cs = "\<lparr>active_checks = [ruff], timeout_shown = ''30'', broken_checks = []\<rparr>"
  let ?cs' = "\<lparr>active_checks = [], timeout_shown = ''30'', broken_checks = [''ruff could not run (ruff: command not found) - not checking'']\<rparr>"
  have run: "run_checks lexical (\<lambda>_. Compiles) broken_shim [''repo''] ''a.py'' (?cs, sample_fs) = Some ([], ?cs', sample_fs)"
  proof -
    have syn: "python_syntax_error lexical (\<lambda>_. Compiles) sample_fs [''repo''] ''a.py'' = []" by code_simp
    have app: "applies_to ruff ''a.py''" by code_simp
    have out: "py_strip (''ruff: command not found'') = ''ruff: command not found''"
      "\<not> py_in (base_name (components ''a.py'')) ''ruff: command not found''" by code_simp+
    have dis: "disable ruff ''ruff: command not found'' ?cs = Some ?cs'" by code_simp
    show ?thesis
      using syn app out dis by (simp add: run_checks_def run_one_def broken_shim_def)
  qed
  from checkers_accounted[OF run] run show ?thesis by simp
qed

end
