(* ===== verification/Sandbox.thy ===== *)
theory Sandbox
  imports Checks
begin

text \<open>
  \<open>llm_assistant_agent/sandbox.py\<close>: where the commands of the agent run, on this machine or in
  a container per workspace. Docker is a parameter: \<open>proc\<close> runs \<open>docker\<close> with arguments on
  a state of its own. SHA-256 is another. Operations that may raise \<open>SandboxError\<close> pass the
  state of docker along and return the message or a value.
\<close>

section \<open>Operations on docker\<close>

type_synonym ('d, 'a) op = "'d \<Rightarrow> (string + 'a) \<times> 'd"

definition return_op :: "'a \<Rightarrow> ('d, 'a) op" where
  "return_op x d = (Inr x, d)"

definition raise_op :: "string \<Rightarrow> ('d, 'a) op" where
  "raise_op message d = (Inl message, d)"

definition bind_op :: "('d, 'a) op \<Rightarrow> ('a \<Rightarrow> ('d, 'b) op) \<Rightarrow> ('d, 'b) op" where
  "bind_op m f d = (case m d of (Inl e, d) \<Rightarrow> (Inl e, d) | (Inr x, d) \<Rightarrow> f x d)"

type_synonym 'd docker = "string list \<Rightarrow> 'd \<Rightarrow> process \<times> 'd"

definition docker :: "'d docker \<Rightarrow> string list \<Rightarrow> ('d, completed) op" where
  "docker proc args d =
     (case proc args d of
        (Finished result, d) \<Rightarrow> (Inr result, d)
      | (Timed_Out, d) \<Rightarrow> (Inl (''docker '' @ hd args @ '' timed out''), d)
      | (Os_Error e, d) \<Rightarrow> (Inl (''could not run docker: '' @ e), d))"

section \<open>Running a command\<close>

definition WORKSPACE :: string where "WORKSPACE = ''/workspace''"

definition DEFAULT_IMAGE :: string where "DEFAULT_IMAGE = ''assist-sandbox:latest''"

definition MASKED :: "string list" where
  "MASKED = [''.venv'', ''venv'', ''node_modules'', ''.mypy_cache'', ''.pytest_cache'', ''.ruff_cache'', ''.tox'']"

record docker_sandbox =
  sandbox_root :: path
  sandbox_image :: string
  sandbox_network :: bool

datatype sandbox = Host_Sandbox | Docker_Sandbox docker_sandbox

text \<open>A command line for the shell of this machine, in a directory, or the arguments of a program.\<close>

datatype execution = Shell_Command string path | Program "string list"

definition sandbox_name :: "(string \<Rightarrow> string) \<Rightarrow> docker_sandbox \<Rightarrow> string" where
  "sandbox_name sha256 sb = ''assist-'' @ take 12 (sha256 (path_str (sandbox_root sb)))"

definition sandbox_label :: "(string \<Rightarrow> string) \<Rightarrow> sandbox \<Rightarrow> string" where
  "sandbox_label sha256 s =
     (case s of Host_Sandbox \<Rightarrow> ''on this machine'' | Docker_Sandbox sb \<Rightarrow> ''in container '' @ sandbox_name sha256 sb)"

definition sandbox_prepare :: "(string \<Rightarrow> string) \<Rightarrow> sandbox \<Rightarrow> string \<Rightarrow> path \<Rightarrow> execution" where
  "sandbox_prepare sha256 s command r =
     (case s of
        Host_Sandbox \<Rightarrow> Shell_Command command r
      | Docker_Sandbox sb \<Rightarrow>
          Program [''docker'', ''exec'', ''--workdir'', WORKSPACE, sandbox_name sha256 sb, ''sh'', ''-lc'', command])"

definition for_workspace :: "path \<Rightarrow> bool \<Rightarrow> string \<Rightarrow> bool \<Rightarrow> sandbox" where
  "for_workspace r enabled img net =
     (if enabled then Docker_Sandbox \<lparr>sandbox_root = r, sandbox_image = img, sandbox_network = net\<rparr> else Host_Sandbox)"

section \<open>The container's life\<close>

definition container_state :: "'d docker \<Rightarrow> string \<Rightarrow> ('d, string option) op" where
  "container_state proc name =
     bind_op (docker proc [''ps'', ''--all'', ''--filter'', ''name=^'' @ name @ ''$'', ''--format'', ''{{.State}}''])
       (\<lambda>result. return_op (let state = py_strip (stdout result) in if state = [] then None else Some state))"

definition container_size :: "'d docker \<Rightarrow> string \<Rightarrow> ('d, string option) op" where
  "container_size proc name =
     bind_op (docker proc [''ps'', ''--all'', ''--filter'', ''name=^'' @ name @ ''$'', ''--format'', ''{{.Size}}''])
       (\<lambda>result. return_op (let n = py_strip (stdout result) in if n = [] then None else Some n))"

definition image_exists :: "'d docker \<Rightarrow> string \<Rightarrow> ('d, bool) op" where
  "image_exists proc img =
     bind_op (docker proc [''images'', ''--quiet'', img]) (\<lambda>result. return_op (py_strip (stdout result) \<noteq> []))"

definition network_mode :: "'d docker \<Rightarrow> string \<Rightarrow> ('d, string) op" where
  "network_mode proc name =
     bind_op (docker proc [''inspect'', name, ''--format'', ''{{.HostConfig.NetworkMode}}''])
       (\<lambda>result. return_op (py_strip (stdout result)))"

definition actual_reach :: "'d docker \<Rightarrow> string \<Rightarrow> ('d, string) op" where
  "actual_reach proc name =
     bind_op (network_mode proc name)
       (\<lambda>mode. return_op (if mode = ''none'' then ''(no network)'' else ''with network''))"

definition check_reusable :: "'d docker \<Rightarrow> string \<Rightarrow> bool \<Rightarrow> ('d, unit) op" where
  "check_reusable proc name net =
     (if \<not> net then return_op ()
      else bind_op (network_mode proc name)
             (\<lambda>mode. if mode = ''none''
                then raise_op (name @ '' was created without network access, and docker cannot ''
                  @ ''add it to an existing container. Run 'assist --sandbox-wipe' and try ''
                  @ ''again; nothing in it is worth keeping.'')
                else return_op ()))"

text \<open>The arguments of \<open>docker run\<close>; \<open>user\<close> is the caller's user and group id.\<close>

definition create_arguments :: "(path \<Rightarrow> path) \<Rightarrow> fs \<Rightarrow> string \<Rightarrow> string \<Rightarrow> docker_sandbox \<Rightarrow> string list" where
  "create_arguments realpath fs user name sb =
     [''run'', ''--detach'', ''--name'', name,
      ''--volume'', path_str (sandbox_root sb) @ '':'' @ WORKSPACE, ''--workdir'', WORKSPACE,
      ''--user'', user, ''--env'', ''HOME=/tmp'', ''--label'', ''app=assist-sandbox'']
     @ concat (map (\<lambda>directory. [''--volume'', WORKSPACE @ ''/'' @ directory])
         (filter (\<lambda>directory. exists_path fs (realpath (sandbox_root sb @ [directory]))) MASKED))
     @ (if sandbox_network sb then [] else [''--network'', ''none''])
     @ [sandbox_image sb, ''sleep'', ''infinity'']"

definition create_container :: "(path \<Rightarrow> path) \<Rightarrow> 'd docker \<Rightarrow> fs \<Rightarrow> string \<Rightarrow> string \<Rightarrow> docker_sandbox \<Rightarrow> ('d, unit) op" where
  "create_container realpath proc fs user name sb =
     bind_op (docker proc (create_arguments realpath fs user name sb))
       (\<lambda>result. if returncode result \<noteq> 0
          then raise_op (''could not start the sandbox: '' @ py_strip (stderr result)) else return_op ())"

definition ensure_ready ::
  "(path \<Rightarrow> path) \<Rightarrow> (string \<Rightarrow> string) \<Rightarrow> (string \<Rightarrow> bool) \<Rightarrow> 'd docker \<Rightarrow> fs \<Rightarrow> string \<Rightarrow> docker_sandbox \<Rightarrow>
     ('d, string) op" where
  "ensure_ready realpath sha256 which proc fs user sb =
     (let name = sandbox_name sha256 sb in
      if \<not> which ''docker'' then raise_op ''--sandbox needs docker on PATH, and it is not there.''
      else
        bind_op (container_state proc name) (\<lambda>state.
          case state of
            Some st \<Rightarrow>
              bind_op (check_reusable proc name (sandbox_network sb)) (\<lambda>_.
                if st \<noteq> ''running'' then
                  bind_op (docker proc [''start'', name]) (\<lambda>_.
                    bind_op (actual_reach proc name) (\<lambda>reach.
                      return_op (''sandbox '' @ name @ '' restarted '' @ reach)))
                else
                  bind_op (actual_reach proc name) (\<lambda>reach.
                    bind_op (container_size proc name) (\<lambda>n.
                      return_op (''sandbox '' @ name @ '' '' @ reach @ '' (''
                        @ (case n of Some n \<Rightarrow> n | None \<Rightarrow> ''new'') @ '')''))))
          | None \<Rightarrow>
              bind_op (image_exists proc (sandbox_image sb)) (\<lambda>built.
                if \<not> built then
                  raise_op (''sandbox image '' @ py_repr (sandbox_image sb) @ '' is not built. Run 'make sandbox-image', ''
                    @ ''or pass --sandbox-image with one you already have.'')
                else
                  bind_op (create_container realpath proc fs user name sb) (\<lambda>_.
                    bind_op (actual_reach proc name) (\<lambda>reach.
                      return_op (''sandbox '' @ name @ '' created from '' @ sandbox_image sb @ '' '' @ reach))))))"

definition wipe :: "(string \<Rightarrow> string) \<Rightarrow> (string \<Rightarrow> bool) \<Rightarrow> 'd docker \<Rightarrow> docker_sandbox \<Rightarrow> ('d, bool) op" where
  "wipe sha256 which proc sb =
     (let name = sandbox_name sha256 sb in
      if \<not> which ''docker'' then raise_op ''docker is not on PATH.''
      else
        bind_op (container_state proc name) (\<lambda>state.
          case state of
            None \<Rightarrow> return_op False
          | Some st \<Rightarrow> bind_op (docker proc [''rm'', ''--force'', ''--volumes'', name]) (\<lambda>_. return_op True)))"

section \<open>What the container can reach\<close>

text \<open>
  How docker reads the arguments of \<open>run --detach\<close>: options with a value each, up to the first
  word that is no option, which is the image, with the command after it.
\<close>

fun run_options :: "string list \<Rightarrow> (string \<times> string) list \<times> string list" where
  "run_options (opt # v # rest) =
     (if prefix ''--'' opt then (let (options, command) = run_options rest in ((opt, v) # options, command))
      else ([], opt # v # rest))"
| "run_options rest = ([], rest)"

definition option_values :: "string \<Rightarrow> string list \<Rightarrow> string list" where
  "option_values opt args = map snd (filter (\<lambda>(k, v). k = opt) (fst (run_options (drop 2 args))))"

lemma run_options_volumes:
  "run_options (concat (map (\<lambda>d. [''--volume'', f d]) ds) @ rest) =
     (map (\<lambda>d. (''--volume'', f d)) ds @ fst (run_options rest), snd (run_options rest))"
  by (induction ds) (auto split: prod.splits)

lemma run_options_end: "\<not> prefix ''--'' img \<Longrightarrow> run_options [img, ''sleep'', ''infinity''] = ([], [img, ''sleep'', ''infinity''])"
  by simp

text \<open>
  The container sees the workspace and nothing else of this machine: of the options it is
  created with, the volumes are the workspace and an empty one over each masked directory
  that exists, it is cut off the network unless asked otherwise, and what it runs is the
  image, doing nothing.
\<close>

theorem sandbox_confined:
  assumes "\<not> prefix ''--'' (sandbox_image sb)"
  shows "option_values ''--volume'' (create_arguments realpath fs user name sb) =
      (path_str (sandbox_root sb) @ '':/workspace'')
        # map (\<lambda>d. ''/workspace/'' @ d) (filter (\<lambda>d. exists_path fs (realpath (sandbox_root sb @ [d]))) MASKED) \<and>
    option_values ''--network'' (create_arguments realpath fs user name sb) = (if sandbox_network sb then [] else [''none'']) \<and>
    snd (run_options (drop 2 (create_arguments realpath fs user name sb))) = [sandbox_image sb, ''sleep'', ''infinity'']"
proof -
  let ?masked = "filter (\<lambda>d. exists_path fs (realpath (sandbox_root sb @ [d]))) MASKED"
  have opts: "run_options (drop 2 (create_arguments realpath fs user name sb)) =
      ([(''--name'', name), (''--volume'', path_str (sandbox_root sb) @ '':'' @ WORKSPACE), (''--workdir'', WORKSPACE),
        (''--user'', user), (''--env'', ''HOME=/tmp''), (''--label'', ''app=assist-sandbox'')]
       @ map (\<lambda>d. (''--volume'', WORKSPACE @ ''/'' @ d)) ?masked @ (if sandbox_network sb then [] else [(''--network'', ''none'')]),
       [sandbox_image sb, ''sleep'', ''infinity''])"
    using assms by (simp add: create_arguments_def run_options_volumes)
  have "filter (\<lambda>(k, v). k = ''--volume'') (map (\<lambda>d. (''--volume'', WORKSPACE @ ''/'' @ d)) ds) =
      map (\<lambda>d. (''--volume'', WORKSPACE @ ''/'' @ d)) ds"
    "filter (\<lambda>(k, v). k = ''--network'') (map (\<lambda>d. (''--volume'', WORKSPACE @ ''/'' @ d)) ds) = []" for ds
    by (induction ds) simp_all
  with opts show ?thesis by (simp add: option_values_def WORKSPACE_def)
qed

theorem sandbox_confined_witness:
  "option_values ''--network'' (create_arguments lexical sample_fs ''0:0'' ''assist-0''
     \<lparr>sandbox_root = [''repo''], sandbox_image = DEFAULT_IMAGE, sandbox_network = False\<rparr>) = [''none'']"
  using sandbox_confined[of "\<lparr>sandbox_root = [''repo''], sandbox_image = DEFAULT_IMAGE, sandbox_network = False\<rparr>" lexical sample_fs "''0:0''" "''assist-0''"]
  by (simp add: DEFAULT_IMAGE_def)

section \<open>Containers are kept\<close>

text \<open>Docker with a record of what it was asked, oldest first; an answer may depend on all of it.\<close>

definition recording :: "(string list list \<Rightarrow> process) \<Rightarrow> string list list docker" where
  "recording answer args asked = (answer (asked @ [args]), asked @ [args])"

text \<open>\<open>m\<close> only adds commands to the record, and only such as \<open>A\<close> allows.\<close>

definition asks :: "(string list \<Rightarrow> bool) \<Rightarrow> (string list list, 'a) op \<Rightarrow> bool" where
  "asks A m \<longleftrightarrow> (\<forall>asked. \<exists>new. snd (m asked) = asked @ new \<and> (\<forall>args \<in> set new. A args))"

lemma asks_return: "asks A (return_op x)" and asks_raise: "asks A (raise_op e)"
  by (simp_all add: asks_def return_op_def raise_op_def)

lemma asks_docker: "A args \<Longrightarrow> asks A (docker (recording answer) args)"
  by (simp add: asks_def docker_def recording_def split: process.split)

lemma asks_bind [intro]:
  assumes "asks A m" and "\<And>x. asks A (f x)"
  shows "asks A (bind_op m f)"
  unfolding asks_def
proof
  fix asked
  obtain new where new: "snd (m asked) = asked @ new" "\<forall>args \<in> set new. A args"
    using assms(1) by (auto simp: asks_def)
  show "\<exists>new. snd (bind_op m f asked) = asked @ new \<and> (\<forall>args \<in> set new. A args)"
  proof (cases "fst (m asked)")
    case (Inl e)
    with new show ?thesis by (intro exI[of _ new]) (cases "m asked", simp add: bind_op_def)
  next
    case (Inr x)
    obtain more where "snd (f x (asked @ new)) = (asked @ new) @ more" "\<forall>args \<in> set more. A args"
      using assms(2)[of x] by (auto simp: asks_def simp del: append_assoc)
    with new Inr show ?thesis
      by (intro exI[of _ "new @ more"]) (cases "m asked", auto simp: bind_op_def)
  qed
qed

lemma asks_if: "(b \<Longrightarrow> asks A m) \<Longrightarrow> (\<not> b \<Longrightarrow> asks A n) \<Longrightarrow> asks A (if b then m else n)"
  by simp

lemmas asks_intros = asks_if asks_bind asks_return asks_raise asks_docker

lemmas op_defs = container_state_def container_size_def image_exists_def network_mode_def actual_reach_def
  check_reusable_def create_container_def

definition allowed :: "string list \<Rightarrow> string list \<Rightarrow> bool" where
  "allowed verbs args \<longleftrightarrow> hd args \<in> set verbs"

definition use_container :: "'d docker \<Rightarrow> string \<Rightarrow> string \<Rightarrow> ('d, string) op" where
  "use_container proc name st =
     (if st \<noteq> ''running'' then
        bind_op (docker proc [''start'', name]) (\<lambda>_.
          bind_op (actual_reach proc name) (\<lambda>reach. return_op (''sandbox '' @ name @ '' restarted '' @ reach)))
      else
        bind_op (actual_reach proc name) (\<lambda>reach.
          bind_op (container_size proc name) (\<lambda>n.
            return_op (''sandbox '' @ name @ '' '' @ reach @ '' (''
              @ (case n of Some n \<Rightarrow> n | None \<Rightarrow> ''new'') @ '')''))))"

lemma use_container_asks: "asks (allowed [''ps'', ''inspect'', ''start'']) (use_container (recording answer) name st)"
  unfolding use_container_def op_defs by (intro asks_intros; simp add: allowed_def)

lemma asks_weaken: "asks A m \<Longrightarrow> (\<And>args. A args \<Longrightarrow> B args) \<Longrightarrow> asks B m"
  unfolding asks_def by meson

lemma check_reusable_asks: "asks (allowed [''inspect'']) (check_reusable (recording answer) name net)"
  unfolding op_defs by (intro asks_intros; simp add: allowed_def)

lemma asks_run:
  assumes "asks A m" and "m asked = (r, asked')"
  obtains new where "asked' = asked @ new" "\<forall>args \<in> set new. A args"
  using assms by (metis asks_def snd_conv)

text \<open>What \<open>ensure_ready\<close> does once docker has answered whether there is a container.\<close>

definition build_container ::
  "(path \<Rightarrow> path) \<Rightarrow> 'd docker \<Rightarrow> fs \<Rightarrow> string \<Rightarrow> string \<Rightarrow> docker_sandbox \<Rightarrow> ('d, string) op" where
  "build_container realpath proc fs user name sb =
     bind_op (image_exists proc (sandbox_image sb)) (\<lambda>built.
       if \<not> built then
         raise_op (''sandbox image '' @ py_repr (sandbox_image sb) @ '' is not built. Run 'make sandbox-image', ''
           @ ''or pass --sandbox-image with one you already have.'')
       else
         bind_op (create_container realpath proc fs user name sb) (\<lambda>_.
           bind_op (actual_reach proc name) (\<lambda>reach.
             return_op (''sandbox '' @ name @ '' created from '' @ sandbox_image sb @ '' '' @ reach))))"

lemma build_container_asks:
  "asks (allowed [''images'', ''run'', ''inspect'']) (build_container realpath (recording answer) fs user name sb)"
  unfolding build_container_def op_defs by (intro asks_intros; simp add: allowed_def create_arguments_def)

lemma ensure_ready_parts:
  "ensure_ready realpath sha256 which proc fs user sb =
     (let name = sandbox_name sha256 sb in
      if \<not> which ''docker'' then raise_op ''--sandbox needs docker on PATH, and it is not there.''
      else bind_op (container_state proc name) (\<lambda>state.
        case state of
          Some st \<Rightarrow> bind_op (check_reusable proc name (sandbox_network sb)) (\<lambda>_. use_container proc name st)
        | None \<Rightarrow> build_container realpath proc fs user name sb))"
  unfolding ensure_ready_def use_container_def build_container_def ..

lemma container_state_answer:
  assumes "container_state (recording answer) name [] = (r, asked)"
  obtains args where "asked = [args]" "hd args = ''ps''"
    "r = Inr None \<Longrightarrow> \<exists>p. answer [args] = Finished p \<and> py_strip (stdout p) = []"
    "\<And>st. r = Inr (Some st) \<Longrightarrow> \<exists>p. answer [args] = Finished p \<and> py_strip (stdout p) \<noteq> []"
  using assms that
  by (auto simp: container_state_def bind_op_def docker_def recording_def return_op_def Let_def
      split: process.splits if_splits)

lemma check_reusable_answer:
  assumes "check_reusable (recording answer) name True asked = (Inr u, asked')"
  obtains args p where "asked' = asked @ [args]" "answer (asked @ [args]) = Finished p" "py_strip (stdout p) \<noteq> ''none''"
  using assms that
  by (auto simp: check_reusable_def network_mode_def bind_op_def docker_def recording_def return_op_def raise_op_def
      split: process.splits if_splits)

text \<open>
  C19. Getting a sandbox ready destroys nothing: a container that exists is used as it is,
  started if it has stopped, and a new one is created only when docker lists none. And
  network that was asked for is there: an existing container that has none is refused.
\<close>

theorem ensure_ready_keeps_containers:
  assumes "ensure_ready realpath sha256 which (recording answer) fs user sb [] = (result, asked)"
  shows "(\<forall>args \<in> set asked. hd args \<in> {''ps'', ''inspect'', ''start'', ''images'', ''run''}) \<and>
    (\<forall>args \<in> set asked. hd args = ''run'' \<longrightarrow>
       (\<exists>p. answer [hd asked] = Finished p \<and> py_strip (stdout p) = [])) \<and>
    (\<forall>line p. result = Inr line \<longrightarrow> sandbox_network sb \<longrightarrow> answer [hd asked] = Finished p \<longrightarrow> py_strip (stdout p) \<noteq> [] \<longrightarrow>
       (\<exists>mode. answer (take 2 asked) = Finished mode \<and> py_strip (stdout mode) \<noteq> ''none''))"
proof (cases "which ''docker''")
  case False
  with assms show ?thesis by (auto simp: ensure_ready_parts raise_op_def)
next
  case True
  let ?name = "sandbox_name sha256 sb"
  obtain r asked1 where first: "container_state (recording answer) ?name [] = (r, asked1)" by fastforce
  from container_state_answer[OF first] obtain args where a: "asked1 = [args]" "hd args = ''ps''"
    "r = Inr None \<Longrightarrow> \<exists>p. answer [args] = Finished p \<and> py_strip (stdout p) = []"
    "\<And>st. r = Inr (Some st) \<Longrightarrow> \<exists>p. answer [args] = Finished p \<and> py_strip (stdout p) \<noteq> []" by metis
  consider e where "r = Inl e" | "r = Inr None" | st where "r = Inr (Some st)"
    by (metis sum.exhaust option.exhaust)
  then show ?thesis
  proof cases
    case (1 e)
    with assms True first a show ?thesis by (auto simp: ensure_ready_parts Let_def bind_op_def)
  next
    case 2
    with assms True first have "build_container realpath (recording answer) fs user ?name sb asked1 = (result, asked)"
      by (simp add: ensure_ready_parts Let_def bind_op_def)
    from asks_run[OF build_container_asks this] a obtain new where "asked = args # new"
      "\<forall>args \<in> set new. allowed [''images'', ''run'', ''inspect''] args" by auto
    with a(2) a(3)[OF 2] show ?thesis by (auto simp: allowed_def)
  next
    case (3 st)
    let ?rest = "bind_op (check_reusable (recording answer) ?name (sandbox_network sb)) (\<lambda>_. use_container (recording answer) ?name st)"
    have rest: "?rest asked1 = (result, asked)"
      using assms True first 3 by (simp add: ensure_ready_parts Let_def bind_op_def)
    have "asks (allowed [''ps'', ''inspect'', ''start'']) ?rest"
      by (intro asks_bind use_container_asks asks_weaken[OF check_reusable_asks]) (auto simp: allowed_def)
    from asks_run[OF this rest] a obtain new where new: "asked = args # new"
      "\<forall>args \<in> set new. allowed [''ps'', ''inspect'', ''start''] args" by auto
    have "\<exists>mode. answer (take 2 asked) = Finished mode \<and> py_strip (stdout mode) \<noteq> ''none''"
      if line: "result = Inr line" and net: "sandbox_network sb" for line
    proof -
      obtain asked2 where c: "check_reusable (recording answer) ?name True asked1 = (Inr (), asked2)"
        "use_container (recording answer) ?name st asked2 = (result, asked)"
        using rest line net by (auto simp: bind_op_def split: prod.splits sum.splits)
      from check_reusable_answer[OF c(1)] a obtain args2 p where "asked2 = [args, args2]"
        "answer [args, args2] = Finished p" "py_strip (stdout p) \<noteq> ''none''" by auto
      moreover from asks_run[OF use_container_asks c(2)] obtain more where "asked = asked2 @ more" by blast
      ultimately show ?thesis by simp
    qed
    with new a(2) show ?thesis by (auto simp: allowed_def)
  qed
qed

text \<open>A stopped container without network, when network is asked for.\<close>

definition offline_docker :: "string list list \<Rightarrow> process" where
  "offline_docker asked =
     Finished \<lparr>returncode = 0, stdout = (if hd (last asked) = ''ps'' then ''exited'' else ''none''), stderr = []\<rparr>"

theorem ensure_ready_keeps_containers_witness:
  "let run = ensure_ready lexical (\<lambda>_. ''0123456789abcdef'') (\<lambda>_. True) (recording offline_docker) sample_fs ''0:0''
       \<lparr>sandbox_root = [''repo''], sandbox_image = DEFAULT_IMAGE, sandbox_network = True\<rparr> []
   in isl (fst run) \<and> (\<forall>args \<in> set (snd run). hd args \<noteq> ''rm'')"
proof -
  let ?run = "ensure_ready lexical (\<lambda>_. ''0123456789abcdef'') (\<lambda>_. True) (recording offline_docker) sample_fs ''0:0''
       \<lparr>sandbox_root = [''repo''], sandbox_image = DEFAULT_IMAGE, sandbox_network = True\<rparr> []"
  have "isl (fst ?run)" by code_simp
  moreover have "?run = (fst ?run, snd ?run)" by simp
  note facts = ensure_ready_keeps_containers[OF this]
  from facts have "\<forall>args \<in> set (snd ?run). hd args \<noteq> ''rm''" by force
  ultimately show ?thesis unfolding Let_def by blast
qed

end
