(* ===== verification/Tools.thy ===== *)
theory Tools
  imports Edits Sandbox Json_Codec
begin

text \<open>
  \<open>llm_assistant_agent/tools.py\<close>: the tools the model is given. A call has a name and a
  dictionary of arguments; it works on the file system, the workspace and the checkers,
  and returns text for the model. What surrounds it is a record of parameters: the
  operating system (links, directory listings, running a command), git, difflib, regular
  expressions and globs, the document readers, and the wording of the exceptions of the
  standard library that are shown to the model.
\<close>

section \<open>What a tool returns, and what surrounds it\<close>

record tool_outcome =
  outcome_content :: string
  outcome_diff :: "string option"
  outcome_path :: "string option"
  outcome_is_error :: bool
  outcome_findings :: "string option"

record tool_env =
  env_realpath :: "path \<Rightarrow> path"
  env_listing :: "fs \<Rightarrow> path \<Rightarrow> path list"
  env_git :: "fs \<Rightarrow> git"
  env_difflib :: difflib
  env_regex :: "string \<Rightarrow> string + (string \<Rightarrow> bool)"
  env_fnmatch :: "string \<Rightarrow> string \<Rightarrow> bool"
  env_describe :: "fs \<Rightarrow> path \<Rightarrow> string"
  env_extract_text :: "fs \<Rightarrow> path \<Rightarrow> string"
  env_compile :: "string \<Rightarrow> compile_result"
  env_shell :: shell
  env_execute :: "execution \<Rightarrow> int \<Rightarrow> fs \<Rightarrow> process \<times> fs"
  env_sha256 :: "string \<Rightarrow> string"
  env_sandbox :: sandbox
  env_os_error :: string
  env_decode_error :: string

definition env_unified_diff :: "tool_env \<Rightarrow> string \<Rightarrow> string \<Rightarrow> string \<Rightarrow> string" where
  "env_unified_diff E = unified_diff (env_difflib E)"

text \<open>The state a tool works on.\<close>

record toolbox =
  box_fs :: fs
  box_workspace :: workspace
  box_checks :: checks

definition answer :: "string \<Rightarrow> tool_outcome" where
  "answer content =
     \<lparr>outcome_content = content, outcome_diff = None, outcome_path = None, outcome_is_error = False,
      outcome_findings = None\<rparr>"

definition failed :: "string \<Rightarrow> tool_outcome" where
  "failed content = (answer content)\<lparr>outcome_is_error := True\<rparr>"

text \<open>
  What a handler does: return an outcome, raise something \<open>invoke\<close> turns into the message
  given, or raise what nobody catches (None).
\<close>

type_synonym handled = "((string + tool_outcome) \<times> toolbox) option"

definition DECLINED :: string where
  "DECLINED = ''The user declined this one call. That is all it means: it is not a standing ''
     @ ''rule, and it puts no file or kind of change off limits. Do not infer a ''
     @ ''restriction from it. Ask what they would prefer, or continue without it.''"

definition MAX_MATCHES :: nat where "MAX_MATCHES = 100"
definition MAX_LISTED_FILES :: nat where "MAX_LISTED_FILES = 200"
definition MAX_DIFF_CHARS :: nat where "MAX_DIFF_CHARS = 20000"
definition MAX_NAMED_BASELINE :: nat where "MAX_NAMED_BASELINE = 10"
definition DEFAULT_WINDOW :: int where "DEFAULT_WINDOW = 100"

text \<open>\<open>str(arguments.get(key, default))\<close>.\<close>

definition text_argument :: "dict \<Rightarrow> string \<Rightarrow> string \<Rightarrow> string" where
  "text_argument d key otherwise = (if dict_has d key then json_str (dict_get d key) else otherwise)"

section \<open>Commands that discard work\<close>

text \<open>
  \<open>\bgit\s+(?:checkout\b|restore\b|reset\b(?!\s+--soft\b)|clean\b|stash\b(?!\s+list\b))\<close>,
  matched at one place after another. A word boundary lies between a word character and
  something else.
\<close>

definition word_stops :: "string \<Rightarrow> bool" where
  "word_stops rest \<longleftrightarrow> rest = [] \<or> \<not> is_word_char (hd rest)"

definition starts_word :: "string \<Rightarrow> string \<Rightarrow> bool" where
  "starts_word w s \<longleftrightarrow> prefix w s \<and> word_stops (drop (length w) s)"

definition then_word :: "string \<Rightarrow> string \<Rightarrow> bool" where
  "then_word w s \<longleftrightarrow> s \<noteq> [] \<and> py_isspace (hd s) \<and> starts_word w (dropWhile py_isspace s)"

definition destructive_at :: "string \<Rightarrow> bool" where
  "destructive_at s \<longleftrightarrow>
     prefix ''git'' s \<and>
     (let rest = drop 3 s; verb = dropWhile py_isspace rest in
      rest \<noteq> [] \<and> py_isspace (hd rest) \<and>
      (starts_word ''checkout'' verb \<or> starts_word ''restore'' verb \<or>
       starts_word ''reset'' verb \<and> \<not> then_word ''--soft'' (drop 5 verb) \<or>
       starts_word ''clean'' verb \<or>
       starts_word ''stash'' verb \<and> \<not> then_word ''list'' (drop 5 verb)))"

fun destructive_from :: "bool \<Rightarrow> string \<Rightarrow> bool" where
  "destructive_from after_word [] = False"
| "destructive_from after_word (c # cs) =
     (\<not> after_word \<and> destructive_at (c # cs) \<or> destructive_from (is_word_char c) cs)"

definition discards_work :: "string \<Rightarrow> bool" where
  "discards_work command = destructive_from False command"

section \<open>Line ranges\<close>

definition RANGE_ALIASES :: "(string \<times> string) list" where
  "RANGE_ALIASES = [(''begin'', ''end''), (''start_line'', ''end_line''), (''start'', ''end''), (''from_line'', ''to_line'')]"

definition LENGTH_ALIASES :: "(string \<times> string) list" where
  "LENGTH_ALIASES = [(''offset'', ''length''), (''offset'', ''limit''), (''start'', ''count'')]"

definition PAIR_ALIASES :: "string list" where
  "PAIR_ALIASES = [''range'', ''lines'', ''line_range'']"

definition as_line_number :: "json \<Rightarrow> string \<Rightarrow> string + int" where
  "as_line_number value field =
     (case (case value of
              JInt i \<Rightarrow> Inr i
            | JFloat t \<Rightarrow> (case float_integer t of Some i \<Rightarrow> Inr i
                             | None \<Rightarrow> Inl (''read_file: '' @ field @ '' must be a line number.''))
            | JStr s \<Rightarrow> (case py_int s of Some i \<Rightarrow> Inr i
                             | None \<Rightarrow> Inl (''read_file: '' @ field @ '' must be a line number, not '' @ py_repr s @ ''.''))
            | _ \<Rightarrow> Inl (''read_file: '' @ field @ '' must be a line number.'')) of
        Inl e \<Rightarrow> Inl e
      | Inr n \<Rightarrow>
          if n < 1 then Inl (''read_file: '' @ field @ '' must be 1 or more; lines count from 1.'')
          else Inr n)"

definition given :: "dict \<Rightarrow> string \<Rightarrow> bool" where
  "given d key \<longleftrightarrow> dict_get d key \<noteq> JNull"

type_synonym window = "(int \<times> int) option"

fun range_window :: "dict \<Rightarrow> (string \<times> string) list \<Rightarrow> (string + window) option" where
  "range_window d [] = None"
| "range_window d ((first_key, last_key) # aliases) =
     (if \<not> given d first_key \<and> \<not> given d last_key then range_window d aliases
      else Some
        (case (if given d first_key then as_line_number (dict_get d first_key) first_key else Inr 1) of
           Inl e \<Rightarrow> Inl e
         | Inr first \<Rightarrow>
             (case (if given d last_key then as_line_number (dict_get d last_key) last_key
                    else Inr (first + DEFAULT_WINDOW - 1)) of
                Inl e \<Rightarrow> Inl e
              | Inr final \<Rightarrow>
                  if final < first
                  then Inl (''read_file: '' @ last_key @ '' ('' @ str_int final @ '') is before '' @ first_key
                         @ '' ('' @ str_int first @ '').'')
                  else Inr (Some (first, final)))))"

fun length_window :: "dict \<Rightarrow> (string \<times> string) list \<Rightarrow> (string + window) option" where
  "length_window d [] = None"
| "length_window d ((first_key, count_key) # aliases) =
     (if \<not> given d first_key \<or> \<not> given d count_key then length_window d aliases
      else Some
        (case as_line_number (dict_get d first_key) first_key of
           Inl e \<Rightarrow> Inl e
         | Inr first \<Rightarrow>
             (case as_line_number (dict_get d count_key) count_key of
                Inl e \<Rightarrow> Inl e
              | Inr n \<Rightarrow> Inr (Some (first, first + n - 1)))))"

text \<open>
  The inner None is what \<open>json.loads\<close> raises that is no \<open>JSONDecodeError\<close>, which the string
  model leaves open.
\<close>

fun pair_window :: "dict \<Rightarrow> string list \<Rightarrow> (string + window) option" where
  "pair_window d [] = Some (Inr None)"
| "pair_window d (key # aliases) =
     (case (case dict_get d key of
              JStr s \<Rightarrow> (case json_loads s of
                           Inr v \<Rightarrow> Some (Inr v)
                         | Inl (Decode_error m) \<Rightarrow> Some (Inl (''read_file: could not read '' @ key @ ''='' @ py_repr s @ ''.''))
                         | Inl _ \<Rightarrow> None)
            | v \<Rightarrow> Some (Inr v)) of
        None \<Rightarrow> None
      | Some (Inl e) \<Rightarrow> Some (Inl e)
      | Some (Inr (JArr [a, b])) \<Rightarrow>
          Some (case as_line_number a (key @ ''[0]'') of
                  Inl e \<Rightarrow> Inl e
                | Inr first \<Rightarrow>
                    (case as_line_number b (key @ ''[1]'') of
                       Inl e \<Rightarrow> Inl e
                     | Inr final \<Rightarrow>
                         if final < first
                         then Inl (''read_file: '' @ key @ '' ends ('' @ str_int final @ '') before it begins (''
                                @ str_int first @ '').'')
                         else Inr (Some (first, final))))
      | _ \<Rightarrow> pair_window d aliases)"

definition line_window :: "dict \<Rightarrow> (string + window) option" where
  "line_window d =
     (case range_window d RANGE_ALIASES of
        Some r \<Rightarrow> Some r
      | None \<Rightarrow>
          (case length_window d LENGTH_ALIASES of
             Some r \<Rightarrow> Some r
           | None \<Rightarrow> pair_window d PAIR_ALIASES))"

section \<open>Approval\<close>

text \<open>\<open>target.read_text(encoding="utf-8") if target.is_file() else ""\<close>: None when it is no UTF-8.\<close>

definition text_before :: "fs \<Rightarrow> path \<Rightarrow> string option" where
  "text_before fs target =
     (case fs target of
        Some (File source utf8 t) \<Rightarrow> if utf8 then Some (universal_newlines source) else None
      | _ \<Rightarrow> Some [])"

definition edit_approval :: "tool_env \<Rightarrow> string \<Rightarrow> dict \<Rightarrow> toolbox \<Rightarrow> (string \<times> string) option" where
  "edit_approval E name d box =
     (let path = text_argument d ''path'' []; ws = box_workspace box in
      if path = [] then None
      else
        (case resolve (env_realpath E) ws path of
           Inl e \<Rightarrow> None
         | Inr target \<Rightarrow>
             (case text_before (box_fs box) target of
                None \<Rightarrow> None
              | Some before \<Rightarrow>
                  (case (if name = ''write_file''
                         then Some (text_argument d ''content'' [], if before \<noteq> [] then ''Overwrite'' else ''Create'')
                         else if target \<notin> seen ws then None
                         else (case apply_edit before (text_argument d ''old_string'' []) (text_argument d ''new_string'' [])
                                      (truthy (dict_get d ''replace_all'')) False of
                                 Inl e \<Rightarrow> None
                               | Inr text \<Rightarrow> Some (text, ''Edit''))) of
                     None \<Rightarrow> None
                   | Some (text, verb) \<Rightarrow>
                       (let diff = env_unified_diff E before text path in
                        if diff = [] then None else Some (verb @ '' '' @ path, diff))))))"

definition approval_request :: "tool_env \<Rightarrow> string \<Rightarrow> dict \<Rightarrow> toolbox \<Rightarrow> (string \<times> string) option" where
  "approval_request E name d box =
     (if name = ''run'' then
        (let command = py_strip (text_argument d ''command'' []) in
         if command = [] then None
         else
           (let line = ''Run a shell command '' @ sandbox_label (env_sha256 E) (env_sandbox E) in
            Some (if discards_work command
                  then line @ '' - this would DISCARD uncommitted changes, which cannot be recovered'' else line,
                  command)))
      else if name = ''edit_file'' \<or> name = ''write_file'' then edit_approval E name d box
      else None)"

section \<open>Looking around\<close>

definition IGNORED_DIRECTORIES :: "string list" where
  "IGNORED_DIRECTORIES = [''.git'', ''.venv'', ''venv'', ''node_modules'', ''__pycache__'', ''.mypy_cache'',
     ''.pytest_cache'', ''.ruff_cache'', ''dist'', ''build'', ''.terraform'']"

definition walk :: "tool_env \<Rightarrow> fs \<Rightarrow> workspace \<Rightarrow> path list" where
  "walk E fs ws =
     filter (\<lambda>p. fs (env_realpath E p) \<noteq> Some Directory \<and>
               \<not> list_ex (\<lambda>part. part \<in> set IGNORED_DIRECTORIES) (drop (length (root ws)) p))
       (sort (env_listing E fs (root ws)))"

definition list_files :: "tool_env \<Rightarrow> dict \<Rightarrow> toolbox \<Rightarrow> tool_outcome" where
  "list_files E d box =
     (let ws = box_workspace box;
          every = map (relative ws) (walk E (box_fs box) ws);
          paths = (case dict_get d ''pattern'' of
                     JStr pattern \<Rightarrow> if pattern = [] then every else filter (\<lambda>p. env_fnmatch E p pattern) every
                   | _ \<Rightarrow> every)
      in if paths = [] then answer ''No files matched.''
         else answer (py_join [NL] (take MAX_LISTED_FILES paths)
                @ (if length paths > MAX_LISTED_FILES
                   then [NL] @ ''... and '' @ str_nat (length paths - MAX_LISTED_FILES) @ '' more. Narrow the pattern.''
                   else [])))"

definition grep_file :: "tool_env \<Rightarrow> (string \<Rightarrow> bool) \<Rightarrow> fs \<Rightarrow> workspace \<Rightarrow> path \<Rightarrow> string list" where
  "grep_file E hit fs ws p =
     (case fs (env_realpath E p) of
        Some (File source True t) \<Rightarrow>
          map (\<lambda>(number, line). relative ws p @ '':'' @ str_nat number @ '': '' @ take 200 (py_strip line))
            (filter (\<lambda>(number, line). hit line) (enumerate 1 (py_splitlines (universal_newlines source))))
      | _ \<Rightarrow> [])"

definition grep :: "tool_env \<Rightarrow> dict \<Rightarrow> toolbox \<Rightarrow> tool_outcome" where
  "grep E d box =
     (case dict_get d ''pattern'' of
        JStr expression \<Rightarrow>
          (if expression = [] then failed ''grep needs a 'pattern'.''
           else
             (case env_regex E expression of
                Inl e \<Rightarrow> failed (''Invalid regular expression: '' @ e)
              | Inr hit \<Rightarrow>
                  (let ws = box_workspace box;
                       searched = filter (\<lambda>p. case dict_get d ''glob'' of
                           JStr glob \<Rightarrow> glob = [] \<or> env_fnmatch E (relative ws p) glob | _ \<Rightarrow> True)
                         (walk E (box_fs box) ws);
                       matches = concat (map (grep_file E hit (box_fs box) ws) searched)
                   in if length matches \<ge> MAX_MATCHES
                      then answer (py_join [NL] (take MAX_MATCHES matches
                             @ [''... stopped at '' @ str_nat MAX_MATCHES @ '' matches.'']))
                      else answer (if matches = [] then ''No matches.'' else py_join [NL] matches))))
      | _ \<Rightarrow> failed ''grep needs a 'pattern'.'')"

section \<open>Reading\<close>

definition DOCUMENT_SUFFIXES :: "string list" where
  "DOCUMENT_SUFFIXES = [''.pdf'', ''.csv'', ''.tsv'', ''.xlsx'', ''.xlsm'']"

text \<open>The message of what \<open>invoke\<close> catches.\<close>

definition raised :: "tool_env \<Rightarrow> workspace_error \<Rightarrow> string" where
  "raised E e = (case e of WorkspaceError m \<Rightarrow> m | OSError \<Rightarrow> env_os_error E)"

definition read_document :: "tool_env \<Rightarrow> dict \<Rightarrow> toolbox \<Rightarrow> handled" where
  "read_document E d box =
     (let path = text_argument d ''path'' [] in
      case resolve (env_realpath E) (box_workspace box) path of
        Inl e \<Rightarrow> Some (Inl (raised E e), box)
      | Inr target \<Rightarrow>
          if \<not> is_file (box_fs box) target
          then Some (Inr (failed (path @ '' does not exist or is not a file.'')), box)
          else Some (Inr ((answer (if truthy (dict_get d ''full'') then env_extract_text E (box_fs box) target
                                   else env_describe E (box_fs box) target))\<lparr>outcome_path := Some path\<rparr>), box))"

definition numbered_line :: "nat \<Rightarrow> string \<Rightarrow> string" where
  "numbered_line number line =
     replicate (6 - length (str_nat number)) (CHR '' '') @ str_nat number @ [TAB] @ line"

text \<open>Lines \<open>first\<close> to \<open>final\<close>, counting from 1, with their numbers.\<close>

definition numbered :: "string list \<Rightarrow> nat \<Rightarrow> nat \<Rightarrow> string" where
  "numbered lines first final =
     py_join [NL] (map (\<lambda>number. numbered_line number (lines ! (number - 1))) [first..<final + 1])"

definition read_file :: "tool_env \<Rightarrow> dict \<Rightarrow> toolbox \<Rightarrow> handled" where
  "read_file E d box =
     (let path = text_argument d ''path'' [] in
      if list_ex (\<lambda>x. suffix x (py_lower path)) DOCUMENT_SUFFIXES
      then Some (Inr (failed (path @ '' is not a text file. Use read_document to see its structure.'')), box)
      else
        (case line_window d of
           None \<Rightarrow> None
         | Some (Inl e) \<Rightarrow> Some (Inr (failed e), box)
         | Some (Inr window) \<Rightarrow>
             (case read_file_text (env_realpath E) (box_fs box) path (window \<noteq> None) (box_workspace box) of
                (Inl e, ws) \<Rightarrow> Some (Inl (raised E e), box\<lparr>box_workspace := ws\<rparr>)
              | (Inr content, ws) \<Rightarrow>
                  (let box = box\<lparr>box_workspace := ws\<rparr>; lines = py_splitlines content in
                   if lines = [] then Some (Inr ((answer ''(empty file)'')\<lparr>outcome_path := Some path\<rparr>), box)
                   else
                     (case window of
                        None \<Rightarrow> Some (Inr ((answer (numbered lines 1 (length lines)))\<lparr>outcome_path := Some path\<rparr>), box)
                      | Some (first, final) \<Rightarrow>
                          if first > int (length lines)
                          then Some (Inr (failed (path @ '' has only '' @ str_nat (length lines) @ '' lines, so line ''
                                 @ str_int first @ '' is past the end.'')), box)
                          else
                            (let final = min final (int (length lines)) in
                             Some (Inr ((answer (path @ '', lines '' @ str_int first @ ''-'' @ str_int final @ '' of ''
                                 @ str_nat (length lines) @ '':'' @ [NL] @ numbered lines (nat first) (nat final)))
                               \<lparr>outcome_path := Some path\<rparr>), box)))))))"

section \<open>Changing files\<close>

definition checked :: "tool_env \<Rightarrow> string \<Rightarrow> string \<Rightarrow> string \<Rightarrow> toolbox \<Rightarrow> handled" where
  "checked E confirmation path diff box =
     (case run_checks (env_realpath E) (env_compile E) (env_shell E) (root (box_workspace box)) path
             (box_checks box, box_fs box) of
        None \<Rightarrow> None
      | Some (findings, cs, fs) \<Rightarrow>
          (let done = (answer confirmation)\<lparr>outcome_diff := Some diff, outcome_path := Some path\<rparr> in
           Some (Inr (if findings = [] then done
                      else done\<lparr>outcome_content := confirmation @ [NL, NL] @ ''Problems found in '' @ path
                              @ '' afterwards:'' @ [NL] @ findings @ [NL] @ ''Fix these before moving on.'',
                            outcome_findings := Some findings\<rparr>),
                 box\<lparr>box_checks := cs, box_fs := fs\<rparr>)))"

definition write_box :: "tool_env \<Rightarrow> rat \<Rightarrow> string \<Rightarrow> string \<Rightarrow> toolbox \<Rightarrow> (workspace_error + path) \<times> toolbox" where
  "write_box E now path content box =
     (let (result, fs, ws) = write_file_text (env_realpath E) now path content (box_fs box, box_workspace box)
      in (result, box\<lparr>box_fs := fs, box_workspace := ws\<rparr>))"

definition edit_file :: "tool_env \<Rightarrow> rat \<Rightarrow> dict \<Rightarrow> toolbox \<Rightarrow> handled" where
  "edit_file E now d box =
     (let path = text_argument d ''path'' []; ws = box_workspace box in
      case resolve (env_realpath E) ws path of
        Inl e \<Rightarrow> Some (Inl (raised E e), box)
      | Inr target \<Rightarrow>
          (case require_seen target path ws of
             Inl e \<Rightarrow> Some (Inl (raised E e), box)
           | Inr _ \<Rightarrow>
               (let old_string = (if dict_has d ''old_string'' then dict_get d ''old_string'' else JStr []) in
                if \<not> truthy old_string
                then Some (Inr (failed (''edit_file: old_string is required and must be non-empty. ''
                       @ ''Read '' @ path @ '' first to see its current content.'')), box)
                else
                  (let stale = target \<in> written_since_read ws in
                   case read_file_text (env_realpath E) (box_fs box) path False ws of
                     (Inl e, ws) \<Rightarrow> Some (Inl (raised E e), box\<lparr>box_workspace := ws\<rparr>)
                   | (Inr before, ws) \<Rightarrow>
                       (let box = box\<lparr>box_workspace := ws\<rparr> in
                        case old_string of
                          JStr old \<Rightarrow>
                            (if \<not> py_in old before
                             then Some (Inr (failed (''edit_file: old_string was not found in '' @ path @ ''. ''
                                    @ (if length old > 100
                                       then ''The old_string is long - ensure it matches exactly, including ''
                                         @ ''indentation and whitespace. Consider a smaller edit.''
                                       else ''Use grep to find the current content, then re-read the file.''))), box)
                             else
                               (case apply_edit before old (text_argument d ''new_string'' [])
                                       (truthy (dict_get d ''replace_all'')) stale of
                                  Inl (EditError m) \<Rightarrow> Some (Inl m, box)
                                | Inr text \<Rightarrow>
                                    (case write_box E now path text box of
                                       (Inl e, box) \<Rightarrow> Some (Inl (raised E e), box)
                                     | (Inr _, box) \<Rightarrow>
                                         checked E (''Edited '' @ path @ ''.'') path (env_unified_diff E before text path) box)))
                        | _ \<Rightarrow> None)))))"

definition write_file :: "tool_env \<Rightarrow> rat \<Rightarrow> dict \<Rightarrow> toolbox \<Rightarrow> handled" where
  "write_file E now d box =
     (let path = text_argument d ''path'' []; content = text_argument d ''content'' [] in
      case resolve (env_realpath E) (box_workspace box) path of
        Inl e \<Rightarrow> Some (Inl (raised E e), box)
      | Inr target \<Rightarrow>
          (case text_before (box_fs box) target of
             None \<Rightarrow> Some (Inl (env_decode_error E), box)
           | Some before \<Rightarrow>
               (case write_box E now path content box of
                  (Inl e, box) \<Rightarrow> Some (Inl (raised E e), box)
                | (Inr _, box) \<Rightarrow>
                    checked E ((if before \<noteq> [] then ''Updated'' else ''Created'') @ '' '' @ path @ ''.'') path
                      (env_unified_diff E before content path) box)))"

section \<open>The diff, and commands\<close>

definition is_ours :: "tool_env \<Rightarrow> workspace \<Rightarrow> string \<Rightarrow> bool" where
  "is_ours E ws rel = (case resolve (env_realpath E) ws rel of Inl e \<Rightarrow> False | Inr p \<Rightarrow> p \<in> written ws)"

definition provenance :: "tool_env \<Rightarrow> workspace \<Rightarrow> string option \<Rightarrow> string" where
  "provenance E ws only =
     (let others = sort (filter (\<lambda>rel. \<not> is_ours E ws rel) (baseline_dirty ws));
          untouched = (case only of
              None \<Rightarrow> others
            | Some path \<Rightarrow>
                (case resolve (env_realpath E) ws path of
                   Inl e \<Rightarrow> []
                 | Inr p \<Rightarrow> if relative ws p \<in> set others then [relative ws p] else []))
      in if untouched = [] then []
         else [NL, NL] @ ''Note: '' @ py_join '', '' (take MAX_NAMED_BASELINE untouched)
           @ (if length untouched \<le> MAX_NAMED_BASELINE then []
              else '', and '' @ str_nat (length untouched - MAX_NAMED_BASELINE) @ '' more'')
           @ '' already had uncommitted changes when this session ''
           @ ''started, and you have not edited them since. That part of the diff is the ''
           @ ''user's work or an earlier session's, not a mistake of yours - do not ''
           @ ''revert it.'')"

definition git_diff :: "tool_env \<Rightarrow> dict \<Rightarrow> toolbox \<Rightarrow> handled" where
  "git_diff E d box =
     (let ws = box_workspace box;
          only = (case dict_get d ''path'' of JStr path \<Rightarrow> if path = [] then None else Some path | _ \<Rightarrow> None)
      in case workspace_diff (env_realpath E) (env_git E (box_fs box)) ws only (truthy (dict_get d ''summary'')) of
           Inl e \<Rightarrow> Some (Inl (raised E e), box)
         | Inr text \<Rightarrow>
             if text = [] then Some (Inr (answer ''No uncommitted changes.''), box)
             else Some (Inr (answer
                    ((if length text > MAX_DIFF_CHARS
                      then take MAX_DIFF_CHARS text @ [NL] @ ''... diff truncated at '' @ str_nat MAX_DIFF_CHARS
                        @ '' characters. Call again with summary=true, or with a single path.''
                      else text) @ provenance E ws only)), box))"

definition run_command :: "tool_env \<Rightarrow> dict \<Rightarrow> toolbox \<Rightarrow> handled" where
  "run_command E d box =
     (let command = py_strip (text_argument d ''command'' []) in
      if command = [] then Some (Inr (failed ''run needs a 'command'.''), box)
      else
        (let timeout = dict_get d ''timeout_seconds'';
             (seconds, shown) = (case as_int timeout of
                 Some t \<Rightarrow> if 0 < t \<and> t \<le> 900 then (t, json_str timeout) else (120, ''120'')
               | None \<Rightarrow> (120, ''120''));
             execution = sandbox_prepare (env_sha256 E) (env_sandbox E) command (root (box_workspace box));
             (finished, fs) = env_execute E execution seconds (box_fs box);
             box = box\<lparr>box_fs := fs\<rparr>
         in case finished of
              Timed_Out \<Rightarrow>
                Some (Inr (failed (''Command timed out after '' @ shown @ ''s. ''
                  @ ''Consider increasing timeout_seconds (max 900) or running a narrower command.'')), box)
            | Os_Error e \<Rightarrow>
                Some (Inr (failed (''Could not run the command: '' @ e @ ''.''
                  @ (if py_in ''No such file'' e then '' Check that the command and all its arguments are correct.''
                     else if py_in ''Permission'' e then '' The command may not be executable or accessible.''
                     else []))), box)
            | Finished result \<Rightarrow>
                (let text = py_strip (stdout result @ stderr result);
                     text = (if length text > 20000 then take 20000 text @ [NL] @ ''... output truncated.'' else text)
                 in Some (Inr ((answer (''exit '' @ str_int (returncode result) @ [NL]
                        @ (if text = [] then ''(no output)'' else text)))
                      \<lparr>outcome_is_error := returncode result \<noteq> 0\<rparr>), box))))"

section \<open>Dispatch\<close>

text \<open>The properties in the schema of each tool.\<close>

definition schema_properties :: "(string \<times> string list) list" where
  "schema_properties =
     [(''list_files'', [''pattern'']),
      (''grep'', [''pattern'', ''glob'']),
      (''read_file'', [''path'', ''begin'', ''end'']),
      (''edit_file'', [''path'', ''old_string'', ''new_string'', ''replace_all'']),
      (''write_file'', [''path'', ''content'']),
      (''read_document'', [''path'', ''full'']),
      (''git_diff'', [''path'', ''summary'']),
      (''run'', [''command'', ''timeout_seconds''])]"

definition known_arguments :: "string \<Rightarrow> string list" where
  "known_arguments name =
     (case map_of schema_properties name of
        None \<Rightarrow> []
      | Some keys \<Rightarrow>
          if name = ''read_file''
          then keys @ concat (map (\<lambda>(a, b). [a, b]) (RANGE_ALIASES @ LENGTH_ALIASES)) @ PAIR_ALIASES
          else keys)"

definition noting_unknown :: "string \<Rightarrow> dict \<Rightarrow> tool_outcome \<Rightarrow> tool_outcome" where
  "noting_unknown name d outcome =
     (let unknown = sort (filter (\<lambda>k. k \<notin> set (known_arguments name)) (map fst d));
          takes = sort (remdups (known_arguments name));
          one = (length unknown = 1)
      in if unknown = [] then outcome
         else outcome\<lparr>outcome_content := outcome_content outcome @ [NL, NL] @ ''Note: '' @ name @ '' does not take ''
                @ py_join '', '' unknown @ '', so '' @ (if one then ''it was'' else ''they were'')
                @ '' ignored - what came back does not reflect '' @ (if one then ''it'' else ''them'') @ ''. ''
                @ name @ '' takes: '' @ (if takes = [] then ''nothing'' else py_join '', '' takes) @ ''.''\<rparr>)"

definition handler :: "tool_env \<Rightarrow> rat \<Rightarrow> string \<Rightarrow> (dict \<Rightarrow> toolbox \<Rightarrow> handled) option" where
  "handler E now name =
     map_of
       [(''list_files'', \<lambda>d box. Some (Inr (list_files E d box), box)),
        (''grep'', \<lambda>d box. Some (Inr (grep E d box), box)),
        (''read_file'', read_file E),
        (''read_document'', read_document E),
        (''edit_file'', edit_file E now),
        (''write_file'', write_file E now),
        (''git_diff'', git_diff E),
        (''run'', run_command E)] name"

text \<open>
  \<open>invoke\<close>; \<open>approver\<close> is None when the caller has asked already. \<open>now\<close> is the time of the
  file system's clock.
\<close>

definition invoke_tool ::
  "tool_env \<Rightarrow> rat \<Rightarrow> (string \<times> string \<Rightarrow> bool) option \<Rightarrow> string \<Rightarrow> dict \<Rightarrow> toolbox \<Rightarrow> (tool_outcome \<times> toolbox) option" where
  "invoke_tool E now approver name d box =
     (if (case (approver, approval_request E name d box) of
            (Some ask, Some request) \<Rightarrow> \<not> ask request | _ \<Rightarrow> False)
      then Some (failed DECLINED, box)
      else
        (case handler E now name of
           None \<Rightarrow> Some (failed (''Unknown tool '' @ py_repr name @ ''.''), box)
         | Some h \<Rightarrow>
             (case h d box of
                None \<Rightarrow> None
              | Some (Inl message, box) \<Rightarrow> Some (failed message, box)
              | Some (Inr outcome, box) \<Rightarrow> Some (noting_unknown name d outcome, box))))"

section \<open>Line ranges are well formed\<close>

lemma line_number_positive: "as_line_number v field = Inr n \<Longrightarrow> 1 \<le> n"
  by (auto simp: as_line_number_def split: sum.splits if_splits)

lemma range_window_bounds: "range_window d aliases = Some (Inr (Some (a, b))) \<Longrightarrow> 1 \<le> a \<and> a \<le> b"
  by (induction d aliases rule: range_window.induct)
    (auto dest: line_number_positive split: sum.splits if_splits)

lemma length_window_bounds: "length_window d aliases = Some (Inr (Some (a, b))) \<Longrightarrow> 1 \<le> a \<and> a \<le> b"
  by (induction d aliases rule: length_window.induct)
    (auto dest!: line_number_positive split: sum.splits if_splits)

lemma pair_window_bounds: "pair_window d keys = Some (Inr (Some (a, b))) \<Longrightarrow> 1 \<le> a \<and> a \<le> b"
proof (induction d keys rule: pair_window.induct)
  case (2 d key aliases)
  then show ?case
    by (auto dest: line_number_positive
        split: json.splits sum.splits json_error.splits option.splits list.splits if_splits)
qed simp

lemma line_window_bounds: "line_window d = Some (Inr (Some (a, b))) \<Longrightarrow> 1 \<le> a \<and> a \<le> b"
  by (auto simp: line_window_def split: option.splits
      dest: range_window_bounds length_window_bounds pair_window_bounds)

text \<open>
  A start with a count is not understood: with \<open>start\<close> given the range is taken for one of
  \<open>start\<close> and \<open>end\<close>, and without an end a hundred lines are shown, whatever \<open>count\<close> says.
\<close>

theorem start_count_ignored:
  assumes "\<not> given d ''begin''" and "\<not> given d ''end''" and "\<not> given d ''start_line''" and "\<not> given d ''end_line''"
    and "dict_get d ''start'' = JInt first" and "1 \<le> first"
  shows "line_window d = Some (Inr (Some (first, first + 99)))"
  using assms by (simp add: line_window_def RANGE_ALIASES_def given_def as_line_number_def DEFAULT_WINDOW_def)

theorem start_count_ignored_witness:
  "line_window [(''path'', JStr ''a.py''), (''start'', JInt 10), (''count'', JInt 3)] = Some (Inr (Some (10, 109)))"
  using start_count_ignored[of "[(''path'', JStr ''a.py''), (''start'', JInt 10), (''count'', JInt 3)]" 10]
  by (simp add: given_def dict_get_def)

section \<open>What each handler changes\<close>

text \<open>Checkers that only look at the tree.\<close>

definition checkers_only_look :: "tool_env \<Rightarrow> bool" where
  "checkers_only_look E \<longleftrightarrow> (\<forall>command fs. snd (env_shell E command fs) = fs)"

lemma run_one_looks:
  "\<forall>command fs. snd (sh command fs) = fs \<Longrightarrow> run_one sh c path (cs, fs) = Some (finding, cs', fs') \<Longrightarrow> fs' = fs"
  by (auto simp: run_one_def Let_def split: prod.splits process.splits if_splits) (metis snd_conv)+

lemma run_each_looks:
  assumes "\<forall>command fs. snd (sh command fs) = fs"
  shows "run_each sh todo path (cs, fs) = Some (findings, cs', fs') \<Longrightarrow> fs' = fs"
proof (induction todo arbitrary: cs fs findings)
  case (Cons c todo)
  then show ?case
    by (auto split: if_splits option.splits dest!: run_one_looks[OF assms])
qed simp

lemma run_checks_looks:
  "\<forall>command fs. snd (sh command fs) = fs \<Longrightarrow>
     run_checks realpath py_compile sh r path (cs, fs) = Some (findings, cs', fs') \<Longrightarrow> fs' = fs"
  by (auto simp: run_checks_def Let_def split: if_splits dest: run_each_looks)

lemma checked_effect:
  assumes "checked E confirmation path diff box = Some (r, box')"
  obtains outcome where "r = Inr outcome" "outcome_diff outcome = Some diff" "\<not> outcome_is_error outcome"
    "box_workspace box' = box_workspace box" "checkers_only_look E \<Longrightarrow> box_fs box' = box_fs box"
proof -
  obtain findings cs fs where run: "run_checks (env_realpath E) (env_compile E) (env_shell E)
      (root (box_workspace box)) path (box_checks box, box_fs box) = Some (findings, cs, fs)"
    and box': "box' = box\<lparr>box_checks := cs, box_fs := fs\<rparr>"
    using assms by (auto simp: checked_def Let_def split: option.splits)
  then have "\<exists>outcome. r = Inr outcome \<and> outcome_diff outcome = Some diff \<and> \<not> outcome_is_error outcome"
    using assms by (auto simp: checked_def answer_def Let_def)
  moreover have "fs = box_fs box" if "checkers_only_look E"
    using run_checks_looks[OF _ run] that by (simp add: checkers_only_look_def)
  ultimately show thesis using that box' by auto
qed

lemma resolve_root: "root ws' = root ws \<Longrightarrow> resolve realpath ws' text = resolve realpath ws text"
  by (auto simp: resolve_def Let_def)

lemma root_read [simp]: "root (snd (read_file_text realpath fs text partial ws)) = root ws"
  by (cases rule: read_cases[of realpath fs "text" partial ws]) simp_all

lemma apply_edit_stale: "apply_edit c old new all stale = Inr r \<longleftrightarrow> apply_edit c old new all False = Inr r"
  by (simp add: apply_edit_def Let_def)

lemma write_box_cases:
  obtains (failed) e where "write_box E now path content box = (Inl e, box)"
  | (wrote) target fs' ws' where "resolve (env_realpath E) (box_workspace box) path = Inr target"
      "write_text target content now (box_fs box) = Some fs'"
      "write_box E now path content box = (Inr target, box\<lparr>box_fs := fs', box_workspace := ws'\<rparr>)"
      "write_file_text (env_realpath E) now path content (box_fs box, box_workspace box) = (Inr target, fs', ws')"
proof (cases rule: write_cases[of "env_realpath E" now path content "box_fs box" "box_workspace box"])
  case (failed e)
  then show thesis using that(1)[of e] by (simp add: write_box_def)
next
  case (wrote p fs')
  then show thesis using that(2)[of p fs'] by (simp add: write_box_def)
qed

lemma edit_file_cases:
  assumes "edit_file E now d box = Some (r, box')"
  obtains (refused) "box_fs box' = box_fs box" "\<And>outcome. r = Inr outcome \<Longrightarrow> outcome_is_error outcome"
      "box_workspace box' = box_workspace box \<or>
       box_workspace box' = snd (read_file_text (env_realpath E) (box_fs box) (text_argument d ''path'' []) False (box_workspace box))"
  | (edited) target old before after fs' ws' where
      "resolve (env_realpath E) (box_workspace box) (text_argument d ''path'' []) = Inr target"
      "target \<in> seen (box_workspace box)" "dict_get d ''old_string'' = JStr old"
      "fst (read_file_text (env_realpath E) (box_fs box) (text_argument d ''path'' []) False (box_workspace box)) = Inr before"
      "apply_edit before old (text_argument d ''new_string'' []) (truthy (dict_get d ''replace_all'')) False = Inr after"
      "write_text target after now (box_fs box) = Some fs'"
      "write_file_text (env_realpath E) now (text_argument d ''path'' []) after (box_fs box,
         snd (read_file_text (env_realpath E) (box_fs box) (text_argument d ''path'' []) False (box_workspace box))) =
         (Inr target, fs', ws')"
      "checked E (''Edited '' @ text_argument d ''path'' [] @ ''.'') (text_argument d ''path'' [])
         (env_unified_diff E before after (text_argument d ''path'' []))
         (box\<lparr>box_fs := fs', box_workspace := ws'\<rparr>) = Some (r, box')"
proof -
  let ?path = "text_argument d ''path'' []" and ?ws = "box_workspace box"
  let ?old = "if dict_has d ''old_string'' then dict_get d ''old_string'' else JStr []"
  obtain got ws1 where read: "read_file_text (env_realpath E) (box_fs box) ?path False ?ws = (got, ws1)" by fastforce
  have root1: "root ws1 = root ?ws" using root_read[of "env_realpath E" "box_fs box" ?path False ?ws] read by simp
  show thesis
  proof (cases "resolve (env_realpath E) ?ws ?path")
    case (Inl e)
    with assms show thesis by (intro refused) (auto simp: edit_file_def)
  next
    case (Inr target)
    show thesis
    proof (cases "target \<in> seen ?ws \<and> truthy ?old \<and> isl got = False")
      case False
      then show thesis
        using assms Inr read by (intro refused) (auto simp: edit_file_def require_seen_def failed_def answer_def Let_def
            split: if_splits sum.splits)
    next
      case True
      then obtain before where before: "got = Inr before" by (cases got) auto
      obtain old where old: "?old = JStr old" "old \<noteq> []"
        using assms Inr read before True by (cases ?old) (auto simp: edit_file_def require_seen_def Let_def split: if_splits)
      then have d_old: "dict_get d ''old_string'' = JStr old" by (auto split: if_splits)
      let ?edit = "\<lambda>stale. apply_edit before old (text_argument d ''new_string'' []) (truthy (dict_get d ''replace_all'')) stale"
      let ?stale = "target \<in> written_since_read ?ws"
      have step: "edit_file E now d box =
         (let box = box\<lparr>box_workspace := ws1\<rparr> in
          if \<not> py_in old before
          then Some (Inr (failed (''edit_file: old_string was not found in '' @ ?path @ ''. ''
                 @ (if length old > 100
                    then ''The old_string is long - ensure it matches exactly, including ''
                      @ ''indentation and whitespace. Consider a smaller edit.''
                    else ''Use grep to find the current content, then re-read the file.''))), box)
          else
            (case ?edit ?stale of
               Inl (EditError m) \<Rightarrow> Some (Inl m, box)
             | Inr text \<Rightarrow>
                 (case write_box E now ?path text box of
                    (Inl e, box) \<Rightarrow> Some (Inl (raised E e), box)
                  | (Inr _, box) \<Rightarrow>
                      checked E (''Edited '' @ ?path @ ''.'') ?path (env_unified_diff E before text ?path) box)))"
        using Inr True read before old by (simp add: edit_file_def require_seen_def Let_def)
      show thesis
      proof (cases "py_in old before \<and> isl (?edit ?stale) = False")
        case False
        then show thesis using assms step read
          by (intro refused) (auto simp: failed_def answer_def Let_def split: if_splits sum.splits edit_error.splits)
      next
        case True
        then obtain after where after: "?edit ?stale = Inr after" by (cases "?edit ?stale") auto
        show thesis
        proof (cases rule: write_box_cases[of E now ?path after "box\<lparr>box_workspace := ws1\<rparr>"])
          case (failed e)
          with assms step True after read show thesis by (intro refused) (auto simp: Let_def)
        next
          case (wrote target' fs' ws')
          have "target' = target" using wrote(1) Inr resolve_root[OF root1] by simp
          moreover have "?edit False = Inr after" using after apply_edit_stale by blast
          ultimately show thesis
            using wrote True after step assms read before d_old Inr \<open>target \<in> seen ?ws \<and> _\<close>
            by (intro edited[of target old before after fs' ws']) (auto simp: Let_def)
        qed
      qed
    qed
  qed
qed

lemma write_file_cases:
  assumes "write_file E now d box = Some (r, box')"
  obtains (refused) e where "box' = box" "r = Inl e"
  | (wrote) target before fs' ws' where
      "resolve (env_realpath E) (box_workspace box) (text_argument d ''path'' []) = Inr target"
      "text_before (box_fs box) target = Some before"
      "write_text target (text_argument d ''content'' []) now (box_fs box) = Some fs'"
      "write_file_text (env_realpath E) now (text_argument d ''path'' []) (text_argument d ''content'' [])
         (box_fs box, box_workspace box) = (Inr target, fs', ws')"
      "checked E ((if before \<noteq> [] then ''Updated'' else ''Created'') @ '' '' @ text_argument d ''path'' [] @ ''.'')
         (text_argument d ''path'' []) (env_unified_diff E before (text_argument d ''content'' []) (text_argument d ''path'' []))
         (box\<lparr>box_fs := fs', box_workspace := ws'\<rparr>) = Some (r, box')"
proof (cases "resolve (env_realpath E) (box_workspace box) (text_argument d ''path'' [])")
  case (Inl e)
  with assms show thesis by (intro refused) (auto simp: write_file_def)
next
  case (Inr target)
  show thesis
  proof (cases "text_before (box_fs box) target")
    case None
    with assms Inr show thesis by (intro refused) (auto simp: write_file_def Let_def)
  next
    case (Some before)
    show thesis
    proof (cases rule: write_box_cases[of E now "text_argument d ''path'' []" "text_argument d ''content'' []" box])
      case (failed e)
      with assms Inr Some show thesis by (intro refused) (auto simp: write_file_def Let_def)
    next
      case (wrote target' fs' ws')
      with assms Inr Some show thesis by (intro that(2)[of target before fs' ws']) (auto simp: write_file_def Let_def)
    qed
  qed
qed

lemma read_file_fs: "read_file E d box = Some (r, box') \<Longrightarrow> box_fs box' = box_fs box"
  by (auto simp: read_file_def Let_def split: if_splits option.splits sum.splits prod.splits)

lemma read_document_same: "read_document E d box = Some (r, box') \<Longrightarrow> box' = box"
  by (auto simp: read_document_def Let_def split: sum.splits if_splits)

lemma git_diff_same: "git_diff E d box = Some (r, box') \<Longrightarrow> box' = box"
  by (auto simp: git_diff_def Let_def split: sum.splits if_splits)

lemma noting_unknown_simps [simp]:
  "outcome_diff (noting_unknown name d outcome) = outcome_diff outcome"
  "outcome_is_error (noting_unknown name d outcome) = outcome_is_error outcome"
  by (simp_all add: noting_unknown_def Let_def)

lemma invoke_handler:
  assumes "invoke_tool E now None name d box = Some (outcome, box')"
  obtains (unknown) "handler E now name = None" "box' = box" "outcome_is_error outcome"
  | (handled) h r where "handler E now name = Some h" "h d box = Some (r, box')"
      "outcome = (case r of Inl message \<Rightarrow> failed message | Inr o' \<Rightarrow> noting_unknown name d o')"
  using assms by (auto simp: invoke_tool_def failed_def split: option.splits sum.splits prod.splits)

lemma looking_frame:
  assumes "invoke_tool E now None name d box = Some (outcome, box')"
    and "name \<notin> {''edit_file'', ''write_file'', ''run''}"
  shows "box_fs box' = box_fs box \<and> written (box_workspace box') = written (box_workspace box)"
using assms(1)
proof (cases rule: invoke_handler)
  case unknown
  then show ?thesis by simp
next
  case (handled h r)
  have "written (snd (read_file_text realpath fs text partial ws)) = written ws" for realpath fs "text" partial ws
    by (cases rule: read_cases[of realpath fs "text" partial ws]) simp_all
  then have "written (box_workspace box') = written (box_workspace box)" if "read_file E d box = Some (r, box')"
    using that by (auto simp: read_file_def Let_def split: if_splits option.splits sum.splits prod.splits) (metis snd_conv)+
  with handled assms(2) show ?thesis
    by (auto simp: handler_def read_file_fs read_document_same git_diff_same split: if_splits
        dest: read_document_same git_diff_same)
qed

text \<open>
  Looking around changes nothing: whatever its arguments, a tool that is not there to
  change files or run commands leaves the file system as it was, and the checkers too.
\<close>

theorem looking_changes_nothing:
  assumes "invoke_tool E now None name d box = Some (outcome, box')"
    and "name \<notin> {''edit_file'', ''write_file'', ''run''}"
  shows "box_fs box' = box_fs box \<and> written (box_workspace box') = written (box_workspace box)"
  using assms by (rule looking_frame)

definition plain_diff :: difflib where
  "plain_diff xs ys p q n = (if xs = ys then [] else (''--- '' @ p @ [NL]) # (''+++ '' @ q @ [NL]) # xs @ ys)"

lemma plain_diff_law: "concat (plain_diff xs ys p q n) = [] \<Longrightarrow> xs = ys"
  by (simp add: plain_diff_def split: if_splits)

definition sample_env :: tool_env where
  "sample_env =
     \<lparr>env_realpath = lexical, env_listing = \<lambda>fs r. [[''repo'', ''a.py'']],
      env_git = \<lambda>fs args. \<lparr>returncode = 1, stdout = [], stderr = []\<rparr>, env_difflib = plain_diff,
      env_regex = \<lambda>r. Inr (\<lambda>line. py_in r line), env_fnmatch = \<lambda>name pattern. name = pattern,
      env_describe = \<lambda>fs p. [], env_extract_text = \<lambda>fs p. [], env_compile = \<lambda>source. Compiles,
      env_shell = \<lambda>command fs. (Finished \<lparr>returncode = 0, stdout = [], stderr = []\<rparr>, fs),
      env_execute = \<lambda>execution seconds fs. (Finished \<lparr>returncode = 0, stdout = [], stderr = []\<rparr>, fs),
      env_sha256 = \<lambda>s. s, env_sandbox = Host_Sandbox, env_os_error = ''OSError'', env_decode_error = ''UnicodeDecodeError''\<rparr>"

definition sample_box :: toolbox where
  "sample_box =
     \<lparr>box_fs = sample_fs,
      box_workspace = snd (read_file_text lexical sample_fs ''a.py'' False (new_workspace [''repo''] [])),
      box_checks = \<lparr>active_checks = [], timeout_shown = ''30'', broken_checks = []\<rparr>\<rparr>"

definition runs :: "string \<Rightarrow> dict \<Rightarrow> toolbox \<Rightarrow> (tool_outcome \<Rightarrow> toolbox \<Rightarrow> bool) \<Rightarrow> bool" where
  "runs name d box P =
     (case invoke_tool sample_env 9 None name d box of None \<Rightarrow> False | Some (outcome, box') \<Rightarrow> P outcome box')"

lemma runsE:
  assumes "runs name d box P"
  obtains outcome box' where "invoke_tool sample_env 9 None name d box = Some (outcome, box')" "P outcome box'"
  using assms by (auto simp: runs_def split: option.splits)

lemma sample_reached: "workspace_run (env_realpath sample_env) (sample_fs, new_workspace [''repo''] []) (box_fs sample_box, box_workspace sample_box)"
  unfolding sample_box_def sample_env_def toolbox.simps tool_env.simps
  by (rule workspace_run.step[OF workspace_run.start]) (rule workspace_step.reading)

lemma sample_looks: "checkers_only_look sample_env"
  by (simp add: checkers_only_look_def sample_env_def)

theorem looking_changes_nothing_witness:
  "runs ''read_file'' [(''path'', JStr ''a.py'')] sample_box (\<lambda>outcome box'. box_fs box' = sample_fs)"
proof -
  have "runs ''read_file'' [(''path'', JStr ''a.py'')] sample_box (\<lambda>_ _. True)" by code_simp
  then obtain outcome box' where run: "invoke_tool sample_env 9 None ''read_file'' [(''path'', JStr ''a.py'')] sample_box = Some (outcome, box')"
    by (rule runsE)
  from looking_changes_nothing[OF run] run show ?thesis by (simp add: sample_box_def runs_def)
qed

section \<open>What is approved is what lands\<close>

lemma edit_approval_Some:
  assumes "edit_approval E name d box = Some (title, diff)"
  obtains target before after where
    "resolve (env_realpath E) (box_workspace box) (text_argument d ''path'' []) = Inr target"
    "text_before (box_fs box) target = Some before"
    "diff = env_unified_diff E before after (text_argument d ''path'' [])"
    "name = ''write_file'' \<and> after = text_argument d ''content'' [] \<or>
     name \<noteq> ''write_file'' \<and> apply_edit before (text_argument d ''old_string'' []) (text_argument d ''new_string'' [])
       (truthy (dict_get d ''replace_all'')) False = Inr after"
  using assms
  by (auto simp: edit_approval_def Let_def split: if_splits sum.splits option.splits)

text \<open>In a reachable state a read returns what approval looks at.\<close>

lemma read_is_text_before:
  assumes "workspace_run realpath (fs0, new_workspace r baseline) (fs, ws)"
    and "fst (read_file_text realpath fs text partial ws) = Inr content" and "resolve realpath ws text = Inr target"
  shows "text_before fs target = Some content"
proof -
  have i: "cache_ok (file_cache ws)" "\<forall>p t v. map_of (file_cache ws) p = Some (t, v) \<longrightarrow> current fs p t v"
    using inv_run[OF assms(1)] by (simp_all add: workspace_inv_def)
  show ?thesis
  proof (cases rule: read_cases[of realpath fs "text" partial ws])
    case (hit p source u t v)
    then have "current fs p t v" using i(2) lru.hit[OF i(1)] by blast
    with hit assms(2,3) show ?thesis by (auto simp: current_def text_before_def)
  next
    case (miss p source t)
    with assms(2,3) show ?thesis by (auto simp: text_before_def)
  qed (use assms(2) in simp_all)
qed

lemma handler_edit [simp]: "handler E now ''edit_file'' = Some (edit_file E now)"
  and handler_write [simp]: "handler E now ''write_file'' = Some (write_file E now)"
  by (simp_all add: handler_def)

lemma landed:
  assumes "write_text target content now fs = Some fs'"
  shows "fs' target = Some (File content True now) \<and>
    (\<forall>q. q \<noteq> target \<longrightarrow> fs' q = fs q \<or> fs q = None \<and> fs' q = Some Directory)"
  using write_text_cases[OF assms] by blast

text \<open>
  C9. What the user approves is what lands. In every state a session can reach, when a diff was
  shown for an edit or a write and the approved call succeeds, the file holds exactly the
  text the diff leads to from the text it held, no other file changed, and the diff
  reported with the result is the one approved.
\<close>

theorem approved_change_lands:
  assumes "workspace_run (env_realpath E) (fs0, new_workspace r baseline) (box_fs box, box_workspace box)"
    and "checkers_only_look E" and "name \<in> {''edit_file'', ''write_file''}"
    and "approval_request E name d box = Some (title, diff)"
    and "invoke_tool E now None name d box = Some (outcome, box')" and "\<not> outcome_is_error outcome"
  shows "\<exists>target before after.
    resolve (env_realpath E) (box_workspace box) (text_argument d ''path'' []) = Inr target \<and>
    text_before (box_fs box) target = Some before \<and>
    diff = env_unified_diff E before after (text_argument d ''path'' []) \<and>
    box_fs box' target = Some (File after True now) \<and> outcome_diff outcome = Some diff \<and>
    (\<forall>q. q \<noteq> target \<longrightarrow> box_fs box' q = box_fs box q \<or> box_fs box q = None \<and> box_fs box' q = Some Directory)"
proof -
  have "edit_approval E name d box = Some (title, diff)"
    using assms(3,4) by (auto simp: approval_request_def)
  from edit_approval_Some[OF this] obtain target before after where a:
    "resolve (env_realpath E) (box_workspace box) (text_argument d ''path'' []) = Inr target"
    "text_before (box_fs box) target = Some before"
    "diff = env_unified_diff E before after (text_argument d ''path'' [])"
    "name = ''write_file'' \<and> after = text_argument d ''content'' [] \<or>
     name \<noteq> ''write_file'' \<and> apply_edit before (text_argument d ''old_string'' []) (text_argument d ''new_string'' [])
       (truthy (dict_get d ''replace_all'')) False = Inr after" by blast
  have "\<exists>fs' ws' r confirmation. write_text target after now (box_fs box) = Some fs' \<and>
      checked E confirmation (text_argument d ''path'' []) diff (box\<lparr>box_fs := fs', box_workspace := ws'\<rparr>) = Some (r, box') \<and>
      outcome = (case r of Inl message \<Rightarrow> failed message | Inr o' \<Rightarrow> noting_unknown name d o')"
    using assms(5)
  proof (cases rule: invoke_handler)
    case unknown
    with assms(6) show ?thesis by simp
  next
    case (handled h r)
    show ?thesis
    proof (cases "name = ''write_file''")
      case True
      with handled have "write_file E now d box = Some (r, box')" by simp
      then show ?thesis
      proof (cases rule: write_file_cases)
        case (refused e)
        with handled(3) assms(6) show ?thesis by (simp add: failed_def)
      next
        case (wrote target' before' fs' ws')
        with a True handled(3) show ?thesis by auto
      qed
    next
      case False
      with handled assms(3) have "edit_file E now d box = Some (r, box')" by auto
      then show ?thesis
      proof (cases rule: edit_file_cases)
        case refused
        with handled(3) assms(6) show ?thesis by (cases r) (simp_all add: failed_def)
      next
        case (edited target' old before' after' fs' ws')
        have "text_argument d ''old_string'' [] = old"
          using edited(3) by (cases "dict_has d ''old_string''") (auto simp: text_argument_def json_str_def)
        moreover have "before' = before"
          using read_is_text_before[OF assms(1) edited(4) edited(1)] edited(1) a(1,2) by simp
        ultimately have "after' = after" using edited(5) a(4) False by simp
        with edited a \<open>before' = before\<close> handled(3) show ?thesis by auto
      qed
    qed
  qed
  then obtain fs' ws' r confirmation where w: "write_text target after now (box_fs box) = Some fs'"
    "checked E confirmation (text_argument d ''path'' []) diff (box\<lparr>box_fs := fs', box_workspace := ws'\<rparr>) = Some (r, box')"
    "outcome = (case r of Inl message \<Rightarrow> failed message | Inr o' \<Rightarrow> noting_unknown name d o')" by blast
  from checked_effect[OF w(2)] assms(2) obtain o' where "r = Inr o'" "outcome_diff o' = Some diff" "box_fs box' = fs'"
    by auto
  with a w(3) landed[OF w(1)] show ?thesis by auto
qed

definition sample_edit :: dict where
  "sample_edit = [(''path'', JStr ''a.py''), (''old_string'', JStr ''x = 1''), (''new_string'', JStr ''x = 3'')]"

theorem approved_change_lands_witness:
  "runs ''edit_file'' sample_edit sample_box (\<lambda>outcome box'.
     box_fs box' [''repo'', ''a.py''] = Some (File (''x = 3'' @ [NL] @ ''y = 2'' @ [NL]) True 9) \<and>
     outcome_diff outcome = map_option snd (approval_request sample_env ''edit_file'' sample_edit sample_box))"
proof -
  have "runs ''edit_file'' sample_edit sample_box (\<lambda>outcome box'. \<not> outcome_is_error outcome \<and>
      box_fs box' [''repo'', ''a.py''] = Some (File (''x = 3'' @ [NL] @ ''y = 2'' @ [NL]) True 9))" by code_simp
  then obtain outcome box' where run: "invoke_tool sample_env 9 None ''edit_file'' sample_edit sample_box = Some (outcome, box')"
    "\<not> outcome_is_error outcome" "box_fs box' [''repo'', ''a.py''] = Some (File (''x = 3'' @ [NL] @ ''y = 2'' @ [NL]) True 9)"
    by (rule runsE) blast
  have "approval_request sample_env ''edit_file'' sample_edit sample_box \<noteq> None" by code_simp
  then obtain title diff where a: "approval_request sample_env ''edit_file'' sample_edit sample_box = Some (title, diff)" by auto
  from approved_change_lands[OF sample_reached sample_looks _ a run(1,2)] a run
  show ?thesis by (auto simp: runs_def)
qed

section \<open>What is not approved does not land\<close>

text \<open>The text of a file as an edit sees it: its lines, whatever ends them; nothing when there is none.\<close>

definition shown_text :: "fs \<Rightarrow> path \<Rightarrow> string + string" where
  "shown_text fs p =
     (case fs p of
        Some (File source utf8 t) \<Rightarrow> if utf8 then Inl (universal_newlines source) else Inr source
      | _ \<Rightarrow> Inl [])"

lemma universal_newlines_no_CR: "CR \<notin> set (universal_newlines s)"
  by (induction s rule: universal_newlines.induct) auto

lemma universal_newlines_id: "CR \<notin> set s \<Longrightarrow> universal_newlines s = s"
  by (induction s) auto

lemma universal_newlines_idem [simp]: "universal_newlines (universal_newlines s) = universal_newlines s"
  by (simp add: universal_newlines_id universal_newlines_no_CR)

lemma rewritten_same:
  assumes "write_text target text now fs = Some fs'" and "text_before fs target = Some text"
  shows "shown_text fs' = shown_text fs"
proof
  fix q
  have "fs target \<noteq> Some Directory" using assms(1) by (auto simp: write_text_def)
  with assms(2) have "shown_text fs target = Inl text" "universal_newlines text = text"
    by (auto simp: text_before_def shown_text_def split: option.splits node.splits if_splits)
  with landed[OF assms(1)] show "shown_text fs' q = shown_text fs q"
    by (cases "q = target") (auto simp: shown_text_def)
qed

lemma unapproved_frame:
  assumes "workspace_run (env_realpath E) (fs0, new_workspace r baseline) (box_fs box, box_workspace box)"
    and "checkers_only_look E" and "\<And>xs ys p q. concat (env_difflib E xs ys p q 3) = [] \<Longrightarrow> xs = ys"
    and "box_fs box (env_realpath E (root (box_workspace box))) = Some Directory"
    and "name \<in> {''edit_file'', ''write_file''}" and "approval_request E name d box = None"
    and "invoke_tool E now None name d box = Some (outcome, box')"
  shows "shown_text (box_fs box') = shown_text (box_fs box)"
proof -
  let ?path = "text_argument d ''path'' []" and ?ws = "box_workspace box"
  have same: "a = b" if "env_unified_diff E a b p = []" for a b p
    using unified_diff_empty[of "env_difflib E" a b p] assms(3) that by (simp add: env_unified_diff_def)
  have none: "edit_approval E name d box = None"
    using assms(5,6) by (auto simp: approval_request_def)
  have root: "box_fs box target = Some Directory" if "resolve (env_realpath E) ?ws ?path = Inr target" "?path = []" for target
    using that assms(4) by (auto simp: resolve_def join_path_def components_def py_split_unfold find_in.simps Let_def split: if_splits)
  show ?thesis
    using assms(7)
  proof (cases rule: invoke_handler)
    case unknown
    then show ?thesis by simp
  next
    case (handled h r)
    show ?thesis
    proof (cases "name = ''write_file''")
      case True
      with handled have "write_file E now d box = Some (r, box')" by simp
      then show ?thesis
      proof (cases rule: write_file_cases)
        case (wrote target before fs' ws')
        have "?path \<noteq> []" using wrote(1,3) root by (auto simp: write_text_def)
        with none True wrote(1,2) same have "before = text_argument d ''content'' []"
          by (auto simp: edit_approval_def Let_def split: if_splits)
        with rewritten_same[OF wrote(3)] wrote(2) checked_effect[OF wrote(5)] assms(2) show ?thesis by auto
      qed simp
    next
      case False
      with handled assms(5) have "edit_file E now d box = Some (r, box')" by auto
      then show ?thesis
      proof (cases rule: edit_file_cases)
        case (edited target old before after fs' ws')
        have "?path \<noteq> []" using edited(1,6) root by (auto simp: write_text_def)
        moreover have before: "text_before (box_fs box) target = Some before"
          by (rule read_is_text_before[OF assms(1) edited(4) edited(1)])
        moreover have "text_argument d ''old_string'' [] = old"
          using edited(3) by (cases "dict_has d ''old_string''") (auto simp: text_argument_def json_str_def)
        ultimately have "before = after"
          using none False edited(1,2,5) same by (auto simp: edit_approval_def Let_def split: if_splits)
        with rewritten_same[OF edited(6)] before checked_effect[OF edited(8)] assms(2) show ?thesis by auto
      qed simp
    qed
  qed
qed


text \<open>A file with the line endings of Windows, written again with those of Unix: nobody is asked.\<close>

definition same_text :: dict where
  "same_text = [(''path'', JStr ''a.py''), (''content'', JStr (''x = 1'' @ [NL] @ ''y = 2'' @ [NL]))]"


section \<open>The tools refine the workspace\<close>

lemmas one_step = workspace_run.step[OF workspace_run.start]

lemma run_reading: "workspace_run realpath (fs, ws) (fs, snd (read_file_text realpath fs text partial ws))"
  by (rule one_step) (rule workspace_step.reading)

lemma run_writing:
  assumes "write_file_text realpath now text content (fs, ws) = (result, fs', ws')"
  shows "workspace_run realpath (fs, ws) (fs', ws')"
  using one_step[OF workspace_step.writing, of realpath fs ws now "text" content] assms by simp

lemma read_file_run:
  assumes "read_file E d box = Some (r, box')"
  shows "workspace_run (env_realpath E) (box_fs box, box_workspace box) (box_fs box', box_workspace box')"
proof (cases "box' = box")
  case False
  let ?read = "\<lambda>partial. read_file_text (env_realpath E) (box_fs box) (text_argument d ''path'' []) partial (box_workspace box)"
  have "\<exists>partial. box_workspace box' = snd (?read partial)"
    using assms False
    by (auto simp: read_file_def Let_def split: if_splits option.splits sum.splits prod.splits) (metis snd_conv)+
  with run_reading read_file_fs[OF assms] show ?thesis by metis
qed (simp add: workspace_run.start)

lemma run_command_workspace: "run_command E d box = Some (r, box') \<Longrightarrow> box_workspace box' = box_workspace box"
  by (auto simp: run_command_def Let_def split: if_splits option.splits prod.splits process.splits)

lemma invoke_steps:
  assumes "checkers_only_look E" and "invoke_tool E now None name d box = Some (outcome, box')"
    and "name = ''run'' \<Longrightarrow> noticeable (box_fs box) (box_fs box') (file_cache (box_workspace box))"
  shows "workspace_run (env_realpath E) (box_fs box, box_workspace box) (box_fs box', box_workspace box')"
  using assms(2)
proof (cases rule: invoke_handler)
  case unknown
  then show ?thesis by (simp add: workspace_run.start)
next
  case (handled h r)
  consider "name = ''edit_file''" | "name = ''write_file''" | "name = ''run''" | "name = ''read_file''"
    | "name \<notin> {''edit_file'', ''write_file'', ''run'', ''read_file''}" by blast
  then show ?thesis
  proof cases
    case 1
    let ?read = "read_file_text (env_realpath E) (box_fs box) (text_argument d ''path'' []) False (box_workspace box)"
    have "edit_file E now d box = Some (r, box')" using 1 handled by simp
    then show ?thesis
    proof (cases rule: edit_file_cases)
      case refused
      then show ?thesis using run_reading by (auto simp: workspace_run.start)
    next
      case (edited target old before after fs' ws')
      have step: "workspace_step (env_realpath E) (box_fs box, snd ?read) (fs', ws')"
        using workspace_step.writing[of "env_realpath E" "box_fs box" "snd ?read" now "text_argument d ''path'' []" after]
          edited(7) by simp
      from checked_effect[OF edited(8)] assms(1) have "box_fs box' = fs'" "box_workspace box' = ws'" by auto
      with workspace_run.step[OF run_reading step] show ?thesis by simp
    qed
  next
    case 2
    then have "write_file E now d box = Some (r, box')" using handled by simp
    then show ?thesis
    proof (cases rule: write_file_cases)
      case (wrote target before fs' ws')
      from checked_effect[OF wrote(5)] assms(1) have "box_fs box' = fs'" "box_workspace box' = ws'" by auto
      with run_writing[OF wrote(4)] show ?thesis by simp
    qed (simp add: workspace_run.start)
  next
    case 3
    with handled have "box_workspace box' = box_workspace box"
      by (auto simp: handler_def dest: run_command_workspace)
    with one_step[OF workspace_step.outside[OF assms(3)[OF 3]]] show ?thesis by simp
  next
    case 4
    with handled have "read_file E d box = Some (r, box')" by (simp add: handler_def)
    then show ?thesis by (rule read_file_run)
  next
    case 5
    with handled have "box_fs box' = box_fs box \<and> box_workspace box' = box_workspace box"
      by (auto simp: handler_def split: if_splits dest: read_document_same git_diff_same)
    then show ?thesis by (simp add: workspace_run.start)
  qed
qed

lemma invoke_directory:
  assumes "checkers_only_look E" and "invoke_tool E now None name d box = Some (outcome, box')"
    and "name \<noteq> ''run''" and "box_fs box p = Some Directory"
  shows "box_fs box' p = Some Directory"
  using assms(2)
proof (cases rule: invoke_handler)
  case unknown
  with assms(4) show ?thesis by simp
next
  case (handled h r)
  have stays: "fs' p = Some Directory" if "write_text target content now (box_fs box) = Some fs'" for target content fs'
    using landed[OF that] that assms(4) by (cases "p = target") (auto simp: write_text_def)
  consider "name = ''edit_file''" | "name = ''write_file''" | "name \<notin> {''edit_file'', ''write_file''}" by blast
  then show ?thesis
  proof cases
    case 1
    with handled have "edit_file E now d box = Some (r, box')" by simp
    then show ?thesis
    proof (cases rule: edit_file_cases)
      case (edited target old before after fs' ws')
      from stays[OF edited(6)] checked_effect[OF edited(8)] assms(1) show ?thesis by auto
    qed (use assms(4) in simp)
  next
    case 2
    with handled have "write_file E now d box = Some (r, box')" by simp
    then show ?thesis
    proof (cases rule: write_file_cases)
      case (wrote target before fs' ws')
      from stays[OF wrote(3)] checked_effect[OF wrote(5)] assms(1) show ?thesis by auto
    qed (use assms(4) in simp)
  next
    case 3
    with looking_frame[OF assms(2)] assms(3,4) show ?thesis by simp
  qed
qed

lemma unapproved_command:
  assumes "invoke_tool E now None ''run'' d box = Some (outcome, box')" and "approval_request E ''run'' d box = None"
  shows "box' = box"
  using assms(1)
proof (cases rule: invoke_handler)
  case (handled h r)
  with assms(2) show ?thesis
    by (auto simp: handler_def run_command_def approval_request_def Let_def split: if_splits)
qed simp

text \<open>
  What a call may do, seen from outside: nothing, read one file, write one text into one file, or,
  for a command, anything to the files. The state it acts on is the files and the paths the
  workspace has seen and written.
\<close>

datatype tool_effect = No_Effect | Reading path | Writing path string | Running_Command

type_synonym tool_view = "fs \<times> path set \<times> path set"

definition box_view :: "toolbox \<Rightarrow> tool_view" where
  "box_view box = (box_fs box, seen (box_workspace box), written (box_workspace box))"

definition effect_step :: "rat \<Rightarrow> tool_effect \<Rightarrow> tool_view \<Rightarrow> tool_view \<Rightarrow> bool" where
  "effect_step now effect earlier later =
     (let (fs, seen, written) = earlier; (fs', seen', written') = later in
      case effect of
        No_Effect \<Rightarrow> fs' = fs \<and> seen' = seen \<and> written' = written
      | Reading p \<Rightarrow> is_file fs p \<and> fs' = fs \<and> seen' = insert p seen \<and> written' = written
      | Writing p text \<Rightarrow>
          fs p \<noteq> Some Directory \<and> fs' p = Some (File text True now) \<and>
          (\<forall>q. q \<noteq> p \<longrightarrow> fs' q = fs q \<or> fs q = None \<and> fs' q = Some Directory \<and> q \<in> set (parents p)) \<and>
          seen' = insert p seen \<and> written' = insert p written
      | Running_Command \<Rightarrow> seen' = seen \<and> written' = written)"

text \<open>Which effects a tool may have: those on the file its path names, inside the workspace.\<close>

definition named_file :: "tool_env \<Rightarrow> dict \<Rightarrow> toolbox \<Rightarrow> path \<Rightarrow> bool" where
  "named_file E d box p \<longleftrightarrow>
     resolve (env_realpath E) (box_workspace box) (text_argument d ''path'' []) = Inr p \<and>
     prefix (root (box_workspace box)) p"

definition tool_may :: "tool_env \<Rightarrow> string \<Rightarrow> dict \<Rightarrow> toolbox \<Rightarrow> tool_effect \<Rightarrow> bool" where
  "tool_may E name d box effect =
     (case effect of
        No_Effect \<Rightarrow> True
      | Reading p \<Rightarrow> (name = ''read_file'' \<or> name = ''edit_file'') \<and> named_file E d box p
      | Writing p text \<Rightarrow> named_file E d box p \<and>
          (name = ''write_file'' \<and> text = text_argument d ''content'' [] \<or>
           name = ''edit_file'' \<and> p \<in> seen (box_workspace box))
      | Running_Command \<Rightarrow> name = ''run'')"

lemma read_effect:
  assumes "box_fs box' = box_fs box"
    and "box_workspace box' = snd (read_file_text (env_realpath E) (box_fs box) (text_argument d ''path'' []) partial (box_workspace box))"
    and "name = ''read_file'' \<or> name = ''edit_file''"
  shows "\<exists>effect. tool_may E name d box effect \<and> effect_step now effect (box_view box) (box_view box')"
proof (cases rule: read_cases[of "env_realpath E" "box_fs box" "text_argument d ''path'' []" partial "box_workspace box"])
  case (hit p raw u t v)
  with assms resolve_inside[OF hit(1)] show ?thesis
    by (intro exI[of _ "Reading p"]) (auto simp: tool_may_def effect_step_def box_view_def named_file_def is_file_def)
next
  case (miss p raw t)
  with assms resolve_inside[OF miss(1)] show ?thesis
    by (intro exI[of _ "Reading p"]) (auto simp: tool_may_def effect_step_def box_view_def named_file_def is_file_def)
qed (use assms in \<open>auto intro!: exI[of _ No_Effect] simp: tool_may_def effect_step_def box_view_def\<close>)

lemma write_effect:
  assumes "resolve (env_realpath E) (box_workspace box) (text_argument d ''path'' []) = Inr p"
    and "write_text p text now (box_fs box) = Some (box_fs box')"
    and "write_file_text (env_realpath E) now (text_argument d ''path'' []) text (box_fs box, ws) = (Inr p, box_fs box', box_workspace box')"
    and "insert p (seen ws) = insert p (seen (box_workspace box))" and "written ws = written (box_workspace box)"
    and "name = ''write_file'' \<and> text = text_argument d ''content'' [] \<or> name = ''edit_file'' \<and> p \<in> seen (box_workspace box)"
  shows "\<exists>effect. tool_may E name d box effect \<and> effect_step now effect (box_view box) (box_view box')"
proof -
  have "seen (box_workspace box') = insert p (seen ws)" "written (box_workspace box') = insert p (written ws)"
    using assms(3) by (cases rule: write_cases[of "env_realpath E" now "text_argument d ''path'' []" "text" "box_fs box" ws]; auto)+
  moreover have "box_fs box p \<noteq> Some Directory" using assms(2) by (auto simp: write_text_def split: if_splits)
  ultimately show ?thesis
    using assms resolve_inside[OF assms(1)] write_text_cases[OF assms(2)]
    by (intro exI[of _ "Writing p text"]) (auto simp: tool_may_def effect_step_def box_view_def named_file_def)
qed

lemma edit_effect:
  assumes "checkers_only_look E" and "edit_file E now d box = Some (r, box')"
  shows "\<exists>effect. tool_may E ''edit_file'' d box effect \<and> effect_step now effect (box_view box) (box_view box')"
  using assms(2)
proof (cases rule: edit_file_cases)
  case refused
  then show ?thesis
  proof (elim disjE)
    assume "box_workspace box' = box_workspace box"
    with refused show ?thesis by (intro exI[of _ No_Effect]) (simp add: tool_may_def effect_step_def box_view_def)
  qed (use refused read_effect in blast)
next
  case (edited target old before after fs' ws')
  let ?read = "read_file_text (env_realpath E) (box_fs box) (text_argument d ''path'' []) False (box_workspace box)"
  have fs': "box_fs box' = fs'" "box_workspace box' = ws'" using checked_effect[OF edited(8)] assms(1) by auto
  have "insert target (seen (snd ?read)) = insert target (seen (box_workspace box)) \<and> written (snd ?read) = written (box_workspace box)"
    using edited(1)
    by (cases rule: read_cases[of "env_realpath E" "box_fs box" "text_argument d ''path'' []" False "box_workspace box"]) auto
  with edited fs' show ?thesis by (intro write_effect[where ws = "snd ?read"]) auto
qed

lemma write_file_effect:
  assumes "checkers_only_look E" and "write_file E now d box = Some (r, box')"
  shows "\<exists>effect. tool_may E ''write_file'' d box effect \<and> effect_step now effect (box_view box) (box_view box')"
  using assms(2)
proof (cases rule: write_file_cases)
  case (wrote target before fs' ws')
  then have "box_fs box' = fs'" "box_workspace box' = ws'" using checked_effect[OF wrote(5)] assms(1) by auto
  with wrote show ?thesis by (intro write_effect[where ws = "box_workspace box"]) auto
qed (auto intro!: exI[of _ No_Effect] simp: tool_may_def effect_step_def box_view_def)

lemma read_file_effect:
  assumes "read_file E d box = Some (r, box')"
  shows "\<exists>effect. tool_may E ''read_file'' d box effect \<and> effect_step now effect (box_view box) (box_view box')"
proof (cases "box' = box")
  case False
  let ?read = "\<lambda>partial. read_file_text (env_realpath E) (box_fs box) (text_argument d ''path'' []) partial (box_workspace box)"
  have "\<exists>partial. box_workspace box' = snd (?read partial)"
    using assms False
    by (auto simp: read_file_def Let_def split: if_splits option.splits sum.splits prod.splits) (metis snd_conv)+
  with read_effect read_file_fs[OF assms] show ?thesis by metis
qed (auto intro!: exI[of _ No_Effect] simp: tool_may_def effect_step_def box_view_def)

text \<open>
  C17. Every tool does what it is for, and no more. A call does nothing, or what its tool may do:
  \<open>read_file\<close>, and \<open>edit_file\<close> on its way, read the file the path of the call names, inside the
  workspace, and put it and no other on record as seen; \<open>write_file\<close> puts the text of the call into
  the file the path names, \<open>edit_file\<close> a text into one that had been seen, and nothing else changes
  but directories made on the way to it; nothing is ever removed, and the other tools change
  nothing. Only \<open>run\<close> may change other files, and it puts none on record.
\<close>

theorem tools_keep_to_their_effects:
  assumes "checkers_only_look E" and "invoke_tool E now None name d box = Some (outcome, box')"
  shows "\<exists>effect. tool_may E name d box effect \<and> effect_step now effect (box_view box) (box_view box')"
  using assms(2)
proof (cases rule: invoke_handler)
  case unknown
  then show ?thesis by (intro exI[of _ No_Effect]) (simp add: tool_may_def effect_step_def box_view_def)
next
  case (handled h r)
  consider "name = ''edit_file''" | "name = ''write_file''" | "name = ''run''" | "name = ''read_file''"
    | "name \<notin> {''edit_file'', ''write_file'', ''run'', ''read_file''}" by blast
  then show ?thesis
  proof cases
    case 1
    with handled edit_effect[OF assms(1)] show ?thesis by simp
  next
    case 2
    with handled write_file_effect[OF assms(1)] show ?thesis by simp
  next
    case 3
    with handled have "box_workspace box' = box_workspace box"
      by (auto simp: handler_def dest: run_command_workspace)
    with 3 show ?thesis by (intro exI[of _ Running_Command]) (simp add: tool_may_def effect_step_def box_view_def)
  next
    case 4
    with handled have "read_file E d box = Some (r, box')" by (simp add: handler_def)
    with read_file_effect 4 show ?thesis by blast
  next
    case 5
    with handled have "box_fs box' = box_fs box \<and> box_workspace box' = box_workspace box"
      by (auto simp: handler_def split: if_splits dest: read_document_same git_diff_same)
    then show ?thesis by (intro exI[of _ No_Effect]) (simp add: tool_may_def effect_step_def box_view_def)
  qed
qed

theorem tools_keep_to_their_effects_witness:
  "runs ''edit_file'' sample_edit sample_box (\<lambda>outcome box'.
     box_fs box' \<noteq> sample_fs \<and> (\<exists>effect. tool_may sample_env ''edit_file'' sample_edit sample_box effect \<and>
       effect_step 9 effect (box_view sample_box) (box_view box')))"
proof -
  have "runs ''edit_file'' sample_edit sample_box (\<lambda>outcome box'. box_fs box' [''repo'', ''a.py''] \<noteq> sample_fs [''repo'', ''a.py''])"
    by code_simp
  then obtain outcome box' where run: "invoke_tool sample_env 9 None ''edit_file'' sample_edit sample_box = Some (outcome, box')"
    "box_fs box' [''repo'', ''a.py''] \<noteq> sample_fs [''repo'', ''a.py'']"
    by (rule runsE) blast
  from tools_keep_to_their_effects[OF sample_looks run(1)] run show ?thesis by (auto simp: runs_def)
qed

end
