(* ===== verification/Session.thy ===== *)
theory Session
  imports Client Tools
begin

text \<open>
  \<open>llm_assistant_agent/session.py\<close>: the agent loop. The state is the session record; what a
  session works on (workspace, user, model server) is a state \<open>'w\<close> of its own, which the
  interface \<open>'w world\<close> reaches. What the renderer shows is left out. None stands for a
  Python exception that nobody catches.
\<close>

section \<open>State\<close>

record session =
  messages :: "message list"
  history :: "message list"
  rules_sent :: bool
  failures :: "string \<Rightarrow> nat"
  context_window :: int
  auto_approve :: bool

definition MAX_STEPS :: nat where "MAX_STEPS = 40"
definition REPEAT_WARN :: nat where "REPEAT_WARN = 2"
definition REPEAT_ABORT :: nat where "REPEAT_ABORT = 4"

definition SYSTEM_PROMPT :: string where
  "SYSTEM_PROMPT = py_join [NL] [
     ''You are a coding assistant working directly in a user's repository.'',
     '''',
     ''How to work:'',
     ''- Look before you leap: use grep and list_files to find the relevant code, and'',
     ''  read a file before editing it.'',
     ''- Make the smallest change that does the job. Prefer several small edit_file'',
     ''  calls over one sweeping rewrite.'',
     ''- When you edit, copy old_string verbatim from what read_file showed you,'',
     ''  including exact indentation, and include enough surrounding context that it'',
     ''  appears exactly once in the file.'',
     ''- After changing code, check it: run the project's tests or type checker with'',
     ''  the run tool if there is an obvious command for it.'',
     ''- If a tool returns an error, read it and correct course - the message says'',
     ''  what to do differently.'',
     ''- Never write code that parses a file you have not looked at. Call'',
     ''  read_document on the actual PDF, CSV or spreadsheet first and write the'',
     ''  parser against what it shows you. Code written from a guess at the format'',
     ''  runs, returns nothing, and looks finished.'',
     ''- Editing a file may report problems found in it afterwards. Those are real -'',
     ''  fix them before moving on, rather than leaving the file worse than you found'',
     ''  it.'',
     ''- Before your final answer, call git_diff and read your whole change. Edits'',
     ''  that were each right on their own can still be wrong together: a leftover'',
     ''  import, a helper you stopped using, an edit landed in the wrong place.'',
     '''',
     ''The user approves each edit as a diff before it lands, so keep them small and'',
     ''self-explanatory. Never run git commit, git push, or any other command that'',
     ''rewrites history or publishes work; the user does that themselves.'',
     '''',
     ''Never throw uncommitted work away either - no git checkout, restore, reset,'',
     ''stash or clean of a file you did not create in this session. The working tree'',
     ''holds the user's own changes and whatever an earlier session left behind, so a'',
     ''diff will show more than you remember doing. That is normal and not yours to'',
     ''undo: an uncommitted change is the only copy there is.'',
     '''',
     ''Be brief. Explain what you changed and why, not what you are about to do.'']"

definition open_session :: "message list \<Rightarrow> int \<Rightarrow> bool \<Rightarrow> session" where
  "open_session ms window approve_all =
     \<lparr>messages = ms, history = ms, rules_sent = (ms \<noteq> []), failures = (\<lambda>_. 0),
      context_window = window, auto_approve = approve_all\<rparr>"

definition say :: "message \<Rightarrow> session \<Rightarrow> session" where
  "say m s = s\<lparr>messages := messages s @ [m], history := history s @ [m]\<rparr>"

definition role :: "message \<Rightarrow> json" where
  "role m = dict_get m ''role''"

definition user_message :: "string \<Rightarrow> message" where
  "user_message text = [(''role'', JStr ''user''), (''content'', JStr text)]"

definition tool_message :: "string \<Rightarrow> string \<Rightarrow> message" where
  "tool_message cid text =
     [(''role'', JStr ''tool''), (''tool_call_id'', JStr cid), (''content'', JStr text)]"

definition record_result :: "tool_call \<Rightarrow> string \<Rightarrow> session \<Rightarrow> session" where
  "record_result c text s = say (tool_message (call_id c) text) s"

section \<open>Repeated failures\<close>

text \<open>\<open>json.dumps(..., sort_keys=True)\<close>.\<close>

fun sort_keys :: "json \<Rightarrow> json" where
  "sort_keys (JArr xs) = JArr (map sort_keys xs)"
| "sort_keys (JObj d) = JObj (sort_key fst (map (\<lambda>(k, v). (k, sort_keys v)) d))"
| "sort_keys v = v"

definition signature :: "tool_call \<Rightarrow> string" where
  "signature c = call_name c @ '':'' @ json_dumps (sort_keys (JObj (call_arguments c)))"

definition repetition :: "tool_call \<Rightarrow> tool_outcome \<Rightarrow> session \<Rightarrow> (string \<times> bool) \<times> session" where
  "repetition c outcome s =
     (if \<not> outcome_is_error outcome then (([], False), s)
      else
        (let count = failures s (signature c) + 1;
             s1 = s\<lparr>failures := (failures s)(signature c := count)\<rparr>
         in if count < REPEAT_WARN then (([], False), s1)
            else if count \<ge> REPEAT_ABORT then
              (([NL, NL] @ ''This identical call has now failed '' @ str_nat count @ '' times. Stopping here.'', True), s1)
            else
              (([NL, NL] @ ''You have made this exact call '' @ str_nat count @ '' times and it has failed the same ''
                @ ''way each time; it will not behave differently on the next. Do something ''
                @ ''else: read the file as it is now, try a smaller change, or say what is ''
                @ ''blocking you.'', False), s1)))"

section \<open>Running the calls of a turn\<close>

datatype approval = Approved | Declined | Unavailable

record 'w world =
  approval_for :: "string \<Rightarrow> dict \<Rightarrow> 'w \<Rightarrow> (string \<times> string) option"
  ask_user :: "string \<times> string \<Rightarrow> 'w \<Rightarrow> approval \<times> 'w"
  invoke :: "string \<Rightarrow> dict \<Rightarrow> 'w \<Rightarrow> (tool_outcome \<times> 'w) option"
  model_turn :: "message list \<Rightarrow> 'w \<Rightarrow> turn_result \<times> 'w"
  edited_files :: "'w \<Rightarrow> string list"

definition approve :: "'w world \<Rightarrow> session \<Rightarrow> string \<times> string \<Rightarrow> 'w \<Rightarrow> approval \<times> 'w" where
  "approve W s request w = (if auto_approve s then (Approved, w) else ask_user W request w)"

definition run_call :: "'w world \<Rightarrow> tool_call \<Rightarrow> session \<times> 'w \<Rightarrow> (bool \<times> session \<times> 'w) option" where
  "run_call W c st =
     (let (s, w) = st in
      case invoke W (call_name c) (call_arguments c) w of
        None \<Rightarrow> None
      | Some (outcome, w1) \<Rightarrow>
          (let ((escalation, give_up), s1) = repetition c outcome s
           in Some (\<not> give_up, record_result c (outcome_content outcome @ escalation) s1, w1)))"

fun execute :: "'w world \<Rightarrow> tool_call list \<Rightarrow> session \<times> 'w \<Rightarrow> (bool \<times> session \<times> 'w) option" where
  "execute W [] (s, w) = Some (True, s, w)"
| "execute W (c # cs) (s, w) =
     (case approval_for W (call_name c) (call_arguments c) w of
        None \<Rightarrow>
          (case run_call W c (s, w) of
             None \<Rightarrow> None
           | Some (go_on, s1, w1) \<Rightarrow> if go_on then execute W cs (s1, w1) else Some (False, s1, w1))
      | Some request \<Rightarrow>
          (case approve W s request w of
             (Unavailable, w1) \<Rightarrow>
               Some (False, record_result c ''The user could not be asked, so this did not run.'' s, w1)
           | (Declined, w1) \<Rightarrow> execute W cs (record_result c DECLINED s, w1)
           | (Approved, w1) \<Rightarrow>
               (case run_call W c (s, w1) of
                  None \<Rightarrow> None
                | Some (go_on, s1, w2) \<Rightarrow> if go_on then execute W cs (s1, w2) else Some (False, s1, w2))))"

section \<open>Cancellation\<close>

text \<open>\<open>message.get("tool_calls") or []\<close>, for a list; None when iterating or \<open>.get\<close> raises.\<close>

definition calls_of :: "message \<Rightarrow> json list option" where
  "calls_of m =
     (case dict_get m ''tool_calls'' of
        JArr calls \<Rightarrow> Some calls
      | v \<Rightarrow> if truthy v then None else Some [])"

definition answered_ids :: "message list \<Rightarrow> json list" where
  "answered_ids ms = map (\<lambda>m. dict_get m ''tool_call_id'') (filter (\<lambda>m. role m = JStr ''tool'') ms)"

definition open_ids :: "json list \<Rightarrow> json list \<Rightarrow> string list" where
  "open_ids calls answered =
     concat (map (\<lambda>call. case call of
        JObj c \<Rightarrow> if truthy (dict_get c ''id'') \<and> dict_get c ''id'' \<notin> set answered
                  then [json_str (dict_get c ''id'')] else []
      | _ \<Rightarrow> []) calls)"

text \<open>The search runs from the end; \<open>later\<close> holds the messages after the one looked at.\<close>

fun unanswered_from :: "message list \<Rightarrow> message list \<Rightarrow> string list option" where
  "unanswered_from [] later = Some []"
| "unanswered_from (m # earlier) later =
     (if role m \<noteq> JStr ''assistant'' then unanswered_from earlier (m # later)
      else map_option (\<lambda>calls. open_ids calls (answered_ids later)) (calls_of m))"

definition unanswered_tool_calls :: "session \<Rightarrow> string list option" where
  "unanswered_tool_calls s = unanswered_from (rev (messages s)) []"

definition INTERRUPTED :: string where
  "INTERRUPTED = ''The user interrupted this turn before the tool ran.''"

definition repair_after_cancel :: "session \<Rightarrow> (nat \<times> session) option" where
  "repair_after_cancel s =
     (case unanswered_tool_calls s of
        None \<Rightarrow> None
      | Some ids \<Rightarrow> Some (length ids, fold (\<lambda>i. say (tool_message i INTERRUPTED)) ids s))"

section \<open>Compaction\<close>

text \<open>\<open>int(characters / 3.5)\<close>.\<close>

definition estimate_tokens :: "message list \<Rightarrow> int" where
  "estimate_tokens ms = int (sum_list (map (\<lambda>m. length (json_dumps (JObj m))) ms)) * 2 div 7"

text \<open>
  The path a call was made with: None when looking for it raises, Some None when the call
  is not the one with this id or not one of these tools.
\<close>

definition get_or :: "dict \<Rightarrow> string \<Rightarrow> json \<Rightarrow> json" where
  "get_or d k otherwise = (if dict_has d k then dict_get d k else otherwise)"

definition name_in :: "json \<Rightarrow> string list \<Rightarrow> bool option" where
  "name_in name tools =
     (case name of
        JStr n \<Rightarrow> Some (n \<in> set tools)
      | JArr xs \<Rightarrow> None
      | JObj d \<Rightarrow> None
      | _ \<Rightarrow> Some False)"

definition call_path :: "string list \<Rightarrow> json \<Rightarrow> json \<Rightarrow> json option option" where
  "call_path tools cid call =
     (case call of
        JObj c \<Rightarrow>
          if dict_get c ''id'' \<noteq> cid then Some None
          else
            (case get_or c ''function'' (JObj []) of
               JObj f \<Rightarrow>
                 (case name_in (dict_get f ''name'') tools of
                    None \<Rightarrow> None
                  | Some False \<Rightarrow> Some None
                  | Some True \<Rightarrow>
                      (case get_or f ''arguments'' (JObj []) of
                         JObj a \<Rightarrow> Some (Some (get_or a ''path'' (JStr [])))
                       | _ \<Rightarrow> None))
             | _ \<Rightarrow> None)
      | _ \<Rightarrow> None)"

definition EDITING_TOOLS :: "string list" where
  "EDITING_TOOLS = [''read_file'', ''edit_file'', ''write_file'']"

text \<open>Whether one of an assistant's calls is the one with this id and works on an edited file.\<close>

fun works_on_edited :: "string list \<Rightarrow> json \<Rightarrow> json list \<Rightarrow> bool option" where
  "works_on_edited edited cid [] = Some False"
| "works_on_edited edited cid (call # calls) =
     (case call_path EDITING_TOOLS cid call of
        None \<Rightarrow> None
      | Some None \<Rightarrow> works_on_edited edited cid calls
      | Some (Some p) \<Rightarrow>
          (case name_in p edited of
             None \<Rightarrow> None
           | Some True \<Rightarrow> Some True
           | Some False \<Rightarrow> works_on_edited edited cid calls))"

text \<open>How many extra copies of a tool result the tail gets: one per assistant message that asked for it.\<close>

fun extra_copies :: "string list \<Rightarrow> json \<Rightarrow> message list \<Rightarrow> nat option" where
  "extra_copies edited cid [] = Some 0"
| "extra_copies edited cid (m # ms) =
     (if role m \<noteq> JStr ''assistant'' then extra_copies edited cid ms
      else
        (case calls_of m of
           None \<Rightarrow> None
         | Some calls \<Rightarrow>
             (case (works_on_edited edited cid calls, extra_copies edited cid ms) of
                (Some hit, Some n) \<Rightarrow> Some ((if hit then 1 else 0) + n)
              | _ \<Rightarrow> None)))"

fun build_tail :: "string list \<Rightarrow> message list \<Rightarrow> message list \<Rightarrow> message list option" where
  "build_tail edited all_messages [] = Some []"
| "build_tail edited all_messages (m # ms) =
     (case ((if role m = JStr ''tool'' \<and> edited \<noteq> []
             then extra_copies edited (dict_get m ''tool_call_id'') all_messages else Some 0),
            build_tail edited all_messages ms) of
        (Some n, Some rest) \<Rightarrow> Some (replicate n m @ m # rest)
      | _ \<Rightarrow> None)"

text \<open>
  The paths of the read_file calls whose results are dropped. A path that is true but no
  string raises, at the latest when the names are joined.
\<close>

fun read_paths :: "string list \<Rightarrow> json \<Rightarrow> json list \<Rightarrow> string list option" where
  "read_paths edited cid [] = Some []"
| "read_paths edited cid (call # calls) =
     (case (call_path [''read_file''] cid call, read_paths edited cid calls) of
        (Some None, Some ps) \<Rightarrow> Some ps
      | (Some (Some p), Some ps) \<Rightarrow>
          (case p of
             JStr text \<Rightarrow> Some (if text \<noteq> [] \<and> text \<notin> set edited then text # ps else ps)
           | _ \<Rightarrow> if truthy p then None else Some ps)
      | _ \<Rightarrow> None)"

fun concat_options :: "'a list option list \<Rightarrow> 'a list option" where
  "concat_options [] = Some []"
| "concat_options (x # xs) =
     (case (x, concat_options xs) of (Some a, Some b) \<Rightarrow> Some (a @ b) | _ \<Rightarrow> None)"

definition paths_read_for :: "string list \<Rightarrow> message list \<Rightarrow> message \<Rightarrow> string list option" where
  "paths_read_for edited all_messages m =
     (if role m \<noteq> JStr ''tool'' then Some []
      else concat_options (map (\<lambda>prev.
             if role prev \<noteq> JStr ''assistant'' then Some []
             else (case calls_of prev of
                     None \<Rightarrow> None
                   | Some calls \<Rightarrow> read_paths edited (dict_get m ''tool_call_id'') calls)) all_messages))"

definition compaction_note :: "nat \<Rightarrow> string list \<Rightarrow> string" where
  "compaction_note dropped files =
     ''['' @ str_nat dropped @ '' earlier messages were dropped to stay within the context window.''
     @ (if files = [] then []
        else '' Previously read: '' @ py_join '', '' (take 5 (rev (remdups (rev files))))
           @ (if length files > 5 then '' and '' @ str_nat (length files - 5) @ '' more.'' else ''.''))
     @ '' Re-read any file you need rather than relying on memory.]''"

definition compact_if_needed :: "string list \<Rightarrow> session \<Rightarrow> session option" where
  "compact_if_needed edited s =
     (let ms = messages s in
      if context_window s \<le> 0 then Some s
      else if estimate_tokens ms * 4 < context_window s * 3 then Some s
      else if length ms \<le> 8 then Some s
      else
        (case build_tail edited ms (drop (length ms - 6) ms) of
           None \<Rightarrow> None
         | Some whole_tail \<Rightarrow>
             (let tail = dropWhile (\<lambda>m. role m = JStr ''tool'') whole_tail in
              if length ms \<le> 1 + length tail then Some s
              else
                (let dropped = length ms - 1 - length tail in
                 case concat_options (map (paths_read_for edited ms) (drop 1 (take (length ms - length tail) ms))) of
                   None \<Rightarrow> None
                 | Some files \<Rightarrow>
                     Some (s\<lparr>messages := take 1 ms @ [user_message (compaction_note dropped files)] @ tail\<rparr>)))))"

section \<open>Asking\<close>

datatype ending = Answered | Gave_Up | Out_Of_Steps | Turn_Error string

definition malformed_message :: "string list \<Rightarrow> message" where
  "malformed_message problems = user_message (''Your tool call did not arrive intact: ''
     @ py_join ''; '' problems @ ''. Please try again.'')"

fun ask_loop :: "'w world \<Rightarrow> nat \<Rightarrow> session \<times> 'w \<Rightarrow> (ending \<times> session \<times> 'w) option" where
  "ask_loop W 0 (s, w) = Some (Out_Of_Steps, s, w)"
| "ask_loop W (Suc n) (s, w) =
     (case compact_if_needed (edited_files W w) s of
        None \<Rightarrow> None
      | Some s \<Rightarrow>
          (case model_turn W (messages s) w of
             (TurnError e, w) \<Rightarrow> Some (Turn_Error e, s, w)
           | (Turn turn raw_calls, w) \<Rightarrow>
               (let s = say (as_message turn raw_calls) s in
                if tool_calls turn = [] then
                  (if malformed turn \<noteq> [] then ask_loop W n (say (malformed_message (malformed turn)) s, w)
                   else Some (Answered, s, w))
                else
                  (case execute W (tool_calls turn) (s, w) of
                     None \<Rightarrow> None
                   | Some (True, s, w) \<Rightarrow> ask_loop W n (s, w)
                   | Some (False, s, w) \<Rightarrow> Some (Gave_Up, s, w)))
           | _ \<Rightarrow> None))"

definition ask :: "'w world \<Rightarrow> string \<Rightarrow> session \<times> 'w \<Rightarrow> (ending \<times> session \<times> 'w) option" where
  "ask W text st =
     (let (s, w) = st;
          text = (if rules_sent s then text else SYSTEM_PROMPT @ [NL, NL] @ ''---'' @ [NL, NL] @ text);
          s = s\<lparr>rules_sent := True\<rparr>
      in ask_loop W MAX_STEPS (say (user_message text) s, w))"

section \<open>Transcripts the gateway accepts\<close>

text \<open>
  Scanning a transcript with the ids still to be answered: a tool result must answer one of
  them, and nothing else may come while one is open.
\<close>

definition asked_ids :: "message \<Rightarrow> json list" where
  "asked_ids m =
     (if role m = JStr ''assistant''
      then map (\<lambda>call. case call of JObj c \<Rightarrow> dict_get c ''id'' | _ \<Rightarrow> JNull)
             (case calls_of m of Some calls \<Rightarrow> calls | None \<Rightarrow> [])
      else [])"

fun scan :: "json list \<Rightarrow> message list \<Rightarrow> json list option" where
  "scan pending [] = Some pending"
| "scan pending (m # ms) =
     (if role m = JStr ''tool'' then
        (if dict_get m ''tool_call_id'' \<in> set pending
         then scan (remove1 (dict_get m ''tool_call_id'') pending) ms else None)
      else if pending \<noteq> [] then None
      else scan (asked_ids m) ms)"

definition acceptable :: "message list \<Rightarrow> bool" where
  "acceptable ms \<longleftrightarrow> scan [] ms = Some []"

lemma scan_append: "scan p (xs @ ys) = (case scan p xs of None \<Rightarrow> None | Some q \<Rightarrow> scan q ys)"
  by (induction p xs rule: scan.induct) auto

lemma message_fields [simp]:
  "role (user_message text) = JStr ''user''" "role (tool_message cid text) = JStr ''tool''"
  "dict_get (tool_message cid text) ''tool_call_id'' = JStr cid"
  "role (as_message turn raw_calls) = JStr ''assistant''"
  "calls_of (as_message turn raw_calls) = Some raw_calls"
  "asked_ids (user_message text) = []"
  by (simp_all add: role_def user_message_def tool_message_def as_message_def calls_of_def asked_ids_def dict_get_def)

lemma asked_ids_as_message:
  "list_all2 call_matches cs raw_calls \<Longrightarrow>
     asked_ids (as_message turn raw_calls) = map (\<lambda>c. JStr (call_id c)) cs"
proof -
  assume "list_all2 call_matches cs raw_calls"
  then have "map (\<lambda>call. case call of JObj c \<Rightarrow> dict_get c ''id'' | _ \<Rightarrow> JNull) raw_calls = map (\<lambda>c. JStr (call_id c)) cs"
    by (induction rule: list_all2_induct) (auto simp: call_matches_def raw_call_def dict_get_def)
  then show ?thesis by (simp add: asked_ids_def)
qed

definition results :: "tool_call list \<Rightarrow> string list \<Rightarrow> message list" where
  "results cs texts = map (\<lambda>(c, t). tool_message (call_id c) t) (zip cs texts)"

lemma scan_results:
  "length texts = length cs \<Longrightarrow> scan (map (\<lambda>c. JStr (call_id c)) cs) (results cs texts) = Some []"
proof (induction cs texts rule: list_induct2')
  case (4 c cs t texts)
  then show ?case by (simp add: results_def)
qed (simp_all add: results_def)

lemma messages_say [simp]:
  "messages (say m s) = messages s @ [m]" "history (say m s) = history s @ [m]"
  "context_window (say m s) = context_window s" "failures (say m s) = failures s"
  by (simp_all add: say_def)

lemma repetition_frame [simp]:
  "messages (snd (repetition c oc s)) = messages s" "history (snd (repetition c oc s)) = history s"
  by (simp_all add: repetition_def Let_def)

lemma run_call_result:
  "run_call W c (s, w) = Some (go_on, s1, w1) \<Longrightarrow>
     \<exists>t. messages s1 = messages s @ [tool_message (call_id c) t] \<and> history s1 = history s @ [tool_message (call_id c) t]"
  by (auto simp: run_call_def record_result_def Let_def split_beta split: option.splits)

text \<open>
  The calls of a turn are answered in order, one result each under the call's id, in what
  is sent and in the archive alike: all of them when the turn goes on, the first few when
  it stops.
\<close>

theorem execute_answers:
  assumes "execute W cs (s, w) = Some (go_on, s', w')"
  shows "\<exists>texts. length texts \<le> length cs \<and> (go_on \<longrightarrow> length texts = length cs) \<and>
    messages s' = messages s @ results cs texts \<and> history s' = history s @ results cs texts"
  using assms
proof (induction cs arbitrary: s w)
  case Nil
  then show ?case by (auto simp: results_def)
next
  case (Cons c cs)
  have extend: ?case
    if "messages s1 = messages s @ [tool_message (call_id c) t]" "history s1 = history s @ [tool_message (call_id c) t]"
      and "\<exists>texts. length texts \<le> length cs \<and> (go_on \<longrightarrow> length texts = length cs) \<and>
        messages s' = messages s1 @ results cs texts \<and> history s' = history s1 @ results cs texts" for s1 t
  proof -
    from that(3) obtain texts where "length texts \<le> length cs" "go_on \<longrightarrow> length texts = length cs"
      "messages s' = messages s1 @ results cs texts" "history s' = history s1 @ results cs texts" by blast
    with that(1,2) show ?thesis by (intro exI[of _ "t # texts"]) (simp add: results_def)
  qed
  have stop: ?case
    if "messages s' = messages s @ [tool_message (call_id c) t]" "history s' = history s @ [tool_message (call_id c) t]"
      and "\<not> go_on" for t
    using that by (intro exI[of _ "[t]"]) (simp add: results_def)
  have ran: ?case
    if run: "run_call W c (s, w1) = Some (b, s1, w2)"
      and rest: "(if b then execute W cs (s1, w2) else Some (False, s1, w2)) = Some (go_on, s', w')" for b s1 w1 w2
  proof -
    obtain t where t: "messages s1 = messages s @ [tool_message (call_id c) t]"
      "history s1 = history s @ [tool_message (call_id c) t]" using run_call_result[OF run] by blast
    show ?thesis
    proof (cases b)
      case True
      with rest Cons.IH[of s1 w2] t show ?thesis by (intro extend) auto
    next
      case False
      with rest t show ?thesis by (intro stop) auto
    qed
  qed
  show ?case
  proof (cases "approval_for W (call_name c) (call_arguments c) w")
    case None
    with Cons.prems obtain b s1 w1 where "run_call W c (s, w) = Some (b, s1, w1)"
      "(if b then execute W cs (s1, w1) else Some (False, s1, w1)) = Some (go_on, s', w')"
      by (auto split: option.splits prod.splits)
    then show ?thesis by (rule ran)
  next
    case (Some request)
    obtain a w1 where a: "approve W s request w = (a, w1)" by fastforce
    show ?thesis
    proof (cases a)
      case Approved
      with Cons.prems Some a obtain b s1 w2 where "run_call W c (s, w1) = Some (b, s1, w2)"
        "(if b then execute W cs (s1, w2) else Some (False, s1, w2)) = Some (go_on, s', w')"
        by (auto split: option.splits prod.splits)
      then show ?thesis by (rule ran)
    next
      case Declined
      with Cons.prems Some a have "execute W cs (record_result c DECLINED s, w1) = Some (go_on, s', w')" by simp
      from Cons.IH[OF this] show ?thesis
        by (intro extend[of "record_result c DECLINED s" DECLINED]) (auto simp: record_result_def)
    next
      case Unavailable
      with Cons.prems Some a show ?thesis by (intro stop) (auto simp: record_result_def)
    qed
  qed
qed

section \<open>Compaction keeps a transcript acceptable\<close>

definition raw_transcript :: "message list \<Rightarrow> bool" where
  "raw_transcript ms \<longleftrightarrow>
     (\<forall>m \<in> set ms. role m = JStr ''assistant'' \<longrightarrow>
        (\<exists>cs raw_calls. calls_of m = Some raw_calls \<and> list_all2 call_matches cs raw_calls))"

definition transcript_ok :: "message list \<Rightarrow> bool" where
  "transcript_ok ms \<longleftrightarrow> acceptable ms \<and> raw_transcript ms \<and> (ms = [] \<or> role (hd ms) = JStr ''user'')"

lemma call_path_raw:
  "call_path tools cid (raw_call i name text) =
     (if JStr i = cid \<and> name \<in> set tools then None else Some None)"
  by (simp add: call_path_def raw_call_def dict_get_def get_or_def dict_has_def name_in_def)

lemma works_on_edited_raw:
  "list_all2 call_matches cs raw_calls \<Longrightarrow> works_on_edited edited cid raw_calls = Some hit \<Longrightarrow> \<not> hit"
  by (induction cs raw_calls rule: list_all2_induct)
    (auto simp: call_matches_def call_path_raw split: if_splits)

lemma extra_copies_raw:
  "raw_transcript ms \<Longrightarrow> extra_copies edited cid ms = Some n \<Longrightarrow> n = 0"
proof (induction ms arbitrary: n)
  case (Cons m ms)
  have raw: "raw_transcript ms" using Cons.prems(1) by (simp add: raw_transcript_def)
  show ?case
  proof (cases "role m = JStr ''assistant''")
    case True
    then obtain cs raw_calls where c: "calls_of m = Some raw_calls" "list_all2 call_matches cs raw_calls"
      using Cons.prems(1) by (auto simp: raw_transcript_def)
    from True c(1) Cons.prems(2) obtain hit k where "works_on_edited edited cid raw_calls = Some hit"
      "extra_copies edited cid ms = Some k" "n = (if hit then 1 else 0) + k"
      by (auto split: option.splits)
    with works_on_edited_raw[OF c(2)] Cons.IH[OF raw] show ?thesis by auto
  qed (use Cons raw in simp)
qed simp

lemma build_tail_raw:
  "raw_transcript all_messages \<Longrightarrow> build_tail edited all_messages ms = Some tail \<Longrightarrow> tail = ms"
proof (induction ms arbitrary: tail)
  case (Cons m ms)
  then obtain n rest where "build_tail edited all_messages ms = Some rest" "tail = replicate n m @ m # rest"
    "(if role m = JStr ''tool'' \<and> edited \<noteq> []
      then extra_copies edited (dict_get m ''tool_call_id'') all_messages else Some 0) = Some n"
    by (auto split: option.splits)
  with Cons.IH Cons.prems(1) extra_copies_raw show ?case by (fastforce split: if_splits)
qed simp

lemma scan_from_turn:
  "scan p (xs @ ys) = Some [] \<Longrightarrow> ys = [] \<or> role (hd ys) \<noteq> JStr ''tool'' \<Longrightarrow> scan [] ys = Some []"
  by (cases ys) (auto simp: scan_append split: option.splits if_splits)

lemma dropWhile_suffix: "\<exists>pre. xs = pre @ dropWhile P xs"
  by (metis takeWhile_dropWhile_id)

lemma compact_shape:
  assumes "raw_transcript (messages s)" and "compact_if_needed edited s = Some s'"
  obtains (kept) "s' = s"
  | (compacted) summary pre tail where "messages s = pre @ tail" "length tail \<le> 6" "8 < length (messages s)"
      "tail = [] \<or> role (hd tail) \<noteq> JStr ''tool''"
      "s' = s\<lparr>messages := take 1 (messages s) @ [user_message summary] @ tail\<rparr>"
proof (cases "context_window s \<le> 0 \<or> estimate_tokens (messages s) * 4 < context_window s * 3 \<or> length (messages s) \<le> 8")
  case True
  with assms(2) show thesis by (intro kept) (auto simp: compact_if_needed_def Let_def split: if_splits)
next
  case False
  let ?ms = "messages s" let ?last = "drop (length (messages s) - 6) (messages s)"
  let ?tail = "dropWhile (\<lambda>m. role m = JStr ''tool'') ?last"
  from False assms(2) have bt: "build_tail edited ?ms ?last = Some ?last"
    using build_tail_raw[OF assms(1), of edited ?last]
    by (cases "build_tail edited ?ms ?last") (auto simp: compact_if_needed_def Let_def)
  show thesis
  proof (cases "length ?ms \<le> 1 + length ?tail")
    case True
    with False assms(2) bt show ?thesis by (intro kept) (simp add: compact_if_needed_def Let_def)
  next
    case short: False
    with False assms(2) bt obtain files where s': "s' = s\<lparr>messages := take 1 ?ms
        @ [user_message (compaction_note (length ?ms - 1 - length ?tail) files)] @ ?tail\<rparr>"
      by (auto simp: compact_if_needed_def Let_def split: option.splits)
    obtain pre where "?last = pre @ ?tail" using dropWhile_suffix by blast
    then have "?ms = (take (length ?ms - 6) ?ms @ pre) @ ?tail" by (metis append_assoc append_take_drop_id)
    moreover have "length ?tail \<le> 6"
      using length_dropWhile_le[of "\<lambda>m. role m = JStr ''tool''" ?last] by simp
    moreover have "?tail = [] \<or> role (hd ?tail) \<noteq> JStr ''tool''" using hd_dropWhile by blast
    moreover have "8 < length ?ms" using False by simp
    ultimately show ?thesis using s' compacted by blast
  qed
qed

lemma compact_ok:
  assumes "transcript_ok (messages s)" and "compact_if_needed edited s = Some s'"
  shows "transcript_ok (messages s')"
proof -
  have raw: "raw_transcript (messages s)" using assms(1) by (simp add: transcript_ok_def)
  from raw assms(2) show ?thesis
  proof (cases rule: compact_shape)
    case kept
    with assms(1) show ?thesis by simp
  next
    case (compacted summary pre tail)
    obtain m ms where m: "messages s = m # ms" using compacted(3) by (cases "messages s") simp_all
    have user: "role m = JStr ''user''" using assms(1) m by (simp add: transcript_ok_def)
    have "scan [] tail = Some []"
      using assms(1) compacted(1,4) scan_from_turn by (metis acceptable_def transcript_ok_def)
    moreover have "asked_ids m = []" using user by (simp add: asked_ids_def)
    ultimately have "acceptable (messages s')"
      using compacted(5) m user by (simp add: acceptable_def)
    moreover have "raw_transcript (messages s')"
    proof -
      have "set (messages s') \<subseteq> insert (user_message summary) (set (messages s))"
        unfolding compacted(5) compacted(1) by (auto dest: in_set_takeD)
      moreover have "role (user_message summary) \<noteq> JStr ''assistant''" by simp
      ultimately show ?thesis using raw unfolding raw_transcript_def by blast
    qed
    ultimately show ?thesis using compacted(5) m user by (simp add: transcript_ok_def)
  qed
qed

lemma compact_history [simp]:
  "compact_if_needed edited s = Some s' \<Longrightarrow> history s' = history s"
  by (auto simp: compact_if_needed_def Let_def split: option.splits if_splits)

section \<open>The interface to the model\<close>

text \<open>
  What the loop needs of whoever produces the turns: the calls and the raw calls of a turn
  pair up. Then every way the loop goes on keeps the transcript acceptable.
\<close>

locale turn_source =
  fixes turn_of :: "message list \<Rightarrow> 'w \<Rightarrow> turn_result \<times> 'w"
  assumes matched: "turn_of ms w = (Turn turn raw_calls, w') \<Longrightarrow>
      list_all2 call_matches (tool_calls turn) raw_calls"
begin

lemma executed_ok:
  assumes "transcript_ok (messages s)" and "messages s \<noteq> []"
    and "list_all2 call_matches (tool_calls turn) raw_calls"
    and "execute W (tool_calls turn) (say (as_message turn raw_calls) s, w) = Some (True, s', w')"
  shows "transcript_ok (messages s')"
proof -
  obtain texts where texts: "length texts = length (tool_calls turn)"
    "messages s' = (messages s @ [as_message turn raw_calls]) @ results (tool_calls turn) texts"
    using execute_answers[OF assms(4)] by auto
  have "asked_ids (as_message turn raw_calls) = map (\<lambda>c. JStr (call_id c)) (tool_calls turn)"
    by (rule asked_ids_as_message[OF assms(3)])
  with scan_results[OF texts(1)] have "acceptable (messages s')"
    using assms(1) texts(2) by (simp add: transcript_ok_def acceptable_def scan_append)
  moreover have "raw_transcript (messages s')"
    using assms(1,3) texts(2) by (auto simp: transcript_ok_def raw_transcript_def results_def)
  ultimately show ?thesis using assms(1,2) texts(2) by (simp add: transcript_ok_def)
qed

lemma said_ok:
  assumes "transcript_ok (messages s)" and "messages s \<noteq> []" and "list_all2 call_matches [] raw_calls"
  shows "transcript_ok (messages (say (as_message turn raw_calls) s))"
    and "transcript_ok (messages (say (user_message text) s))"
  using assms by (auto simp: transcript_ok_def acceptable_def scan_append raw_transcript_def asked_ids_def)

lemma compacted_nonempty: "compact_if_needed edited s = Some s' \<Longrightarrow> messages s \<noteq> [] \<Longrightarrow> messages s' \<noteq> []"
  by (auto simp: compact_if_needed_def Let_def split: option.splits if_splits)

lemma loop_ok:
  assumes "model_turn W = turn_of"
  shows "ask_loop W n (s, w) = Some (e, s', w') \<Longrightarrow> transcript_ok (messages s) \<Longrightarrow> messages s \<noteq> [] \<Longrightarrow>
     e \<noteq> Gave_Up \<Longrightarrow> transcript_ok (messages s')"
proof (induction n arbitrary: s w)
  case (Suc n)
  obtain s1 where s1: "compact_if_needed (edited_files W w) s = Some s1"
    using Suc.prems(1) by (auto split: option.splits)
  note ok1 = compact_ok[OF Suc.prems(2) s1] compacted_nonempty[OF s1 Suc.prems(3)]
  obtain r w1 where r: "turn_of (messages s1) w = (r, w1)" by fastforce
  show ?case
  proof (cases r)
    case (Turn turn raw_calls)
    let ?s2 = "say (as_message turn raw_calls) s1"
    have m: "list_all2 call_matches (tool_calls turn) raw_calls" using matched r Turn by blast
    show ?thesis
    proof (cases "tool_calls turn = []")
      case True
      then have ok2: "transcript_ok (messages ?s2)" using m by (intro said_ok(1)[OF ok1]) simp
      then have "transcript_ok (messages (say (malformed_message ps) ?s2))" for ps
        unfolding malformed_message_def by (rule said_ok(2)[OF _ _ list_all2_Nil[THEN iffD2]]) simp_all
      with True Suc.prems Suc.IH s1 r Turn ok2 assms show ?thesis by (auto simp: Let_def split: if_splits)
    next
      case False
      with Suc.prems(1) s1 r Turn assms obtain go_on s3 w3 where
        x: "execute W (tool_calls turn) (?s2, w1) = Some (go_on, s3, w3)"
        "(if go_on then ask_loop W n (s3, w3) else Some (Gave_Up, s3, w3)) = Some (e, s', w')"
        by (auto split: option.splits bool.splits prod.splits)
      with Suc.prems(4) have go: "go_on" by (cases go_on) auto
      from x(1) go have "execute W (tool_calls turn) (?s2, w1) = Some (True, s3, w3)" by simp
      then have "transcript_ok (messages s3)" by (rule executed_ok[OF ok1 m])
      moreover have "messages s3 \<noteq> []" using execute_answers[OF x(1)] by auto
      ultimately show ?thesis using Suc.IH[of s3 w3] x(2) go Suc.prems(4) by simp
    qed
  qed (use Suc.prems s1 r ok1 assms in simp_all)
qed simp

end

text \<open>The client's turns, over any network: the source the agent is built with.\<close>

definition client_turn :: "string \<Rightarrow> (message list \<Rightarrow> 'w \<Rightarrow> exchange \<times> 'w) \<Rightarrow>
    message list \<Rightarrow> 'w \<Rightarrow> turn_result \<times> 'w" where
  "client_turn url network ms w =
     (let (x, w1) = network ms w in (fst (run_turn url x), w1))"

interpretation chat: turn_source "client_turn url network" for url and network :: "message list \<Rightarrow> 'w \<Rightarrow> exchange \<times> 'w"
  by unfold_locales (auto simp: client_turn_def split: prod.splits intro!: run_turn_matches prod_eqI)

section \<open>What the loop guarantees\<close>

text \<open>
  C2. Unless it gives up in the middle of a turn, asking leaves a transcript the gateway accepts:
  every tool call of every assistant message is answered by one result under its id before
  anything else follows, no result is an orphan, and compaction does not change that.
\<close>

theorem ask_keeps_transcript:
  assumes "transcript_ok (messages s)" and "model_turn W = client_turn url network"
    and "ask W text (s, w) = Some (e, s', w')" and "e \<noteq> Gave_Up"
  shows "transcript_ok (messages s')"
proof -
  define said where "said = (if rules_sent s then text else SYSTEM_PROMPT @ [NL, NL] @ ''---'' @ [NL, NL] @ text)"
  define s1 where "s1 = say (user_message said) (s\<lparr>rules_sent := True\<rparr>)"
  have loop: "ask_loop W MAX_STEPS (s1, w) = Some (e, s', w')"
    using assms(3) by (simp add: ask_def s1_def said_def Let_def del: ask_loop.simps)
  have ms: "messages s1 = messages s @ [user_message said]" by (simp add: s1_def)
  then have "transcript_ok (messages s1)" "messages s1 \<noteq> []"
    using assms(1) by (auto simp: transcript_ok_def acceptable_def scan_append raw_transcript_def hd_append)
  from chat.loop_ok[OF assms(2) loop this assms(4)] show ?thesis .
qed

definition content_event :: "string \<Rightarrow> json" where
  "content_event text = JObj [(''choices'', JArr [JObj [(''delta'', JObj [(''content'', JStr text)])]])]"

text \<open>A sample world: the model lists the files, then answers; no tool needs approval.\<close>

definition sample_network :: "message list \<Rightarrow> nat \<Rightarrow> exchange \<times> nat" where
  "sample_network ms n =
     (if n = 0 then (Streamed [sse (delta_event (opening_fragment 0 ''c1'' ''list_files''))] None, 1)
      else (Streamed [sse (content_event ''Done.'')] None, n + 1))"

definition sample_world :: "nat world" where
  "sample_world = \<lparr>approval_for = (\<lambda>name args w. None), ask_user = (\<lambda>r w. (Declined, w)),
     invoke = (\<lambda>name args w. Some (answer ''a.py'', w)),
     model_turn = client_turn ''u'' sample_network, edited_files = (\<lambda>w. [])\<rparr>"

definition sample_session :: session where
  "sample_session = (open_session [] 0 False)\<lparr>rules_sent := True\<rparr>"

theorem ask_keeps_transcript_witness:
  "\<exists>s' w'. ask sample_world ''Which files are there?'' (sample_session, 0) = Some (Answered, s', w') \<and>
     length (messages s') = 4 \<and> transcript_ok (messages s')"
proof -
  let ?r = "ask sample_world ''Which files are there?'' (sample_session, 0)"
  have "case ?r of Some (e, s', w') \<Rightarrow> e = Answered \<and> length (messages s') = 4 | None \<Rightarrow> False"
    by code_simp
  then obtain s' w' where r: "?r = Some (Answered, s', w')" "length (messages s') = 4"
    by (auto split: option.splits)
  have "transcript_ok (messages sample_session)"
    by (simp add: sample_session_def open_session_def transcript_ok_def acceptable_def raw_transcript_def)
  moreover have "model_turn sample_world = client_turn ''u'' sample_network" by (simp add: sample_world_def)
  ultimately have "transcript_ok (messages s')" by (rule ask_keeps_transcript[OF _ _ r(1)]) simp
  with r show ?thesis by blast
qed

theorem execute_answers_witness:
  "\<exists>s' w'. execute sample_world [\<lparr>call_id = ''c1'', call_name = ''list_files'', call_arguments = []\<rparr>] (sample_session, 0)
      = Some (True, s', w') \<and>
     (\<exists>texts. messages s' = messages sample_session
        @ results [\<lparr>call_id = ''c1'', call_name = ''list_files'', call_arguments = []\<rparr>] texts)"
proof -
  let ?x = "execute sample_world [\<lparr>call_id = ''c1'', call_name = ''list_files'', call_arguments = []\<rparr>] (sample_session, 0)"
  have "case ?x of Some (b, s', w') \<Rightarrow> b | None \<Rightarrow> False" by code_simp
  then obtain s' w' where x: "?x = Some (True, s', w')" by (auto split: option.splits)
  from execute_answers[OF x] x show ?thesis by blast
qed

text \<open>
  Giving up in the middle of a turn leaves calls open: when the user cannot be asked about
  the first of several calls, the others get no result, and whatever is said next makes the
  transcript one the gateway rejects.
\<close>

theorem giving_up_leaves_calls_open:
  assumes "acceptable (messages s)" and "\<not> auto_approve s"
    and "list_all2 call_matches (c # d # cs) raw_calls"
    and "approval_for W (call_name c) (call_arguments c) w = Some request"
    and "ask_user W request w = (Unavailable, w1)"
  shows "\<exists>s'. execute W (c # d # cs) (say (as_message turn raw_calls) s, w) = Some (False, s', w1) \<and>
    \<not> acceptable (messages s') \<and> \<not> acceptable (messages s' @ user_message text # later)"
proof -
  let ?s = "say (as_message turn raw_calls) s"
  define s' where "s' = record_result c ''The user could not be asked, so this did not run.'' ?s"
  have "auto_approve ?s = auto_approve s" by (simp add: say_def)
  with assms(2,4,5) have x: "execute W (c # d # cs) (?s, w) = Some (False, s', w1)"
    by (simp add: s'_def approve_def)
  have "asked_ids (as_message turn raw_calls) = map (\<lambda>c. JStr (call_id c)) (c # d # cs)"
    by (rule asked_ids_as_message[OF assms(3)])
  then have "scan [] (messages s') = Some (map (\<lambda>c. JStr (call_id c)) (d # cs))"
    using assms(1) by (simp add: s'_def record_result_def acceptable_def scan_append)
  then have "\<not> acceptable (messages s')" "\<not> acceptable (messages s' @ user_message text # later)"
    by (simp_all add: acceptable_def scan_append)
  with x show ?thesis by blast
qed

definition deaf_world :: "unit world" where
  "deaf_world = \<lparr>approval_for = (\<lambda>name args w. Some (''Run'', name)), ask_user = (\<lambda>r w. (Unavailable, w)),
     invoke = (\<lambda>name args w. None), model_turn = (\<lambda>ms w. (TurnError [], w)), edited_files = (\<lambda>w. [])\<rparr>"

theorem giving_up_leaves_calls_open_witness:
  "\<exists>s'. execute deaf_world [\<lparr>call_id = ''a'', call_name = ''run'', call_arguments = []\<rparr>,
         \<lparr>call_id = ''b'', call_name = ''run'', call_arguments = []\<rparr>]
       (say (as_message empty_turn [raw_call ''a'' ''run'' ''{}'', raw_call ''b'' ''run'' ''{}'']) sample_session, ())
     = Some (False, s', ()) \<and> \<not> acceptable (messages s')"
proof -
  have e: "json_loads ''{}'' = Inr (JObj [])" by code_simp
  have "list_all2 call_matches [\<lparr>call_id = ''a'', call_name = ''run'', call_arguments = []\<rparr>,
      \<lparr>call_id = ''b'', call_name = ''run'', call_arguments = []\<rparr>]
      [raw_call ''a'' ''run'' ''{}'', raw_call ''b'' ''run'' ''{}'']"
    using e by (simp add: call_matches_def) blast
  note matched = this
  have "acceptable (messages sample_session)" "\<not> auto_approve sample_session"
    by (simp_all add: sample_session_def open_session_def acceptable_def)
  note start = this
  have "approval_for deaf_world (call_name \<lparr>call_id = ''a'', call_name = ''run'', call_arguments = []\<rparr>)
      (call_arguments \<lparr>call_id = ''a'', call_name = ''run'', call_arguments = []\<rparr>) () = Some (''Run'', ''run'')"
    "ask_user deaf_world (''Run'', ''run'') () = (Unavailable, ())"
    by (simp_all add: deaf_world_def)
  from giving_up_leaves_calls_open[OF start matched this] show ?thesis by blast
qed

section \<open>Compaction and file reads\<close>

lemma read_paths_raises:
  "call \<in> set calls \<Longrightarrow> call_path [''read_file''] cid call = None \<Longrightarrow> read_paths edited cid calls = None"
  by (induction calls) (auto split: option.split)

lemma concat_options_raises: "None \<in> set xs \<Longrightarrow> concat_options xs = None"
proof (induction xs)
  case (Cons x xs)
  then show ?case by (cases x) auto
qed simp

text \<open>
  Compacting a transcript in which the result of a file read is due to be dropped raises an
  exception nobody catches: the path is looked up in the call's arguments as if they
  were a dictionary, and they are the JSON text the client put there.
\<close>

theorem compaction_raises_on_file_reads:
  assumes "raw_transcript (messages s)" and "0 < context_window s"
    and "context_window s * 3 \<le> estimate_tokens (messages s) * 4" and "8 < length (messages s)"
    and "0 < i" and "i + 6 < length (messages s)"
    and "role (messages s ! i) = JStr ''tool''" and "dict_get (messages s ! i) ''tool_call_id'' = JStr cid"
    and "asking \<in> set (messages s)" and "role asking = JStr ''assistant''" and "calls_of asking = Some calls"
    and "raw_call cid ''read_file'' args \<in> set calls"
  shows "compact_if_needed edited s = None"
proof -
  let ?ms = "messages s" let ?last = "drop (length ?ms - 6) ?ms"
  have "call_path [''read_file''] (JStr cid) (raw_call cid ''read_file'' args) = None"
    by (simp add: call_path_raw)
  with read_paths_raises[OF assms(12)] have "read_paths edited (JStr cid) calls = None" by blast
  with assms(7-11) have raises: "paths_read_for edited ?ms (?ms ! i) = None"
    unfolding paths_read_for_def by (auto intro!: concat_options_raises image_eqI[where x = asking])
  show ?thesis
  proof (cases "build_tail edited ?ms ?last")
    case None
    with assms(2-4) show ?thesis by (simp add: compact_if_needed_def Let_def)
  next
    case (Some t)
    define tail where "tail = dropWhile (\<lambda>m. role m = JStr ''tool'') t"
    have "length tail \<le> 6"
      using build_tail_raw[OF assms(1) Some] length_dropWhile_le[of "\<lambda>m. role m = JStr ''tool''" ?last]
      by (simp add: tail_def)
    then have "?ms ! i \<in> set (drop 1 (take (length ?ms - length tail) ?ms))"
      using assms(5,6) by (auto simp: in_set_conv_nth intro!: exI[of _ "i - 1"])
    then have "concat_options (map (paths_read_for edited ?ms) (drop 1 (take (length ?ms - length tail) ?ms))) = None"
      using raises by (intro concat_options_raises) force
    moreover have "\<not> length ?ms \<le> 1 + length tail" using \<open>length tail \<le> 6\<close> assms(4) by simp
    ultimately show ?thesis
      using Some assms(2-4) unfolding tail_def by (simp add: compact_if_needed_def Let_def)
  qed
qed

definition long_transcript :: "message list" where
  "long_transcript = [user_message ''q'', as_message empty_turn [raw_call ''r'' ''read_file'' ''{}''], tool_message ''r'' ''text'',
     user_message ''1'', user_message ''2'', user_message ''3'', user_message ''4'', user_message ''5'', user_message ''6'']"

theorem compaction_raises_on_file_reads_witness:
  "compact_if_needed [] (open_session long_transcript 100 False) = None"
proof -
  let ?s = "open_session long_transcript 100 False"
  have "json_loads ''{}'' = Inr (JObj [])" by code_simp
  then have "call_matches \<lparr>call_id = ''r'', call_name = ''read_file'', call_arguments = []\<rparr> (raw_call ''r'' ''read_file'' ''{}'')"
    by (simp add: call_matches_def) blast
  then have "list_all2 call_matches [\<lparr>call_id = ''r'', call_name = ''read_file'', call_arguments = []\<rparr>]
      [raw_call ''r'' ''read_file'' ''{}'']" by simp
  then have "raw_transcript long_transcript"
    by (auto simp: raw_transcript_def long_transcript_def simp del: list_all2_Cons2)
  then have raw: "raw_transcript (messages ?s)" by (simp add: open_session_def)
  have size: "100 * 3 \<le> estimate_tokens (messages ?s) * 4" by code_simp
  show ?thesis
    by (rule compaction_raises_on_file_reads[OF raw, where i = 2 and cid = "''r''"
          and asking = "as_message empty_turn [raw_call ''r'' ''read_file'' ''{}'']"
          and calls = "[raw_call ''r'' ''read_file'' ''{}'']" and args = "''{}''"])
      (use size in \<open>simp_all add: open_session_def long_transcript_def\<close>)
qed

section \<open>Repair and archive\<close>

lemma scan_without_assistant:
  "\<forall>m \<in> set later. role m \<noteq> JStr ''assistant'' \<Longrightarrow> scan q later = Some p \<Longrightarrow> distinct q \<Longrightarrow>
     p = filter (\<lambda>i. i \<notin> set (answered_ids later)) q"
proof (induction q later rule: scan.induct)
  case (2 pending m ms)
  show ?case
  proof (cases "role m = JStr ''tool''")
    case True
    with 2 show ?thesis
      by (auto simp: answered_ids_def distinct_remove1_removeAll filter_remove1 removeAll_filter_not_eq
          intro!: filter_cong split: if_splits)
  next
    case False
    with 2 show ?thesis by (auto simp: asked_ids_def split: if_splits)
  qed
qed (simp add: answered_ids_def)

lemma open_ids_raw:
  assumes "list_all2 call_matches cs raw_calls"
  shows "map JStr (open_ids raw_calls answered) =
    filter (\<lambda>i. i \<notin> set answered) (map (\<lambda>call. case call of JObj c \<Rightarrow> dict_get c ''id'' | _ \<Rightarrow> JNull) raw_calls)"
  using assms
  by (induction rule: list_all2_induct)
    (auto simp: open_ids_def call_matches_def raw_call_def dict_get_def json_str_def)

lemma unanswered_is_pending:
  "raw_transcript ms \<Longrightarrow> \<forall>m \<in> set ms. distinct (asked_ids m) \<Longrightarrow> \<forall>m \<in> set later. role m \<noteq> JStr ''assistant'' \<Longrightarrow>
     scan [] (ms @ later) = Some p \<Longrightarrow> \<exists>ids. unanswered_from (rev ms) later = Some ids \<and> map JStr ids = p"
proof (induction ms arbitrary: later rule: rev_induct)
  case Nil
  with scan_without_assistant[of later "[]" p] show ?case by simp
next
  case (snoc m ms)
  have raw: "raw_transcript ms" using snoc.prems(1) by (simp add: raw_transcript_def)
  show ?case
  proof (cases "role m = JStr ''assistant''")
    case False
    with snoc.IH[OF raw, of "m # later"] snoc.prems show ?thesis by simp
  next
    case True
    then obtain cs raw_calls where c: "calls_of m = Some raw_calls" "list_all2 call_matches cs raw_calls"
      using snoc.prems(1) by (auto simp: raw_transcript_def)
    have "scan (asked_ids m) later = Some p"
      using snoc.prems(4) True by (auto simp: scan_append split: option.splits if_splits)
    with scan_without_assistant[OF snoc.prems(3)] snoc.prems(2)
    have "p = filter (\<lambda>i. i \<notin> set (answered_ids later)) (asked_ids m)" by simp
    with open_ids_raw[OF c(2)] True c(1) show ?thesis by (simp add: asked_ids_def)
  qed
qed

lemma messages_interrupted:
  "messages (fold (\<lambda>i. say (tool_message i text)) ids s) = messages s @ map (\<lambda>i. tool_message i text) ids"
  by (induction ids arbitrary: s) simp_all

lemma scan_interrupted: "scan (map JStr ids) (map (\<lambda>i. tool_message i text) ids) = Some []"
  by (induction ids) simp_all

text \<open>
  C23. After a cancelled turn the repair answers exactly the calls that are open, however many of
  the turn's results had arrived, so the transcript is acceptable again; repairing it once
  more changes nothing.
\<close>

theorem repair_closes_calls:
  assumes "raw_transcript (messages s)" and "\<forall>m \<in> set (messages s). distinct (asked_ids m)"
    and "scan [] (messages s) = Some pending"
  shows "\<exists>s'. repair_after_cancel s = Some (length pending, s') \<and> acceptable (messages s') \<and>
    repair_after_cancel s' = Some (0, s')"
proof -
  from unanswered_is_pending[OF assms(1,2), of "[]" pending] assms(3)
  obtain ids where ids: "unanswered_tool_calls s = Some ids" "map JStr ids = pending"
    by (auto simp: unanswered_tool_calls_def)
  define s' where "s' = fold (\<lambda>i. say (tool_message i INTERRUPTED)) ids s"
  have ms: "messages s' = messages s @ map (\<lambda>i. tool_message i INTERRUPTED) ids"
    by (simp add: s'_def messages_interrupted)
  have closed: "scan [] (messages s') = Some []"
    using assms(3) scan_interrupted[of ids INTERRUPTED] ids(2) by (simp add: ms scan_append)
  have "raw_transcript (messages s')" "\<forall>m \<in> set (messages s'). distinct (asked_ids m)"
    using assms(1,2) by (auto simp: ms raw_transcript_def asked_ids_def)
  from unanswered_is_pending[OF this, of "[]" "[]"] closed
  have "unanswered_tool_calls s' = Some []" by (simp add: unanswered_tool_calls_def)
  then have "repair_after_cancel s' = Some (0, s')" by (simp add: repair_after_cancel_def)
  moreover have "repair_after_cancel s = Some (length pending, s')"
    using ids by (auto simp: repair_after_cancel_def s'_def)
  ultimately show ?thesis using closed by (auto simp: acceptable_def)
qed

theorem repair_closes_calls_witness:
  "\<exists>s'. repair_after_cancel (open_session [user_message ''q'', as_message empty_turn [raw_call ''r'' ''run'' ''{}'']] 0 False)
     = Some (length [JStr ''r''], s') \<and> acceptable (messages s')"
proof -
  let ?s = "open_session [user_message ''q'', as_message empty_turn [raw_call ''r'' ''run'' ''{}'']] 0 False"
  have "json_loads ''{}'' = Inr (JObj [])" by code_simp
  then have "call_matches \<lparr>call_id = ''r'', call_name = ''run'', call_arguments = []\<rparr> (raw_call ''r'' ''run'' ''{}'')"
    by (simp add: call_matches_def) blast
  then have m: "list_all2 call_matches [\<lparr>call_id = ''r'', call_name = ''run'', call_arguments = []\<rparr>] [raw_call ''r'' ''run'' ''{}'']"
    by simp
  then have "raw_transcript (messages ?s)"
    by (auto simp: raw_transcript_def open_session_def simp del: list_all2_Cons2)
  moreover have "\<forall>m \<in> set (messages ?s). distinct (asked_ids m)" "scan [] (messages ?s) = Some [JStr ''r'']"
    using asked_ids_as_message[OF m, of empty_turn] by (simp_all add: open_session_def)
  ultimately show ?thesis using repair_closes_calls[of ?s] by blast
qed

end
