(* ===== verification/Agent.thy ===== *)
theory Agent
  imports Session
begin

text \<open>
  The session over its tool box: the interface \<open>world\<close> of \<open>Session\<close> given by the tools of
  \<open>Tools\<close>, as \<open>Session._ask\<close> and \<open>Session._execute\<close> of \<open>llm_assistant_agent/session.py\<close> put
  them together. The user, the model server and the clock are parameters with a state of
  their own.
\<close>

definition edited_paths :: "workspace \<Rightarrow> string list" where
  "edited_paths ws = map (relative ws) (sorted_list_of_set (written_since_read ws))"

definition agent_world ::
  "tool_env \<Rightarrow> ('u \<Rightarrow> rat) \<Rightarrow> (string \<times> string \<Rightarrow> 'u \<Rightarrow> approval \<times> 'u) \<Rightarrow>
   (message list \<Rightarrow> 'u \<Rightarrow> turn_result \<times> 'u) \<Rightarrow> (toolbox \<times> 'u) world" where
  "agent_world E clock user turn =
     \<lparr>approval_for = (\<lambda>name d (box, u). approval_request E name d box),
      ask_user = (\<lambda>request (box, u). apsnd (Pair box) (user request u)),
      invoke = (\<lambda>name d (box, u).
        map_option (apsnd (\<lambda>box. (box, u))) (invoke_tool E (clock u) None name d box)),
      model_turn = (\<lambda>ms (box, u). apsnd (Pair box) (turn ms u)),
      edited_files = (\<lambda>(box, u). edited_paths (box_workspace box))\<rparr>"

section \<open>What a session keeps of its world\<close>

text \<open>
  An invariant of the world survives a session that approves nothing, when it survives every
  call nobody has to approve, every question and every model turn.
\<close>

definition kept_unasked :: "'w world \<Rightarrow> ('w \<Rightarrow> bool) \<Rightarrow> bool" where
  "kept_unasked W I \<longleftrightarrow>
     (\<forall>name d w outcome w'. I w \<longrightarrow> approval_for W name d w = None \<longrightarrow> invoke W name d w = Some (outcome, w') \<longrightarrow> I w') \<and>
     (\<forall>request w. I w \<longrightarrow> I (snd (ask_user W request w)) \<and> fst (ask_user W request w) \<noteq> Approved) \<and>
     (\<forall>ms w. I w \<longrightarrow> I (snd (model_turn W ms w)))"

lemma kept_invoke:
  "kept_unasked W I \<Longrightarrow> I w \<Longrightarrow> approval_for W name d w = None \<Longrightarrow> invoke W name d w = Some (outcome, w') \<Longrightarrow> I w'"
  unfolding kept_unasked_def by blast

lemma kept_ask: "kept_unasked W I \<Longrightarrow> I w \<Longrightarrow> ask_user W request w = (a, w') \<Longrightarrow> I w' \<and> a \<noteq> Approved"
  unfolding kept_unasked_def by (metis fst_conv snd_conv)

lemma kept_turn: "kept_unasked W I \<Longrightarrow> I w \<Longrightarrow> model_turn W ms w = (r, w') \<Longrightarrow> I w'"
  unfolding kept_unasked_def by (metis snd_conv)

lemma run_call_cases:
  assumes "run_call W c (s, w) = Some (go_on, s', w')"
  obtains outcome where "invoke W (call_name c) (call_arguments c) w = Some (outcome, w')" "auto_approve s' = auto_approve s"
  using assms
  by (auto simp: run_call_def repetition_def Let_def record_result_def say_def split: option.splits prod.splits if_splits)

lemma record_result_approve [simp]: "auto_approve (record_result c told s) = auto_approve s"
  by (simp add: record_result_def say_def)

lemma execute_keeps:
  assumes "kept_unasked W I"
  shows "execute W cs (s, w) = Some (go_on, s', w') \<Longrightarrow> I w \<Longrightarrow> \<not> auto_approve s \<Longrightarrow> I w' \<and> \<not> auto_approve s'"
proof (induction cs arbitrary: s w)
  case (Cons c cs)
  show ?case
  proof (cases "approval_for W (call_name c) (call_arguments c) w")
    case None
    then obtain go s1 w1 where step: "run_call W c (s, w) = Some (go, s1, w1)"
      "(if go then execute W cs (s1, w1) else Some (False, s1, w1)) = Some (go_on, s', w')"
      using Cons.prems(1) by (auto split: option.splits)
    from step(1) obtain outcome where "invoke W (call_name c) (call_arguments c) w = Some (outcome, w1)"
      "auto_approve s1 = auto_approve s" by (rule run_call_cases)
    with kept_invoke[OF assms Cons.prems(2) None] Cons.prems(3) have "I w1" "\<not> auto_approve s1" by auto
    with step(2) Cons.IH show ?thesis by (cases go) auto
  next
    case (Some request)
    obtain a w1 where asked: "ask_user W request w = (a, w1)" by fastforce
    from kept_ask[OF assms Cons.prems(2) asked] have w1: "I w1" "a \<noteq> Approved" by auto
    with Cons.prems Some asked show ?thesis
      by (cases a) (auto simp: approve_def dest: Cons.IH)
  qed
qed simp

lemma compact_approve: "compact_if_needed edited s = Some s' \<Longrightarrow> auto_approve s' = auto_approve s"
  by (auto simp: compact_if_needed_def Let_def split: if_splits option.splits)

lemma say_approve [simp]: "auto_approve (say m s) = auto_approve s"
  by (simp add: say_def)

lemma ask_loop_keeps:
  assumes "kept_unasked W I"
  shows "ask_loop W n (s, w) = Some (e, s', w') \<Longrightarrow> I w \<Longrightarrow> \<not> auto_approve s \<Longrightarrow> I w'"
proof (induction n arbitrary: s w)
  case (Suc n)
  from Suc.prems(1) obtain s1 where c: "compact_if_needed (edited_files W w) s = Some s1"
    by (auto split: option.splits)
  have s1: "\<not> auto_approve s1" using compact_approve[OF c] Suc.prems(3) by simp
  obtain r w1 where turn: "model_turn W (messages s1) w = (r, w1)" by fastforce
  have w1: "I w1" by (rule kept_turn[OF assms Suc.prems(2) turn])
  show ?case
  proof (cases r)
    case (Turn t raw_calls)
    let ?s2 = "say (as_message t raw_calls) s1"
    show ?thesis
    proof (cases "tool_calls t = []")
      case True
      with Suc.prems(1) c turn Turn s1 w1 show ?thesis
        by (auto simp: Let_def split: if_splits dest: Suc.IH)
    next
      case False
      then obtain go s3 w3 where step: "execute W (tool_calls t) (?s2, w1) = Some (go, s3, w3)"
        "(if go then ask_loop W n (s3, w3) else Some (Gave_Up, s3, w3)) = Some (e, s', w')"
        using Suc.prems(1) c turn Turn by (auto split: option.splits bool.splits)
      from execute_keeps[OF assms step(1) w1] s1 have "I w3" "\<not> auto_approve s3" by auto
      with step(2) Suc.IH show ?thesis by (cases go) auto
    qed
  qed (use Suc.prems(1) c turn w1 in auto)
qed simp

lemma ask_keeps:
  assumes "kept_unasked W I" and "ask W text (s, w) = Some (e, s', w')" and "I w" and "\<not> auto_approve s"
  shows "I w'"
  using ask_loop_keeps[OF assms(1)] assms(2-4) unfolding ask_def Let_def by (auto split: if_splits)

section \<open>A user who approves nothing\<close>

definition unasked_inv :: "tool_env \<Rightarrow> fs \<Rightarrow> path \<Rightarrow> string list \<Rightarrow> (path \<Rightarrow> string + string) \<Rightarrow> toolbox \<times> 'u \<Rightarrow> bool" where
  "unasked_inv E fs0 r baseline texts w \<longleftrightarrow>
     (let box = fst w in
      workspace_run (env_realpath E) (fs0, new_workspace r baseline) (box_fs box, box_workspace box) \<and>
      box_fs box (env_realpath E r) = Some Directory \<and> shown_text (box_fs box) = texts)"

lemma workspace_run_trans: "workspace_run realpath s t \<Longrightarrow> workspace_run realpath t u \<Longrightarrow> workspace_run realpath s u"
  by (rotate_tac) (induction rule: workspace_run.induct, auto intro: workspace_run.step)

lemma unasked_invoke:
  assumes "checkers_only_look E" and "\<And>xs ys p q. concat (env_difflib E xs ys p q 3) = [] \<Longrightarrow> xs = ys"
    and "unasked_inv E fs0 r baseline texts (box, u)" and "approval_request E name d box = None"
    and "invoke_tool E now None name d box = Some (outcome, box')"
  shows "unasked_inv E fs0 r baseline texts (box', u')"
proof (cases "name = ''run''")
  case True
  with assms unapproved_command[of E now d box outcome box'] show ?thesis by (simp add: unasked_inv_def)
next
  case False
  have inv: "workspace_run (env_realpath E) (fs0, new_workspace r baseline) (box_fs box, box_workspace box)"
    "box_fs box (env_realpath E r) = Some Directory" "shown_text (box_fs box) = texts"
    using assms(3) by (simp_all add: unasked_inv_def)
  have root: "root (box_workspace box) = r" using inv_run[OF inv(1)] by (simp add: workspace_inv_def)
  have "shown_text (box_fs box') = texts"
  proof (cases "name \<in> {''edit_file'', ''write_file''}")
    case True
    with unapproved_frame[OF inv(1) assms(1,2) _ True assms(4,5)] inv(2,3) root show ?thesis by simp
  next
    case no: False
    with looking_frame[OF assms(5)] False inv(3) show ?thesis by simp
  qed
  moreover have "workspace_run (env_realpath E) (fs0, new_workspace r baseline) (box_fs box', box_workspace box')"
    by (rule workspace_run_trans[OF inv(1) invoke_steps[OF assms(1,5)]]) (use False in simp)
  ultimately show ?thesis
    using invoke_directory[OF assms(1,5) False inv(2)] by (simp add: unasked_inv_def)
qed

text \<open>
  C1. A user who approves nothing keeps everything. From any state a session can reach, with a
  user who declines every question, or cannot be asked, no message makes the agent change
  the text of any file: whatever the model calls, every file reads as before, up to line
  endings, and what is new is empty.
\<close>

theorem declining_user_keeps_texts:
  fixes user :: "string \<times> string \<Rightarrow> 'u \<Rightarrow> approval \<times> 'u"
  assumes "workspace_run (env_realpath E) (fs0, new_workspace r baseline) (box_fs box, box_workspace box)"
    and "checkers_only_look E" and "\<And>xs ys p q. concat (env_difflib E xs ys p q 3) = [] \<Longrightarrow> xs = ys"
    and "box_fs box (env_realpath E r) = Some Directory"
    and "\<And>request u. fst (user request u) \<noteq> Approved" and "\<not> auto_approve s"
    and "ask (agent_world E clock user turn) text (s, box, u) = Some (e, s', box', u')"
  shows "shown_text (box_fs box') = shown_text (box_fs box)"
proof -
  define I :: "toolbox \<times> 'u \<Rightarrow> bool" where "I = unasked_inv E fs0 r baseline (shown_text (box_fs box))"
  have "kept_unasked (agent_world E clock user turn) I"
    unfolding kept_unasked_def
  proof (intro conjI allI impI)
    fix name d w outcome w'
    assume "I w" "approval_for (agent_world E clock user turn) name d w = None"
      "invoke (agent_world E clock user turn) name d w = Some (outcome, w')"
    then show "I w'"
      by (cases w) (auto simp: agent_world_def I_def intro: unasked_invoke[OF assms(2,3)])
  next
    fix request w
    assume "I w"
    then show "I (snd (ask_user (agent_world E clock user turn) request w))"
      by (cases w) (auto simp: agent_world_def I_def unasked_inv_def split: prod.splits)
  next
    fix request w
    show "fst (ask_user (agent_world E clock user turn) request w) \<noteq> Approved"
      using assms(5) by (cases w) (simp add: agent_world_def)
  next
    fix ms w
    assume "I w"
    then show "I (snd (model_turn (agent_world E clock user turn) ms w))"
      by (cases w) (auto simp: agent_world_def I_def unasked_inv_def split: prod.splits)
  qed
  moreover have "I (box, u)" using assms(1,4) by (simp add: I_def unasked_inv_def)
  ultimately have "I (box', u')" using assms(6,7) by (metis ask_keeps)
  then show ?thesis by (simp add: I_def unasked_inv_def)
qed

text \<open>A model that overwrites a file before it answers, and a user who declines.\<close>

definition eager_model :: "message list \<Rightarrow> nat \<Rightarrow> turn_result \<times> nat" where
  "eager_model ms u =
     (if u = 0
      then Turn (empty_turn\<lparr>tool_calls := [\<lparr>call_id = ''c1'', call_name = ''write_file'',
             call_arguments = [(''path'', JStr ''a.py''), (''content'', JStr ''gone'')]\<rparr>]\<rparr>) [raw_call ''c1'' ''write_file'' ''{}'']
      else Turn (empty_turn\<lparr>content := ''I could not.''\<rparr>) [], u + 1)"

definition declining_world :: "(toolbox \<times> nat) world" where
  "declining_world = agent_world sample_env (\<lambda>u. 9) (\<lambda>request u. (Declined, u)) eager_model"

theorem declining_user_keeps_texts_witness:
  "\<exists>s' box' u'. ask declining_world ''clean up'' (sample_session, sample_box, 0) = Some (Answered, s', box', u') \<and>
     length (messages s') = 4 \<and> shown_text (box_fs box') = shown_text sample_fs"
proof -
  have "case ask declining_world ''clean up'' (sample_session, sample_box, 0) of
      Some (e, s', box', u') \<Rightarrow> e = Answered \<and> length (messages s') = 4 | None \<Rightarrow> False" by code_simp
  then obtain s' box' u' where run: "ask declining_world ''clean up'' (sample_session, sample_box, 0) = Some (Answered, s', box', u')"
    "length (messages s') = 4" by (auto split: option.splits)
  have dir: "box_fs sample_box (env_realpath sample_env [''repo'']) = Some Directory" by code_simp
  have law: "concat (env_difflib sample_env xs ys p q 3) = [] \<Longrightarrow> xs = ys" for xs ys p q
    by (rule plain_diff_law[of xs ys p q 3]) (simp add: sample_env_def)
  have no: "fst ((\<lambda>request u. (Declined, u)) request u) \<noteq> Approved" for request :: "string \<times> string" and u :: nat by simp
  have careful: "\<not> auto_approve sample_session" by code_simp
  have "shown_text (box_fs box') = shown_text (box_fs sample_box)"
    by (rule declining_user_keeps_texts[OF sample_reached sample_looks law dir no careful run(1)[unfolded declining_world_def]])
  with run show ?thesis by (simp add: sample_box_def)
qed

end
