(* ===== verification/Tool_Calls.thy ===== *)
theory Tool_Calls
  imports Json_Codec
begin

text \<open>
  \<open>llm_assistant_api/toolcalls.py\<close>: repairing the \<open>arguments\<close> of replayed tool calls.
  \<open>ast.literal_eval\<close> is the parameter \<open>literal_eval\<close>: the value of a Python literal, or
  None when the text is not one or its value does not serialise. A text whose JSON
  escapes leave the string model (\<open>Not_modelled\<close>) counts as JSON.

  The copy-on-write of the code (the original object returned when nothing changes)
  shows here as an empty list of notes.
\<close>

section \<open>One argument value\<close>

definition ENCODED :: string where "ENCODED = ''object encoded to a JSON string''"
definition REPAIRED :: string where "REPAIRED = ''python-style literal converted to JSON''"
definition EMPTY :: string where "EMPTY = ''empty arguments replaced with {}''"

definition is_json :: "string \<Rightarrow> bool" where
  "is_json text = (case json_loads text of Inl (Decode_error e) \<Rightarrow> False | _ \<Rightarrow> True)"

fun is_container :: "json \<Rightarrow> bool" where
  "is_container (JArr xs) = True"
| "is_container (JObj d) = True"
| "is_container _ = False"

definition repair_literal :: "(string \<Rightarrow> json option) \<Rightarrow> string \<Rightarrow> string option" where
  "repair_literal literal_eval raw =
     (case literal_eval raw of
        None \<Rightarrow> None
      | Some v \<Rightarrow> if is_container v then Some (json_dumps v) else None)"

text \<open>What the log says of a text that was left alone: the message of its decoding error, and what stands around it.\<close>

definition PREVIEW_RADIUS :: nat where "PREVIEW_RADIUS = 60"

definition describe_failure :: "string \<Rightarrow> string \<Rightarrow> nat \<Rightarrow> string" where
  "describe_failure original message position =
     message @ '' (length='' @ str_nat (length original) @ ''); before=''
     @ py_repr (drop (position - PREVIEW_RADIUS) (take position original)) @ '' after=''
     @ py_repr (drop position (take (min (length original) (position + PREVIEW_RADIUS)) original))"

definition normalize_value ::
  "(string \<Rightarrow> json option) \<Rightarrow> bool \<Rightarrow> json \<Rightarrow> json \<times> string option" where
  "normalize_value literal_eval normalize_empty arguments =
     (case arguments of
        JStr s \<Rightarrow>
          if py_strip s = [] then
            (if normalize_empty then (JStr ''{}'', Some EMPTY) else (arguments, None))
          else if is_json s then (arguments, None)
          else (case repair_literal literal_eval s of
                  Some repaired \<Rightarrow> (JStr repaired, Some REPAIRED)
                | None \<Rightarrow> (arguments, None))
      | _ \<Rightarrow>
          if is_container arguments then (JStr (json_dumps arguments), Some ENCODED)
          else (arguments, None))"

section \<open>Calls, messages, payloads\<close>

definition normalize_call ::
  "(string \<Rightarrow> json option) \<Rightarrow> bool \<Rightarrow> json \<Rightarrow> json \<times> string list" where
  "normalize_call literal_eval normalize_empty call =
     (case call of
        JObj c \<Rightarrow>
          (case dict_get c ''function'' of
             JObj f \<Rightarrow>
               if \<not> dict_has f ''arguments'' then (call, [])
               else
                 (let name = (if truthy (dict_get f ''name'') then json_str (dict_get f ''name'')
                              else ''<unnamed>'')
                  in case normalize_value literal_eval normalize_empty (dict_get f ''arguments'') of
                       (value, None) \<Rightarrow> (call, [])
                     | (value, Some reason) \<Rightarrow>
                         (JObj (dict_set ''function'' (JObj (dict_set ''arguments'' value f)) c),
                          [name @ '': '' @ reason]))
           | _ \<Rightarrow> (call, []))
      | _ \<Rightarrow> (call, []))"

definition normalize_call_message ::
  "(string \<Rightarrow> json option) \<Rightarrow> bool \<Rightarrow> json \<Rightarrow> json \<times> string list" where
  "normalize_call_message literal_eval normalize_empty message =
     (case message of
        JObj m \<Rightarrow>
          (case dict_get m ''tool_calls'' of
             JArr calls \<Rightarrow>
               (let rs = map (normalize_call literal_eval normalize_empty) calls;
                    notes = concat (map snd rs)
                in if notes = [] then (message, [])
                   else (JObj (dict_set ''tool_calls'' (JArr (map fst rs)) m), notes))
           | _ \<Rightarrow> (message, []))
      | _ \<Rightarrow> (message, []))"

definition normalize_tool_arguments ::
  "(string \<Rightarrow> json option) \<Rightarrow> bool \<Rightarrow> dict \<Rightarrow> dict \<times> string list" where
  "normalize_tool_arguments literal_eval normalize_empty payload =
     (case dict_get payload ''messages'' of
        JArr messages \<Rightarrow>
          (let rs = map (normalize_call_message literal_eval normalize_empty) messages;
               notes = concat (map snd rs)
           in if notes = [] then (payload, [])
              else (dict_set ''messages'' (JArr (map fst rs)) payload, notes))
      | _ \<Rightarrow> (payload, []))"

section \<open>A repaired argument is JSON, and stays\<close>

text \<open>What is relied on of \<open>literal_eval\<close>: the values it gives serialise to JSON.\<close>

definition sound_literals :: "(string \<Rightarrow> json option) \<Rightarrow> bool" where
  "sound_literals literal_eval \<longleftrightarrow>
     (\<forall>raw v. literal_eval raw = Some v \<longrightarrow> is_container v \<longrightarrow> is_json (json_dumps v))"

lemma is_json_dumps: "json_ok v \<Longrightarrow> is_json (json_dumps v)"
  by (simp add: is_json_def codec.loads_dumps)

lemma dumps_container_visible: "is_container v \<Longrightarrow> py_strip (json_dumps v) \<noteq> []"
  by (cases v) (auto simp: py_strip_Nil_iff py_isspace_def code_point_def)

lemma json_ok_get: "json_ok (JObj d) \<Longrightarrow> json_ok (dict_get d k)"
  by (auto simp: dict_get_def list_all_iff dest!: map_of_SomeD split: option.split)

lemma json_ok_set: "json_ok (JObj d) \<Longrightarrow> json_ok v \<Longrightarrow> json_ok (JObj (dict_set k v d))"
  by (induction d) (auto simp: keys_dict_set dict_has_in_keys)

lemma normalize_value_stable:
  assumes "sound_literals literal_eval" and "json_ok a"
  shows "normalize_value literal_eval ne (fst (normalize_value literal_eval ne a)) =
           (fst (normalize_value literal_eval ne a), None)"
proof -
  have seen: "normalize_value literal_eval ne (JStr (json_dumps v)) = (JStr (json_dumps v), None)"
    if "is_container v" "is_json (json_dumps v)" for v
    using that by (simp add: normalize_value_def dumps_container_visible)
  have "normalize_value literal_eval ne (JStr ''{}'') = (JStr ''{}'', None)"
    using seen[of "JObj []"] is_json_dumps[of "JObj []"] by simp
  note empty = this
  show ?thesis
  proof (cases a)
    case (JStr t)
    consider "py_strip t = []" | "py_strip t \<noteq> []" "is_json t" | "py_strip t \<noteq> []" "\<not> is_json t" by blast
    then show ?thesis
    proof cases
      case 1
      with JStr empty show ?thesis by (cases ne) (simp_all add: normalize_value_def)
    next
      case 2
      with JStr show ?thesis by (simp add: normalize_value_def)
    next
      case 3
      show ?thesis
      proof (cases "\<exists>v. literal_eval t = Some v \<and> is_container v")
        case True
        then obtain v where v: "literal_eval t = Some v" "is_container v" by blast
        then have "is_json (json_dumps v)" using assms(1) by (simp add: sound_literals_def)
        with seen[OF v(2)] 3 JStr v show ?thesis
          by (subst (1 3) normalize_value_def) (simp add: repair_literal_def)
      next
        case False
        then have "repair_literal literal_eval t = None"
          by (auto simp: repair_literal_def split: option.split)
        with 3 JStr show ?thesis by (simp add: normalize_value_def)
      qed
    qed
  next
    case (JArr xs)
    with seen[OF _ is_json_dumps[OF assms(2)]] show ?thesis
      by (subst (2 3) normalize_value_def) (simp del: json_dumps.simps)
  next
    case (JObj d)
    with seen[OF _ is_json_dumps[OF assms(2)]] show ?thesis
      by (subst (2 3) normalize_value_def) (simp del: json_dumps.simps)
  qed (simp_all add: normalize_value_def)
qed

lemma normalize_value_kept: "snd (normalize_value le ne a) = None \<Longrightarrow> fst (normalize_value le ne a) = a"
  by (auto simp: normalize_value_def split: json.splits option.splits if_splits)

lemma normalize_call_kept: "snd (normalize_call le ne c) = [] \<Longrightarrow> fst (normalize_call le ne c) = c"
  by (auto simp: normalize_call_def Let_def split: json.splits option.splits prod.splits)

lemma normalize_call_stable:
  assumes "sound_literals le" and "json_ok c"
  shows "normalize_call le ne (fst (normalize_call le ne c)) = (fst (normalize_call le ne c), [])"
proof (cases "snd (normalize_call le ne c) = []")
  case True
  with normalize_call_kept[OF True] show ?thesis by (metis prod.collapse)
next
  case False
  then obtain d f v r where c: "c = JObj d" "dict_get d ''function'' = JObj f" "dict_has f ''arguments''"
    "normalize_value le ne (dict_get f ''arguments'') = (v, Some r)"
    by (auto simp: normalize_call_def Let_def split: json.splits option.splits prod.splits if_splits)
  have "json_ok (JObj d)" using assms(2) c(1) by simp
  then have "json_ok (JObj f)" using json_ok_get c(2) by metis
  then have "json_ok (dict_get f ''arguments'')" by (rule json_ok_get)
  with normalize_value_stable[OF assms(1) this, of ne] c show ?thesis
    by (simp add: normalize_call_def Let_def)
qed

lemma map_stable:
  assumes "\<And>x. x \<in> set xs \<Longrightarrow> f (fst (f x)) = (fst (f x), [])"
  shows "map fst (map f (map fst (map f xs))) = map fst (map f xs)"
    and "concat (map snd (map f (map fst (map f xs)))) = []"
  using assms by (induction xs) auto

lemma normalize_call_message_kept:
  "snd (normalize_call_message le ne m) = [] \<Longrightarrow> fst (normalize_call_message le ne m) = m"
  by (auto simp: normalize_call_message_def Let_def split: json.splits if_splits)

lemma normalize_call_message_stable:
  assumes "sound_literals le" and "json_ok m"
  shows "normalize_call_message le ne (fst (normalize_call_message le ne m)) =
           (fst (normalize_call_message le ne m), [])"
proof (cases "snd (normalize_call_message le ne m) = []")
  case True
  with normalize_call_message_kept[OF True] show ?thesis by (metis prod.collapse)
next
  case False
  then obtain d cs where m: "m = JObj d" "dict_get d ''tool_calls'' = JArr cs"
    by (auto simp: normalize_call_message_def Let_def split: json.splits if_splits)
  have "json_ok (JArr cs)" using json_ok_get[of d "''tool_calls''"] assms(2) m by simp
  then have "\<And>c. c \<in> set cs \<Longrightarrow>
      normalize_call le ne (fst (normalize_call le ne c)) = (fst (normalize_call le ne c), [])"
    using normalize_call_stable[OF assms(1)] by (simp add: list_all_iff)
  note stable = map_stable[of cs "normalize_call le ne", OF this]
  from False m stable show ?thesis
    by (simp add: normalize_call_message_def Let_def del: map_map split: if_splits)
qed

lemma tool_arguments_stable:
  assumes "sound_literals literal_eval" and "json_ok (JObj payload)"
  shows "normalize_tool_arguments literal_eval ne (fst (normalize_tool_arguments literal_eval ne payload)) =
           (fst (normalize_tool_arguments literal_eval ne payload), [])"
proof (cases "dict_get payload ''messages''")
  case (JArr ms)
  have "json_ok (JArr ms)" using json_ok_get[OF assms(2), of "''messages''"] JArr by simp
  then have "\<And>m. m \<in> set ms \<Longrightarrow> normalize_call_message literal_eval ne (fst (normalize_call_message literal_eval ne m)) =
      (fst (normalize_call_message literal_eval ne m), [])"
    using normalize_call_message_stable[OF assms(1)] by (simp add: list_all_iff)
  note stable = map_stable[of ms "normalize_call_message literal_eval ne", OF this]
  from stable JArr show ?thesis
    by (simp add: normalize_tool_arguments_def Let_def del: map_map split: if_splits)
qed (simp_all add: normalize_tool_arguments_def)

text \<open>
  Repairing is idempotent: a payload whose tool calls were repaired is left alone,
  without a note, when it comes back. Every dictionary and list became JSON text, and
  every repaired literal reads as JSON.
\<close>

theorem tool_arguments_idempotent:
  assumes "sound_literals literal_eval" and "json_ok (JObj payload)"
  shows "normalize_tool_arguments literal_eval ne (fst (normalize_tool_arguments literal_eval ne payload)) =
           (fst (normalize_tool_arguments literal_eval ne payload), [])"
  by (rule tool_arguments_stable[OF assms])

definition one_literal :: "string \<Rightarrow> json option" where
  "one_literal s = (if s = ''{1: 2}'' then Some (JObj [(''1'', JInt 2)]) else None)"

lemma sound_one_literal: "sound_literals one_literal"
  by (auto simp: sound_literals_def one_literal_def intro!: is_json_dumps simp del: json_dumps.simps split: if_splits)

theorem tool_arguments_idempotent_witness:
  "let payload = [(''messages'', JArr [JObj [(''tool_calls'', JArr [
        JObj [(''function'', JObj [(''name'', JStr ''f''), (''arguments'', JStr ''{1: 2}'')])]])]])]
   in snd (normalize_tool_arguments one_literal True payload) =
        [''f: python-style literal converted to JSON''] \<and>
      snd (normalize_tool_arguments one_literal True
        (fst (normalize_tool_arguments one_literal True payload))) = []"
proof -
  let ?p = "[(''messages'', JArr [JObj [(''tool_calls'', JArr [
        JObj [(''function'', JObj [(''name'', JStr ''f''), (''arguments'', JStr ''{1: 2}'')])]])]])]"
  have noted: "snd (normalize_tool_arguments one_literal True ?p) =
      [''f: python-style literal converted to JSON'']" by code_simp
  have "json_ok (JObj ?p)" by simp
  from tool_arguments_idempotent[OF sound_one_literal this, of True] noted
  show ?thesis by (simp add: Let_def)
qed

text \<open>
  C22. Repairing is conservative: a string that already is JSON is never touched, a
  dictionary or list becomes a text from which it can be read back unchanged, and no other
  value is converted.
\<close>

theorem tool_arguments_lossless:
  assumes "json_ok a"
  shows "(\<forall>s. a = JStr s \<longrightarrow> py_strip s \<noteq> [] \<longrightarrow> is_json s \<longrightarrow>
            normalize_value literal_eval ne a = (a, None)) \<and>
         (is_container a \<longrightarrow> (\<exists>text. normalize_value literal_eval ne a = (JStr text, Some ENCODED) \<and>
            json_loads text = Inr a)) \<and>
         (\<not> is_container a \<longrightarrow> (\<forall>s. a \<noteq> JStr s) \<longrightarrow> normalize_value literal_eval ne a = (a, None))"
  using codec.loads_dumps[OF assms]
  by (cases a) (simp_all add: normalize_value_def del: json_dumps.simps)

theorem tool_arguments_lossless_witness:
  "\<exists>text. normalize_value one_literal True (JObj [(''path'', JStr ''a.py'')]) = (JStr text, Some ENCODED) \<and>
     json_loads text = Inr (JObj [(''path'', JStr ''a.py'')])"
proof -
  have "json_ok (JObj [(''path'', JStr ''a.py'')])" by simp
  from tool_arguments_lossless[OF this, of one_literal True] show ?thesis by simp
qed

end
