(* ===== verification/Context_Guard.thy ===== *)
theory Context_Guard
  imports Json
begin

text \<open>
  \<open>llm_assistant_api/context.py\<close>: the estimate of a request's size in tokens and the
  guard that refuses what cannot fit. \<open>chars_per_token\<close> is a rational number, the
  division exact.
\<close>

definition MESSAGE_OVERHEAD_TOKENS :: nat where "MESSAGE_OVERHEAD_TOKENS = 4"

definition part_text :: "json \<Rightarrow> string" where
  "part_text part =
     (case part of
        JObj d \<Rightarrow> (case dict_get d ''text'' of JStr s \<Rightarrow> s | _ \<Rightarrow> json_dumps part)
      | JStr s \<Rightarrow> s
      | _ \<Rightarrow> [])"

definition text_of :: "json \<Rightarrow> string" where
  "text_of content =
     (case content of
        JStr s \<Rightarrow> s
      | JArr parts \<Rightarrow> concat (map part_text parts)
      | JNull \<Rightarrow> []
      | _ \<Rightarrow> json_dumps content)"

definition tool_call_text :: "dict \<Rightarrow> string" where
  "tool_call_text message =
     (case dict_get message ''tool_calls'' of
        JArr calls \<Rightarrow> concat (map (\<lambda>call. case call of JObj d \<Rightarrow> json_dumps call | _ \<Rightarrow> []) calls)
      | _ \<Rightarrow> [])"

definition message_characters :: "json \<Rightarrow> nat" where
  "message_characters message =
     (case message of
        JObj m \<Rightarrow> length (text_of (dict_get m ''content'')) + length (tool_call_text m)
      | _ \<Rightarrow> length (json_str message))"

definition payload_characters :: "dict \<Rightarrow> nat" where
  "payload_characters payload =
     (case dict_get payload ''messages'' of
        JArr messages \<Rightarrow> sum_list (map message_characters messages)
      | _ \<Rightarrow> length (text_of (dict_get payload ''prompt'')))
     + (if dict_get payload ''tools'' = JNull then 0
        else length (json_dumps (dict_get payload ''tools'')))"

definition estimate_payload_tokens :: "dict \<Rightarrow> rat \<Rightarrow> int" where
  "estimate_payload_tokens payload per_token =
     \<lfloor>of_nat (payload_characters payload) / per_token\<rfloor>
     + int ((case dict_get payload ''messages'' of JArr messages \<Rightarrow> length messages | _ \<Rightarrow> 1)
            * MESSAGE_OVERHEAD_TOKENS)"

definition reserved_completion_tokens :: "dict \<Rightarrow> int" where
  "reserved_completion_tokens payload =
     (case as_int (dict_get payload ''max_tokens'') of
        Some n \<Rightarrow> if n > 0 then n
          else (case as_int (dict_get payload ''max_completion_tokens'') of
                  Some m \<Rightarrow> if m > 0 then m else 0 | None \<Rightarrow> 0)
      | None \<Rightarrow> (case as_int (dict_get payload ''max_completion_tokens'') of
                  Some m \<Rightarrow> if m > 0 then m else 0 | None \<Rightarrow> 0))"

datatype context_overflow = ContextOverflowError (estimated_tokens: int) (budget: int)

definition guard_context :: "dict \<Rightarrow> int \<Rightarrow> rat \<Rightarrow> context_overflow + int" where
  "guard_context payload limit per_token =
     (let prompt_tokens = estimate_payload_tokens payload per_token in
      if limit \<le> 0 then Inr prompt_tokens
      else
        (let required = prompt_tokens + reserved_completion_tokens payload in
         if required > limit then Inl (ContextOverflowError required limit)
         else Inr prompt_tokens))"

lemma estimate_nonneg: "0 < per_token \<Longrightarrow> 0 \<le> estimate_payload_tokens payload per_token"
  by (simp add: estimate_payload_tokens_def)

lemma reserved_nonneg: "0 \<le> reserved_completion_tokens payload"
  by (simp add: reserved_completion_tokens_def split: option.split)

text \<open>
  The guard lets a request through exactly when it is off or prompt estimate and
  reserved completion together fit the budget; otherwise the error carries the two numbers
  that clash.
\<close>

theorem guard_context_exact:
  "(guard_context payload limit per_token = Inr n \<longleftrightarrow>
      n = estimate_payload_tokens payload per_token \<and>
      (limit \<le> 0 \<or> n + reserved_completion_tokens payload \<le> limit)) \<and>
   (guard_context payload limit per_token = Inl e \<longleftrightarrow>
      0 < limit \<and> budget e = limit \<and>
      estimated_tokens e = estimate_payload_tokens payload per_token + reserved_completion_tokens payload \<and>
      limit < estimated_tokens e)"
  by (cases e) (auto simp: guard_context_def Let_def)

text \<open>
  A conversation only grows: with the same other fields, more messages never lower the
  estimate, so a request refused for its prompt stays refused until messages are dropped.
\<close>

theorem estimate_grows:
  assumes "0 < per_token"
  shows "estimate_payload_tokens (dict_set ''messages'' (JArr ms) payload) per_token
           + 4 * int (length more) \<le>
         estimate_payload_tokens (dict_set ''messages'' (JArr (ms @ more)) payload) per_token"
proof -
  have "payload_characters (dict_set ''messages'' (JArr ms) payload) \<le>
      payload_characters (dict_set ''messages'' (JArr (ms @ more)) payload)"
    by (simp add: payload_characters_def)
  then have "\<lfloor>of_nat (payload_characters (dict_set ''messages'' (JArr ms) payload)) / per_token\<rfloor> \<le>
      \<lfloor>of_nat (payload_characters (dict_set ''messages'' (JArr (ms @ more)) payload)) / per_token\<rfloor>"
    using assms by (intro floor_mono divide_right_mono) simp_all
  then show ?thesis
    by (simp add: estimate_payload_tokens_def MESSAGE_OVERHEAD_TOKENS_def)
qed

theorem estimate_grows_witness:
  "estimate_payload_tokens (dict_set ''messages'' (JArr []) []) (7 / 2) + 4 * int (length [JStr ''hello there'']) \<le>
   estimate_payload_tokens (dict_set ''messages'' (JArr ([] @ [JStr ''hello there''])) []) (7 / 2)"
  by (rule estimate_grows) simp

end
