(* ===== verification/Rate_Limiting.thy ===== *)
theory Rate_Limiting
  imports Prelude
begin

text \<open>
  \<open>llm_assistant_api/rate_limiting.py\<close>: the sliding-window rate limiter. Its state is
  a record; \<open>time.time()\<close> is the argument \<open>now\<close> of every operation, a rational number
  of seconds; the per-key deques are lists, oldest request first; the \<open>defaultdict\<close> is
  a map, and reading a missing key stores an empty deque, as there. The two pipelines
  of the Redis variant are a value each: what the server replied, or nothing when the
  pipeline raised.
\<close>

section \<open>State and operations\<close>

record limiter_config =
  max_requests :: int
  window_seconds :: int
  cleanup_interval :: int
  redis_url :: "string option"

definition RateLimitConfig :: "int \<Rightarrow> int \<Rightarrow> int \<Rightarrow> string option \<Rightarrow> string + limiter_config" where
  "RateLimitConfig mx window cleanup url =
     (if mx \<le> 0 then Inl ''max_requests must be positive''
      else if window \<le> 0 then Inl ''window_seconds must be positive''
      else if cleanup \<le> 0 then Inl ''cleanup_interval must be positive''
      else Inr \<lparr>max_requests = mx, window_seconds = window, cleanup_interval = cleanup, redis_url = url\<rparr>)"

record limiter =
  config :: limiter_config
  requests :: "string \<Rightarrow> rat list option"
  endpoint_configs :: "string \<Rightarrow> (int \<times> int) option"
  last_cleanup :: rat
  redis_client :: bool

text \<open>
  \<open>_init_redis\<close>: the client exists when a URL is given and the import and the connection
  both succeed (\<open>redis_ok\<close>).
\<close>

definition RateLimiter :: "limiter_config \<Rightarrow> bool \<Rightarrow> rat \<Rightarrow> limiter" where
  "RateLimiter cfg redis_ok now =
     \<lparr>config = cfg, requests = (\<lambda>_. None), endpoint_configs = (\<lambda>_. None), last_cleanup = now,
      redis_client = ((case redis_url cfg of None \<Rightarrow> False | Some url \<Rightarrow> url \<noteq> []) \<and> redis_ok)\<rparr>"

definition configure_endpoint :: "string \<Rightarrow> int \<Rightarrow> int \<Rightarrow> limiter \<Rightarrow> limiter" where
  "configure_endpoint endpoint mx window l =
     l\<lparr>endpoint_configs := (endpoint_configs l)(endpoint \<mapsto> (mx, window))\<rparr>"

definition get_config_for_endpoint :: "limiter \<Rightarrow> string \<Rightarrow> int \<times> int" where
  "get_config_for_endpoint l endpoint =
     (case endpoint_configs l endpoint of
        Some limits \<Rightarrow> limits
      | None \<Rightarrow> (max_requests (config l), window_seconds (config l)))"

text \<open>\<open>f"{endpoint}:{identifier}"\<close>.\<close>

definition request_key :: "string \<Rightarrow> string \<Rightarrow> string" where
  "request_key endpoint identifier = endpoint @ '':'' @ identifier"

definition request_times :: "limiter \<Rightarrow> string \<Rightarrow> rat list" where
  "request_times l key = (case requests l key of Some ts \<Rightarrow> ts | None \<Rightarrow> [])"

definition drop_outdated :: "rat \<Rightarrow> int \<Rightarrow> rat list \<Rightarrow> rat list" where
  "drop_outdated now window ts = dropWhile (\<lambda>t. t \<le> now - of_int window) ts"

definition stale :: "rat \<Rightarrow> rat list \<Rightarrow> bool" where
  "stale cutoff ts \<longleftrightarrow> ts = [] \<or> last ts < cutoff"

definition maybe_cleanup :: "rat \<Rightarrow> limiter \<Rightarrow> limiter" where
  "maybe_cleanup now l =
     (if now - last_cleanup l < of_int (cleanup_interval (config l)) then l
      else
        (let cutoff = now - of_int (window_seconds (config l)) in
         l\<lparr>requests := (\<lambda>key. case requests l key of
                           None \<Rightarrow> None
                         | Some ts \<Rightarrow> if stale cutoff ts then None else Some ts),
           last_cleanup := now\<rparr>))"

text \<open>
  \<open>is_allowed\<close> is not a coroutine, but with a Redis client it returns the coroutine of
  \<open>_is_allowed_redis\<close>, which nobody awaits. Python's truth of either value decides.
\<close>

datatype verdict = Verdict bool | Coroutine

definition truth :: "verdict \<Rightarrow> bool" where
  "truth v = (case v of Verdict b \<Rightarrow> b | Coroutine \<Rightarrow> True)"

definition is_allowed :: "rat \<Rightarrow> string \<Rightarrow> string \<Rightarrow> limiter \<Rightarrow> verdict \<times> limiter" where
  "is_allowed now identifier endpoint l =
     (let (mx, window) = get_config_for_endpoint l endpoint in
      if redis_client l then (Coroutine, l)
      else
        (let l1 = maybe_cleanup now l;
             key = request_key endpoint identifier;
             ts = drop_outdated now window (request_times l1 key)
         in if int (length ts) < mx
            then (Verdict True, l1\<lparr>requests := (requests l1)(key \<mapsto> ts @ [now])\<rparr>)
            else (Verdict False, l1\<lparr>requests := (requests l1)(key \<mapsto> ts)\<rparr>)))"

datatype redis_command =
    Zremrangebyscore string rat
  | Zcard string
  | Zadd string rat
  | Expire string int

definition is_allowed_redis ::
  "string \<Rightarrow> string \<Rightarrow> int \<Rightarrow> int \<Rightarrow> rat \<Rightarrow> int option \<Rightarrow> unit option \<Rightarrow> bool \<times> redis_command list" where
  "is_allowed_redis identifier endpoint mx window now counted stored =
     (let key = ''ratelimit:'' @ endpoint @ '':'' @ identifier;
          count = [Zremrangebyscore key (now - of_int window), Zcard key];
          add = [Zadd key now, Expire key (window + 1)]
      in case counted of
           None \<Rightarrow> (True, count)
         | Some current \<Rightarrow>
             if current < mx
             then (case stored of None \<Rightarrow> (True, count @ add) | Some _ \<Rightarrow> (True, count @ add))
             else (False, count))"

definition get_reset_time :: "rat \<Rightarrow> string \<Rightarrow> string \<Rightarrow> limiter \<Rightarrow> rat \<times> limiter" where
  "get_reset_time now identifier endpoint l =
     (let window = snd (get_config_for_endpoint l endpoint);
          key = request_key endpoint identifier;
          l1 = l\<lparr>requests := (requests l)(key \<mapsto> request_times l key)\<rparr>
      in case request_times l key of
           [] \<Rightarrow> (now, l1)
         | t # _ \<Rightarrow> (t + of_int window, l1))"

definition get_remaining_requests :: "rat \<Rightarrow> string \<Rightarrow> string \<Rightarrow> limiter \<Rightarrow> int \<times> limiter" where
  "get_remaining_requests now identifier endpoint l =
     (let (mx, window) = get_config_for_endpoint l endpoint;
          key = request_key endpoint identifier;
          ts = drop_outdated now window (request_times l key)
      in (max 0 (mx - int (length ts)), l\<lparr>requests := (requests l)(key \<mapsto> ts)\<rparr>))"

definition clear_limiter :: "rat \<Rightarrow> limiter \<Rightarrow> limiter" where
  "clear_limiter now l = l\<lparr>requests := (\<lambda>_. None), last_cleanup := now\<rparr>"

text \<open>The module-level instance: \<open>init_rate_limiter\<close> and \<open>get_rate_limiter\<close>.\<close>

definition default_config :: limiter_config where
  "default_config = \<lparr>max_requests = 100, window_seconds = 60, cleanup_interval = 300, redis_url = None\<rparr>"

definition init_rate_limiter :: "limiter_config \<Rightarrow> bool \<Rightarrow> rat \<Rightarrow> limiter option \<Rightarrow> limiter \<times> limiter option" where
  "init_rate_limiter cfg redis_ok now global =
     (let l = RateLimiter cfg redis_ok now in (l, Some l))"

definition get_rate_limiter :: "rat \<Rightarrow> limiter option \<Rightarrow> limiter \<times> limiter option" where
  "get_rate_limiter now global =
     (case global of
        Some l \<Rightarrow> (l, global)
      | None \<Rightarrow> (let l = RateLimiter default_config False now in (l, Some l)))"

section \<open>Runs\<close>

text \<open>A request: its time, the identifier and the endpoint. A run pairs each with its verdict.\<close>

type_synonym request = "rat \<times> string \<times> string"

definition request_key_of :: "request \<Rightarrow> string" where
  "request_key_of c = request_key (snd (snd c)) (fst (snd c))"

definition serve :: "request \<Rightarrow> limiter \<Rightarrow> bool \<times> limiter" where
  "serve c l = (let (v, l') = is_allowed (fst c) (fst (snd c)) (snd (snd c)) l in (truth v, l'))"

text \<open>The times of the requests a predicate selects that were accepted.\<close>

definition accepted :: "('c \<Rightarrow> bool) \<Rightarrow> ('c \<Rightarrow> rat) \<Rightarrow> ('c \<times> bool) list \<Rightarrow> rat list" where
  "accepted sel time tr = map (time \<circ> fst) (filter (\<lambda>(c, ok). ok \<and> sel c) tr)"

lemma accepted_simps [simp]:
  "accepted sel time [] = []"
  "accepted sel time ((c, ok) # tr) = (if ok \<and> sel c then [time c] else []) @ accepted sel time tr"
  "accepted sel time (tr @ tr') = accepted sel time tr @ accepted sel time tr'"
  by (simp_all add: accepted_def)

section \<open>The contract of a sliding-window log\<close>

text \<open>
  A state \<open>live\<close> for a log \<open>h\<close> of accepted times decides a selected call by the number
  of logged times in its window, and logs what it accepts. Everything the gateway
  needs of a limiter follows.
\<close>

locale sliding_log =
  fixes serve_call :: "'c \<Rightarrow> 's \<Rightarrow> bool \<times> 's"
    and time :: "'c \<Rightarrow> rat"
    and sel :: "'c \<Rightarrow> bool"
    and ok :: "'c \<Rightarrow> bool"
    and live :: "rat list \<Rightarrow> rat \<Rightarrow> 's \<Rightarrow> bool"
    and mx :: int
    and window :: int
  assumes decides: "live h now s \<Longrightarrow> now \<le> time c \<Longrightarrow> ok c \<Longrightarrow> sel c \<Longrightarrow>
      fst (serve_call c s) \<longleftrightarrow> int (length (since (time c - of_int window) h)) < mx"
    and logs: "live h now s \<Longrightarrow> now \<le> time c \<Longrightarrow> ok c \<Longrightarrow>
      live (h @ accepted sel time [(c, fst (serve_call c s))]) (time c) (snd (serve_call c s))"
begin

lemma trace_decides:
  "live h now s \<Longrightarrow> sorted (now # map time cs) \<Longrightarrow> list_all ok cs \<Longrightarrow>
     trace serve_call cs s = pre @ (c, b) # post \<Longrightarrow> sel c \<Longrightarrow>
     b \<longleftrightarrow> int (length (since (time c - of_int window) (h @ accepted sel time pre))) < mx"
proof (induction pre arbitrary: h now s cs)
  case Nil
  then show ?case by (cases cs) (auto simp: decides)
next
  case (Cons x pre)
  then obtain d ds where cs: "cs = d # ds" by (cases cs) auto
  with Cons.prems have x: "x = (d, fst (serve_call d s))"
    and tl: "trace serve_call ds (snd (serve_call d s)) = pre @ (c, b) # post" by auto
  have "live (h @ accepted sel time [x]) (time d) (snd (serve_call d s))"
    unfolding x using Cons.prems cs by (intro logs) auto
  from Cons.IH[OF this _ _ tl] Cons.prems cs show ?case by (cases x) simp
qed

lemma accepted_in_window:
  assumes "\<And>pre c b post. tr = pre @ (c, b) # post \<Longrightarrow> sel c \<Longrightarrow>
      b \<longleftrightarrow> int (length (since (time c - of_int window) (accepted sel time pre))) < mx"
  shows "length (filter (\<lambda>s. t - of_int window < s \<and> s \<le> t) (accepted sel time tr)) \<le> nat mx"
  using assms
proof (induction tr rule: rev_induct)
  case (snoc x tr)
  let ?in = "\<lambda>s. t - of_int window < s \<and> s \<le> t"
  have IH: "length (filter ?in (accepted sel time tr)) \<le> nat mx"
    by (rule snoc.IH) (rule snoc.prems, auto)
  obtain c b where x: "x = (c, b)" by (cases x)
  show ?case
  proof (cases "b \<and> sel c \<and> ?in (time c)")
    case True
    then have "int (length (since (time c - of_int window) (accepted sel time tr))) < mx"
      using snoc.prems[of tr c b "[]"] x by simp
    moreover have "length (filter ?in (accepted sel time tr)) \<le>
        length (since (time c - of_int window) (accepted sel time tr))"
    proof -
      have "filter ?in (accepted sel time tr) =
          filter ?in (since (time c - of_int window) (accepted sel time tr))"
        using True by (auto simp: since_def intro!: filter_cong)
      then show ?thesis by (metis length_filter_le)
    qed
    ultimately show ?thesis using True x by auto
  next
    case False
    with IH x show ?thesis by auto
  qed
qed simp

lemma window_bound:
  assumes "live [] now s" and "sorted (now # map time cs)" and "list_all ok cs"
  shows "length (filter (\<lambda>u. t - of_int window < u \<and> u \<le> t)
           (accepted sel time (trace serve_call cs s))) \<le> nat mx"
  by (rule accepted_in_window) (use trace_decides[OF assms] in simp)

end

section \<open>The limiter keeps the log\<close>

definition tracks :: "limiter \<Rightarrow> string \<Rightarrow> int \<Rightarrow> rat list \<Rightarrow> rat \<Rightarrow> limiter \<Rightarrow> bool" where
  "tracks l0 key window h now l \<longleftrightarrow>
     \<not> redis_client l \<and> config l = config l0 \<and> endpoint_configs l = endpoint_configs l0 \<and>
     window \<le> window_seconds (config l0) \<and> sorted h \<and> (\<forall>t \<in> set h. t \<le> now) \<and>
     (\<exists>old. h = old @ request_times l key \<and> (\<forall>t \<in> set old. t \<le> now - of_int window))"

definition limited_by :: "limiter \<Rightarrow> string \<Rightarrow> int \<Rightarrow> int \<Rightarrow> request \<Rightarrow> bool" where
  "limited_by l0 key mx window c \<longleftrightarrow>
     (request_key_of c = key \<longrightarrow> get_config_for_endpoint l0 (snd (snd c)) = (mx, window))"

lemma maybe_cleanup_frame [simp]:
  "redis_client (maybe_cleanup now l) = redis_client l"
  "config (maybe_cleanup now l) = config l"
  "endpoint_configs (maybe_cleanup now l) = endpoint_configs l"
  by (simp_all add: maybe_cleanup_def Let_def)

lemma get_config_cong:
  "config l = config l0 \<Longrightarrow> endpoint_configs l = endpoint_configs l0 \<Longrightarrow>
     get_config_for_endpoint l e = get_config_for_endpoint l0 e"
  by (simp add: get_config_for_endpoint_def split: option.split)

lemma request_times_cleanup:
  "request_times (maybe_cleanup now l) key = request_times l key \<or>
   request_times (maybe_cleanup now l) key = [] \<and>
     (request_times l key = [] \<or> last (request_times l key) < now - of_int (window_seconds (config l)))"
  by (auto simp: maybe_cleanup_def request_times_def stale_def Let_def split: option.splits)

lemma tracks_cleanup:
  assumes "tracks l0 key window h now l" and "now \<le> now'"
  shows "tracks l0 key window h now' (maybe_cleanup now' l)"
proof -
  obtain old where old: "h = old @ request_times l key" "\<forall>t \<in> set old. t \<le> now - of_int window"
    and l: "\<not> redis_client l" "config l = config l0" "endpoint_configs l = endpoint_configs l0"
      "window \<le> window_seconds (config l0)" "sorted h" "\<forall>t \<in> set h. t \<le> now"
    using assms(1) unfolding tracks_def by blast
  have old': "\<forall>t \<in> set old. t \<le> now' - of_int window"
    using old(2) assms(2) by (auto intro: order_trans)
  have h': "\<forall>t \<in> set h. t \<le> now'" using l(6) assms(2) by (auto intro: order_trans)
  have "\<exists>old. h = old @ request_times (maybe_cleanup now' l) key \<and> (\<forall>t \<in> set old. t \<le> now' - of_int window)"
  proof (cases "request_times (maybe_cleanup now' l) key = request_times l key")
    case True
    with old(1) old' show ?thesis by auto
  next
    case False
    with request_times_cleanup[of now' l key]
    have gone: "request_times (maybe_cleanup now' l) key = []"
      and lt: "last (request_times l key) < now' - of_int (window_seconds (config l))"
      and ne: "request_times l key \<noteq> []" by auto
    have "(of_int window :: rat) \<le> of_int (window_seconds (config l))" using l by simp
    then have bound: "now' - of_int (window_seconds (config l)) \<le> now' - of_int window"
      by (rule diff_left_mono)
    have "t \<le> now' - of_int window" if "t \<in> set (request_times l key)" for t
    proof -
      have "sorted (request_times l key)" using l(5) old(1) by (simp add: sorted_append)
      then have "t \<le> last (request_times l key)"
        using that ne by (metis append_butlast_last_id in_set_conv_decomp insertE list.set(1,2)
            empty_iff order.refl set_append UnE sorted_append list.set_intros(1))
      with lt bound show ?thesis by linarith
    qed
    with old' old(1) gone show ?thesis by (intro exI[of _ h]) auto
  qed
  with l h' show ?thesis by (simp add: tracks_def)
qed

lemma drop_outdated_split:
  "\<exists>old. ts = old @ drop_outdated now window ts \<and> (\<forall>t \<in> set old. t \<le> now - of_int window)"
  unfolding drop_outdated_def
  by (rule exI[of _ "takeWhile (\<lambda>t. t \<le> now - of_int window) ts"]) (auto dest: set_takeWhileD)

lemma since_drop_outdated:
  "sorted ts \<Longrightarrow> since (now - of_int window) (drop_outdated now window ts) = drop_outdated now window ts"
  unfolding since_def drop_outdated_def filter_id_conv
  by (induction ts) (auto split: if_splits)

lemma tracks_decides:
  assumes "tracks l0 key window h now l" and "now \<le> now'"
    and "get_config_for_endpoint l0 e = (mx, window)" and "request_key e i = key"
  shows "fst (is_allowed now' i e l) =
           Verdict (int (length (since (now' - of_int window) h)) < mx)"
proof -
  let ?l = "maybe_cleanup now' l"
  from tracks_cleanup[OF assms(1,2)] obtain old where
    old: "h = old @ request_times ?l key" "\<forall>t \<in> set old. t \<le> now' - of_int window"
    and l: "\<not> redis_client l" "config l = config l0" "endpoint_configs l = endpoint_configs l0" "sorted h"
    by (auto simp: tracks_def)
  obtain more where more: "request_times ?l key = more @ drop_outdated now' window (request_times ?l key)"
    "\<forall>t \<in> set more. t \<le> now' - of_int window" using drop_outdated_split by blast
  have "since (now' - of_int window) h = since (now' - of_int window) (request_times ?l key)"
    using old by simp
  also have "\<dots> = since (now' - of_int window) (drop_outdated now' window (request_times ?l key))"
    using more(2) by (subst more(1)) simp
  also have "\<dots> = drop_outdated now' window (request_times ?l key)"
    using l(4) old(1) drop_outdated_split[of "request_times ?l key" now' window]
    by (intro since_drop_outdated) (metis sorted_append)
  finally show ?thesis
    using assms(3,4) l get_config_cong[OF l(2,3)]
    by (simp add: is_allowed_def Let_def request_times_def drop_outdated_def)
qed

lemma is_allowed_frame:
  "\<not> redis_client l \<Longrightarrow> \<not> redis_client (snd (is_allowed now i e l))"
  "config (snd (is_allowed now i e l)) = config l"
  "endpoint_configs (snd (is_allowed now i e l)) = endpoint_configs l"
  by (simp_all add: is_allowed_def Let_def split: prod.split)

lemma is_allowed_times:
  "\<not> redis_client l \<Longrightarrow> get_config_for_endpoint l e = (mx, window) \<Longrightarrow>
   request_times (snd (is_allowed now i e l)) key =
     (if key = request_key e i
      then drop_outdated now window (request_times (maybe_cleanup now l) key)
         @ (if fst (is_allowed now i e l) = Verdict True then [now] else [])
      else request_times (maybe_cleanup now l) key)"
  by (simp add: is_allowed_def request_times_def Let_def)

lemma tracks_logs:
  assumes "tracks l0 key window h now l" and "now \<le> time" and "limited_by l0 key mx window (time, i, e)"
  shows "tracks l0 key window
           (if request_key e i = key \<and> truth (fst (is_allowed time i e l)) then h @ [time] else h)
           time (snd (is_allowed time i e l))"
proof -
  let ?l = "maybe_cleanup time l"
  from tracks_cleanup[OF assms(1,2)] obtain old where
    old: "h = old @ request_times ?l key" "\<forall>t \<in> set old. t \<le> time - of_int window"
    and h: "sorted h" "\<forall>t \<in> set h. t \<le> time"
    and l: "\<not> redis_client l" "config l = config l0" "endpoint_configs l = endpoint_configs l0"
      "window \<le> window_seconds (config l0)"
    by (auto simp: tracks_def)
  obtain m w where mw: "get_config_for_endpoint l e = (m, w)" by fastforce
  note times = is_allowed_times[OF l(1) mw, of time i key]
  show ?thesis
  proof (cases "request_key e i = key")
    case False
    with old h l times show ?thesis
      by (auto simp: tracks_def is_allowed_frame)
  next
    case True
    then have "get_config_for_endpoint l0 e = (mx, window)"
      using assms(3) by (simp add: limited_by_def request_key_of_def)
    with True have v: "fst (is_allowed time i e l) =
        Verdict (int (length (since (time - of_int window) h)) < mx)"
      by (intro tracks_decides[OF assms(1,2)])
    have w: "w = window" using assms(3) True mw get_config_cong[OF l(2,3), of e]
      by (simp add: limited_by_def request_key_of_def)
    obtain more where more: "request_times ?l key = more @ drop_outdated time window (request_times ?l key)"
      "\<forall>t \<in> set more. t \<le> time - of_int window" using drop_outdated_split by blast
    have split: "h = (old @ more) @ drop_outdated time window (request_times ?l key)"
      using old(1) more(1) by simp
    have "\<forall>t \<in> set (old @ more). t \<le> time - of_int window" using old(2) more(2) by auto
    with split times True w h l v show ?thesis
      unfolding tracks_def by (auto simp: truth_def sorted_append is_allowed_frame)
  qed
qed

interpretation limiter: sliding_log serve fst "\<lambda>c. request_key_of c = key" "limited_by l0 key mx window"
  "tracks l0 key window" mx window for key l0 mx window
proof
  fix h now l and c :: request
  assume a: "tracks l0 key window h now l" "now \<le> fst c" "limited_by l0 key mx window c"
  show "tracks l0 key window (h @ accepted (\<lambda>c. request_key_of c = key) fst [(c, fst (serve c l))])
      (fst c) (snd (serve c l))"
    using tracks_logs[of l0 key window h now l "fst c" mx "fst (snd c)" "snd (snd c)"] a
    by (auto simp: serve_def request_key_of_def split: prod.split if_splits)
  assume "request_key_of c = key"
  with a tracks_decides[OF a(1,2), of "snd (snd c)" mx "fst (snd c)"]
  show "fst (serve c l) \<longleftrightarrow> int (length (since (fst c - of_int window) h)) < mx"
    by (auto simp: serve_def truth_def limited_by_def request_key_of_def split: prod.split)
qed

lemma tracks_fresh:
  "\<not> redis_client l \<Longrightarrow> (\<And>k. requests l k = None) \<Longrightarrow> window \<le> window_seconds (config l) \<Longrightarrow>
     tracks l key window [] now l"
  by (simp add: tracks_def request_times_def)

section \<open>What the limiter guarantees\<close>

text \<open>
  C7. Without Redis, from a limiter without entries, with a clock that does not run backwards, the
  decision on a request is exactly that of a sliding window over everything accepted
  before under its key: it passes when fewer than the endpoint's maximum were accepted in
  the window that ends now. Pruned deques, dropped keys and the cleanup never change a
  verdict, as long as the endpoint's window is no longer than the global one.
\<close>

theorem limiter_exact:
  assumes "\<not> redis_client l" and "\<And>k. requests l k = None"
    and "sorted (map fst calls)" and "window \<le> window_seconds (config l)"
    and "list_all (limited_by l key mx window) calls"
    and "trace serve calls l = pre @ (c, b) # post" and "request_key_of c = key"
  shows "b \<longleftrightarrow> int (length (since (fst c - of_int window)
                 (accepted (\<lambda>c. request_key_of c = key) fst pre))) < mx"
proof -
  have "sorted ((case calls of [] \<Rightarrow> 0 | d # _ \<Rightarrow> fst d) # map fst calls)"
    using assms(3) by (cases calls) auto
  from limiter.trace_decides[OF tracks_fresh[OF assms(1,2,4)] this assms(5,6,7)]
  show ?thesis by simp
qed

theorem limiter_exact_witness:
  "map snd (trace serve [(1, ''u'', ''/v1''), (30, ''u'', ''/v1''), (62, ''u'', ''/v1'')]
     (RateLimiter \<lparr>max_requests = 1, window_seconds = 60, cleanup_interval = 300, redis_url = None\<rparr> False 0)) =
   [True, False, True]"
proof -
  let ?l = "RateLimiter \<lparr>max_requests = 1, window_seconds = 60, cleanup_interval = 300, redis_url = None\<rparr> False 0"
  let ?calls = "[(1, ''u'', ''/v1''), (30, ''u'', ''/v1''), (62, ''u'', ''/v1'')] :: request list"
  have limited: "list_all (limited_by ?l ''/v1:u'' 1 60) ?calls" by code_simp
  have l: "\<not> redis_client ?l" "\<And>k. requests ?l k = None" "sorted (map fst ?calls)" "60 \<le> window_seconds (config ?l)"
    by (simp_all add: RateLimiter_def)
  note exact = limiter_exact[OF l limited]
  obtain a b c where tr: "trace serve ?calls ?l = [((1, ''u'', ''/v1''), a), ((30, ''u'', ''/v1''), b), ((62, ''u'', ''/v1''), c)]"
    by simp
  have key: "request_key_of (t, ''u'', ''/v1'') = ''/v1:u''" for t by (simp add: request_key_of_def request_key_def)
  have "a" using exact[of "[]" "(1, ''u'', ''/v1'')" a, OF _ key] tr by (simp only: append_Nil) simp
  have "\<not> b" using exact[of "[((1, ''u'', ''/v1''), a)]" "(30, ''u'', ''/v1'')" b, OF _ key] tr \<open>a\<close>
    by (simp only: append_Cons append_Nil) (simp add: key since_def)
  have "c" using exact[of "[((1, ''u'', ''/v1''), a), ((30, ''u'', ''/v1''), b)]" "(62, ''u'', ''/v1'')" c, OF _ key] tr \<open>a\<close> \<open>\<not> b\<close>
    by (simp only: append_Cons append_Nil) (simp add: key since_def)
  with \<open>a\<close> \<open>\<not> b\<close> tr show ?thesis by (simp only:) simp
qed

text \<open>
  C20. So without Redis, and on an endpoint whose window is no longer than the global one, no
  more requests are accepted under one key, that is one endpoint and one client, than the
  endpoint's maximum within any stretch of time as long as the window.
\<close>

theorem limiter_window_bound:
  assumes "\<not> redis_client l" and "\<And>k. requests l k = None"
    and "sorted (map fst calls)" and "window \<le> window_seconds (config l)"
    and "list_all (limited_by l key mx window) calls"
  shows "length (filter (\<lambda>u. t - of_int window < u \<and> u \<le> t)
           (accepted (\<lambda>c. request_key_of c = key) fst (trace serve calls l))) \<le> nat mx"
proof -
  have "sorted ((case calls of [] \<Rightarrow> 0 | d # _ \<Rightarrow> fst d) # map fst calls)"
    using assms(3) by (cases calls) auto
  from limiter.window_bound[OF tracks_fresh[OF assms(1,2,4)] this assms(5)] show ?thesis .
qed

theorem limiter_window_bound_witness:
  "length (filter (\<lambda>u. 61 - of_int 60 < u \<and> u \<le> 61)
     (accepted (\<lambda>c. request_key_of c = ''/v1:u'') fst
       (trace serve [(1, ''u'', ''/v1''), (61, ''u'', ''/v1'')] (RateLimiter default_config False 0)))) \<le> nat 100"
proof (rule limiter_window_bound)
  show "list_all (limited_by (RateLimiter default_config False 0) ''/v1:u'' 100 60)
      [(1, ''u'', ''/v1''), (61, ''u'', ''/v1'')]" by code_simp
qed (simp_all add: RateLimiter_def default_config_def)

lemma length_drop_outdated: "length (drop_outdated now window ts) \<le> length ts"
  by (simp add: drop_outdated_def length_dropWhile_le)

lemma request_times_cleanup_length:
  "length (request_times (maybe_cleanup now l) key) \<le> length (request_times l key)"
  using request_times_cleanup[of now l key] by auto

definition within_limits :: "limiter \<Rightarrow> string \<Rightarrow> int \<Rightarrow> limiter \<Rightarrow> bool" where
  "within_limits l0 key mx l \<longleftrightarrow>
     \<not> redis_client l \<and> config l = config l0 \<and> endpoint_configs l = endpoint_configs l0 \<and>
     length (request_times l key) \<le> nat mx"

lemma within_limits_step:
  assumes "within_limits l0 key mx l" and "limited_by l0 key mx window c"
  shows "within_limits l0 key mx (snd (serve c l))"
proof -
  obtain now i e where c: "c = (now, i, e)" by (cases c)
  obtain m w where mw: "get_config_for_endpoint l e = (m, w)" by fastforce
  have same: "request_key e i = key \<Longrightarrow> m = mx"
    using assms mw get_config_cong[of l l0 e]
    by (auto simp: within_limits_def limited_by_def request_key_of_def c)
  have verdict: "fst (is_allowed now i e l) = Verdict True \<Longrightarrow> request_key e i = key \<Longrightarrow>
      int (length (drop_outdated now w (request_times (maybe_cleanup now l) key))) < m"
    using assms mw by (auto simp: is_allowed_def within_limits_def Let_def split: if_splits)
  have len: "length (request_times (maybe_cleanup now l) key) \<le> nat mx"
    using assms(1) request_times_cleanup_length[of now l key]
    by (simp add: within_limits_def)
  have "length (request_times (snd (is_allowed now i e l)) key) \<le> nat mx"
    using is_allowed_times[OF _ mw, of now i key] assms(1) verdict same len
      length_drop_outdated[of now w "request_times (maybe_cleanup now l) key"]
    by (auto simp: within_limits_def)
  then show ?thesis
    using assms(1) by (simp add: within_limits_def serve_def c is_allowed_frame split: prod.split)
      (metis is_allowed_frame snd_conv)
qed

text \<open>
  The reset time of a refused client lies in the future, and a request of that client is
  accepted then and at any time after, whatever happened before.
\<close>

lemma reset_time_admits:
  assumes "\<not> redis_client l" and "\<And>k. requests l k = None"
    and "list_all (limited_by l (request_key e i) mx window) calls"
    and "get_config_for_endpoint l e = (mx, window)" and "0 < mx"
    and "is_allowed now i e (after serve calls l) = (Verdict False, l1)"
    and "get_reset_time t1 i e l1 = (reset, l2)"
  shows "now < reset \<and> (\<forall>t \<ge> reset. fst (is_allowed t i e l2) = Verdict True)"
proof -
  let ?k = "request_key e i" and ?l = "after serve calls l"
  have inv: "within_limits l ?k mx ?l"
    using after_invariant[of "within_limits l ?k mx" "limited_by l ?k mx window" serve,
        OF within_limits_step assms(3)] assms(1,2)
    by (simp add: within_limits_def request_times_def)
  then have cfg: "get_config_for_endpoint ?l e = (mx, window)"
    using assms(4) get_config_cong[of ?l l e] by (simp add: within_limits_def)
  define ts where "ts = drop_outdated now window (request_times (maybe_cleanup now ?l) ?k)"
  have full: "mx \<le> int (length ts)" and l1: "request_times l1 ?k = ts"
    using assms(6) cfg inv
    by (auto simp: is_allowed_def ts_def within_limits_def Let_def request_times_def split: if_splits)
  have eq: "l1 = snd (is_allowed now i e ?l)" using assms(6) by simp
  have l1': "\<not> redis_client l1" "get_config_for_endpoint l1 e = (mx, window)"
    using inv cfg get_config_cong[of l1 ?l e] is_allowed_frame
    by (simp_all add: within_limits_def eq)
  have "length ts \<le> nat mx"
    using inv length_drop_outdated[of now window "request_times (maybe_cleanup now ?l) ?k"]
      request_times_cleanup_length[of now ?l ?k]
    unfolding within_limits_def ts_def by (meson order_trans)
  with assms(5) have len: "int (length ts) \<le> mx" by (simp add: le_nat_iff)
  from full assms(5) obtain t us where ts: "ts = t # us" by (cases ts) auto
  then have fresh: "now - of_int window < t"
    unfolding ts_def drop_outdated_def by (metis list.sel(1) hd_dropWhile list.distinct(1) not_le)
  have reset: "reset = t + of_int window" "request_times l2 ?k = ts"
      "\<not> redis_client l2" "get_config_for_endpoint l2 e = (mx, window)"
    using assms(7) l1 l1' ts get_config_cong[of l2 l1 e]
    by (auto simp: get_reset_time_def Let_def request_times_def)
  have "length (drop_outdated u window (request_times (maybe_cleanup u l2) ?k)) \<le> length us" if "reset \<le> u" for u
    using request_times_cleanup[of u l2 ?k] reset(1,2) ts that
    by (auto simp: drop_outdated_def length_dropWhile_le)
  with len ts have "int (length (drop_outdated u window (request_times (maybe_cleanup u l2) ?k))) < mx" if "reset \<le> u" for u
    using that by fastforce
  with reset fresh show ?thesis by (simp add: is_allowed_def Let_def)
qed

text \<open>
  With a Redis client the limiter refuses nobody: the answer is a coroutine that is never
  awaited, which is true, and no state changes.
\<close>

theorem redis_mode_never_limits:
  "redis_client (RateLimiter cfg redis_ok t0) \<Longrightarrow>
     list_all snd (trace serve calls (RateLimiter cfg redis_ok t0))"
proof -
  have "redis_client l \<Longrightarrow> list_all snd (trace serve calls l)" for l
    by (induction calls arbitrary: l)
      (auto simp: serve_def is_allowed_def truth_def split: prod.split)
  then show "redis_client (RateLimiter cfg redis_ok t0) \<Longrightarrow>
     list_all snd (trace serve calls (RateLimiter cfg redis_ok t0))" .
qed

theorem redis_mode_never_limits_witness:
  "list_all snd (trace serve [(0, ''u'', ''/v1''), (0, ''u'', ''/v1'')]
     (RateLimiter \<lparr>max_requests = 1, window_seconds = 60, cleanup_interval = 300, redis_url = Some ''redis://r''\<rparr> True 0))"
  by (rule redis_mode_never_limits) code_simp

text \<open>
  The bound needs the window condition. The cleanup judges every key by the global
  window, so an endpoint with a longer one loses its log: with one request per hour
  allowed, a second is accepted five minutes after the first.
\<close>

theorem long_window_forgotten:
  "let l = configure_endpoint ''/v1'' 1 3600 (RateLimiter default_config False 0)
   in map snd (trace serve [(10, ''u'', ''/v1''), (200, ''u'', ''/v1''), (310, ''u'', ''/v1'')] l)
        = [True, False, True]"
  by code_simp

end
