(* ===== verification/Config.thy ===== *)
theory Config
  imports Prelude Rate_Limiting "HOL-Library.AList"
begin

text \<open>
  \<open>llm_assistant_api/config.py\<close> and the part of \<open>main.py\<close> that turns the settings into
  the application's state: the settings record with its defaults and validators, the
  comma-separated lists, the rate-limit rules, and the start-up checks. Float settings
  are rational numbers, the comparisons and the one product with them exact.
\<close>

section \<open>Settings\<close>

definition split_csv :: "string \<Rightarrow> string list" where
  "split_csv raw = map py_strip (filter (\<lambda>item. py_strip item \<noteq> []) (py_split '','' raw))"

record settings =
  app_name :: string
  log_level :: string
  log_format :: string
  cors_origins :: string
  prod_mode :: bool
  upstream_base_url :: string
  upstream_api_key :: string
  model_id :: string
  autocomplete_enabled :: bool
  autocomplete_base_url :: string
  autocomplete_model_id :: string
  embeddings_enabled :: bool
  embeddings_base_url :: string
  embeddings_model_id :: string
  rerank_enabled :: bool
  rerank_base_url :: string
  rerank_model_id :: string
  api_keys :: string
  rate_limit_rules :: string
  rate_limit_max_requests :: int
  rate_limit_window_seconds :: int
  rate_limit_cleanup_interval :: int
  rate_limit_redis_url :: string
  request_timeout_seconds :: rat
  connect_timeout_seconds :: rat
  max_connections :: int
  max_tokens_cap :: int
  model_alias_fallback :: bool
  expose_upstream_models :: bool
  normalize_tool_arguments_setting :: bool
  normalize_empty_tool_arguments_setting :: bool
  autocomplete_timeout_seconds :: rat
  embeddings_timeout_seconds :: rat
  priority_routing_enabled :: bool
  autocomplete_priority :: int
  chat_priority :: int
  context_guard_tokens :: int
  context_guard_margin :: rat
  chars_per_token :: rat

definition default_settings :: settings where
  "default_settings = \<lparr>
     app_name = ''llm-assistant-api'', log_level = ''INFO'', log_format = ''text'',
     cors_origins = '''', prod_mode = False,
     upstream_base_url = ''http://vllm:8999/v1'', upstream_api_key = '''',
     model_id = ''Qwen/Qwen3-Coder-30B-A3B-Instruct'',
     autocomplete_enabled = False,
     autocomplete_base_url = ''http://vllm-autocomplete:8999/v1'',
     autocomplete_model_id = ''Qwen/Qwen2.5-Coder-1.5B'',
     embeddings_enabled = False,
     embeddings_base_url = ''http://vllm-embeddings:8999/v1'',
     embeddings_model_id = ''Qwen/Qwen3-Embedding-0.6B'',
     rerank_enabled = False,
     rerank_base_url = ''http://vllm-rerank:8999/v1'',
     rerank_model_id = ''BAAI/bge-reranker-v2-m3'',
     api_keys = '''', rate_limit_rules = '''',
     rate_limit_max_requests = 100, rate_limit_window_seconds = 60,
     rate_limit_cleanup_interval = 300, rate_limit_redis_url = '''',
     request_timeout_seconds = 900, connect_timeout_seconds = 10,
     max_connections = 100, max_tokens_cap = 0,
     model_alias_fallback = True, expose_upstream_models = False,
     normalize_tool_arguments_setting = True, normalize_empty_tool_arguments_setting = True,
     autocomplete_timeout_seconds = 5, embeddings_timeout_seconds = 60,
     priority_routing_enabled = False, autocomplete_priority = -1, chat_priority = 0,
     context_guard_tokens = 0, context_guard_margin = 95 / 100, chars_per_token = 35 / 10\<rparr>"

text \<open>The field validators: the messages of the fields refused; none means the settings load.\<close>

definition settings_errors :: "settings \<Rightarrow> string list" where
  "settings_errors s =
     map snd (filter fst
       [(request_timeout_seconds s \<le> 0, ''request_timeout_seconds must be positive''),
        (connect_timeout_seconds s \<le> 0, ''connect_timeout_seconds must be positive''),
        (max_connections s \<le> 0, ''max_connections must be positive''),
        (max_tokens_cap s < 0, ''max_tokens_cap must be non-negative''),
        (autocomplete_timeout_seconds s \<le> 0, ''route timeouts must be positive''),
        (embeddings_timeout_seconds s \<le> 0, ''route timeouts must be positive''),
        (context_guard_tokens s < 0, ''context_guard_tokens must be non-negative''),
        (\<not> (0 < context_guard_margin s \<and> context_guard_margin s \<le> 1),
           ''context_guard_margin must be in (0, 1]''),
        (chars_per_token s \<le> 0, ''chars_per_token must be positive'')])"

text \<open>\<open>api_key_set\<close>, a frozenset: the keys without repetitions, in some order.\<close>

definition api_key_set :: "settings \<Rightarrow> string list" where
  "api_key_set s = remdups (split_csv (api_keys s))"

definition autocomplete_aliases :: "settings \<Rightarrow> string list" where
  "autocomplete_aliases s =
     (if \<not> autocomplete_enabled s then []
      else [autocomplete_model_id s, ''autocomplete''])"

definition served_models :: "settings \<Rightarrow> string list" where
  "served_models s =
     [model_id s]
     @ (if autocomplete_enabled s then [autocomplete_model_id s] else [])
     @ (if embeddings_enabled s then [embeddings_model_id s] else [])
     @ (if rerank_enabled s then [rerank_model_id s] else [])"

definition context_budget :: "settings \<Rightarrow> int" where
  "context_budget s =
     (if context_guard_tokens s \<le> 0 then 0
      else \<lfloor>of_int (context_guard_tokens s) * context_guard_margin s\<rfloor>)"

section \<open>Rate-limit rules\<close>

type_synonym rules = "(string \<times> int \<times> int) list"

definition parse_rule :: "string \<Rightarrow> rules \<Rightarrow> rules" where
  "parse_rule rule rules =
     (case py_split '':'' rule of
        [endpoint, max_req, window] \<Rightarrow>
          (case (py_int max_req, py_int window) of
             (Some m, Some w) \<Rightarrow> AList.update endpoint (m, w) rules
           | _ \<Rightarrow> rules)
      | _ \<Rightarrow> rules)"

definition rate_limit_rules_parsed :: "settings \<Rightarrow> rules" where
  "rate_limit_rules_parsed s =
     (if rate_limit_rules s = [] then []
      else fold parse_rule (split_csv (rate_limit_rules s)) [])"

section \<open>Start-up\<close>

text \<open>
  \<open>_validate_config\<close>: the issues found, as the list the code builds. In production they
  stop the start-up, otherwise they are logged.
\<close>

definition key_issues :: "string \<Rightarrow> string list" where
  "key_issues key =
     (if length key < 16
      then [''API key is too short ('' @ str_nat (length key) @ '' chars). ''
          @ ''Use at least 16 characters for security.''] else [])
     @ (if all_digits key \<or> (key \<noteq> [] \<and> list_all is_alpha key)
            \<or> key \<in> {''test'', ''demo'', ''example''}
        then [''API key appears to be weak (numeric, alphabetic, or common word). ''
            @ ''Use a random string.''] else [])"

definition config_issues :: "(rat \<Rightarrow> string) \<Rightarrow> settings \<Rightarrow> string list" where
  "config_issues show s =
     concat (map key_issues (api_key_set s))
     @ (if autocomplete_timeout_seconds s > request_timeout_seconds s
        then [''autocomplete_timeout_seconds ('' @ show (autocomplete_timeout_seconds s)
            @ '') exceeds request_timeout_seconds ('' @ show (request_timeout_seconds s) @ '')''] else [])
     @ (if embeddings_timeout_seconds s > request_timeout_seconds s
        then [''embeddings_timeout_seconds ('' @ show (embeddings_timeout_seconds s)
            @ '') exceeds request_timeout_seconds ('' @ show (request_timeout_seconds s) @ '')''] else [])
     @ (if rate_limit_max_requests s \<le> 0 then [''rate_limit_max_requests must be positive''] else [])
     @ (if rate_limit_window_seconds s \<le> 0 then [''rate_limit_window_seconds must be positive''] else [])
     @ (if context_guard_tokens s < 0 then [''context_guard_tokens must be non-negative''] else [])
     @ (if \<not> (0 < context_guard_margin s \<and> context_guard_margin s \<le> 1)
        then [''context_guard_margin must be in (0, 1]''] else [])"

definition validate_config :: "(rat \<Rightarrow> string) \<Rightarrow> settings \<Rightarrow> string + unit" where
  "validate_config show s =
     (let errors = config_issues show s in
      if errors \<noteq> [] \<and> prod_mode s
      then Inl (''Invalid production configuration:'' @ [NL] @ py_join [NL] errors)
      else Inr ())"

text \<open>The validator of the whole object only warns; \<open>shown\<close> prints a number with one decimal.\<close>

definition timeout_warnings :: "(rat \<Rightarrow> string) \<Rightarrow> settings \<Rightarrow> string list" where
  "timeout_warnings shown s =
     concat (map (\<lambda>(name, t).
         if t > request_timeout_seconds s
         then [name @ '' ('' @ shown t @ '') exceeds request_timeout_seconds ('' @ shown (request_timeout_seconds s)
               @ ''); capping to global timeout'']
         else [])
       [(''autocomplete_timeout_seconds'', autocomplete_timeout_seconds s),
        (''embeddings_timeout_seconds'', embeddings_timeout_seconds s)])"

definition cors_origin_list :: "settings \<Rightarrow> string list" where
  "cors_origin_list s = split_csv (cors_origins s)"

text \<open>
  The state part of \<open>create_app\<close>: the limiter is built from the settings and told the rules.
\<close>

definition start_limiter :: "(rat \<Rightarrow> string) \<Rightarrow> settings \<Rightarrow> bool \<Rightarrow> rat \<Rightarrow> string + limiter" where
  "start_limiter show s redis_ok now =
     (case validate_config show s of
        Inl e \<Rightarrow> Inl e
      | Inr _ \<Rightarrow>
          (case RateLimitConfig (rate_limit_max_requests s) (rate_limit_window_seconds s)
                  (rate_limit_cleanup_interval s)
                  (if rate_limit_redis_url s = [] then None else Some (rate_limit_redis_url s)) of
             Inl e \<Rightarrow> Inl e
           | Inr cfg \<Rightarrow>
               Inr (fold (\<lambda>(endpoint, m, w). configure_endpoint endpoint m w)
                      (rate_limit_rules_parsed s) (RateLimiter cfg redis_ok now))))"

section \<open>What a started gateway enforces\<close>

lemma distinct_parse_rule: "distinct (map fst rules) \<Longrightarrow> distinct (map fst (parse_rule rule rules))"
  by (auto simp: parse_rule_def distinct_update split: list.split option.split)

lemma distinct_rules: "distinct (map fst (rate_limit_rules_parsed s))"
proof -
  have "distinct (map fst rules) \<Longrightarrow> distinct (map fst (fold parse_rule raw rules))" for raw rules
    by (induction raw arbitrary: rules) (auto intro: distinct_parse_rule)
  then show ?thesis by (simp add: rate_limit_rules_parsed_def)
qed

lemma configure_all:
  "endpoint_configs (fold (\<lambda>(e, m, w). configure_endpoint e m w) rules l) =
     endpoint_configs l ++ map_of (rev rules)"
  "config (fold (\<lambda>(e, m, w). configure_endpoint e m w) rules l) = config l"
  "requests (fold (\<lambda>(e, m, w). configure_endpoint e m w) rules l) = requests l"
  "redis_client (fold (\<lambda>(e, m, w). configure_endpoint e m w) rules l) = redis_client l"
  by (induction rules arbitrary: l) (auto simp: configure_endpoint_def map_add_def fun_eq_iff split: option.split)

lemma start_limiter_cases:
  assumes "start_limiter show s redis_ok now = Inr l"
  obtains cfg where "max_requests cfg = rate_limit_max_requests s" "0 < max_requests cfg"
    "window_seconds cfg = rate_limit_window_seconds s" "0 < window_seconds cfg"
    "l = fold (\<lambda>(e, m, w). configure_endpoint e m w) (rate_limit_rules_parsed s) (RateLimiter cfg redis_ok now)"
proof -
  define url where "url = (if rate_limit_redis_url s = [] then None else Some (rate_limit_redis_url s))"
  obtain cfg where "RateLimitConfig (rate_limit_max_requests s) (rate_limit_window_seconds s)
      (rate_limit_cleanup_interval s) url = Inr cfg"
    "l = fold (\<lambda>(e, m, w). configure_endpoint e m w) (rate_limit_rules_parsed s) (RateLimiter cfg redis_ok now)"
    using assms unfolding url_def[symmetric] start_limiter_def by (auto split: sum.splits)
  then show thesis by (intro that[of cfg]) (auto simp: RateLimitConfig_def split: if_splits)
qed

lemma start_limiter_empty: "start_limiter show s redis_ok now = Inr l \<Longrightarrow> requests l k = None"
  by (erule start_limiter_cases) (simp add: configure_all RateLimiter_def)

text \<open>
  A gateway that starts enforces on each endpoint the last well-formed rule written for
  it, and elsewhere the global limits, which are positive; its limiter starts empty.
\<close>

theorem started_limits:
  assumes "start_limiter show s redis_ok now = Inr l"
  shows "get_config_for_endpoint l e =
           (case map_of (rate_limit_rules_parsed s) e of
              Some limits \<Rightarrow> limits
            | None \<Rightarrow> (rate_limit_max_requests s, rate_limit_window_seconds s)) \<and>
         0 < rate_limit_max_requests s \<and> 0 < rate_limit_window_seconds s \<and>
         requests l = (\<lambda>_. None)"
proof -
  obtain cfg where cfg: "max_requests cfg = rate_limit_max_requests s" "0 < max_requests cfg"
    "window_seconds cfg = rate_limit_window_seconds s" "0 < window_seconds cfg"
    "l = fold (\<lambda>(e, m, w). configure_endpoint e m w) (rate_limit_rules_parsed s) (RateLimiter cfg redis_ok now)"
    using assms by (rule start_limiter_cases)
  have "map_of (rev (rate_limit_rules_parsed s)) = map_of (rate_limit_rules_parsed s)"
    using distinct_rules[of s] by (simp add: map_of_inject_set rev_map[symmetric])
  with cfg show ?thesis
    by (simp add: get_config_for_endpoint_def configure_all RateLimiter_def map_add_def split: option.split)
qed

theorem started_limits_witness:
  "\<exists>l. start_limiter (\<lambda>_. []) (default_settings\<lparr>rate_limit_rules := ''/v1:5:60''\<rparr>) False 0 = Inr l \<and>
       get_config_for_endpoint l ''/v1'' = (5, 60) \<and> get_config_for_endpoint l ''/'' = (100, 60)"
proof -
  let ?s = "default_settings\<lparr>rate_limit_rules := ''/v1:5:60''\<rparr>"
  let ?l = "fold (\<lambda>(e, m, w). configure_endpoint e m w) [(''/v1'', 5, 60)]
      (RateLimiter \<lparr>max_requests = 100, window_seconds = 60, cleanup_interval = 300, redis_url = None\<rparr> False 0)"
  have rules: "rate_limit_rules_parsed ?s = [(''/v1'', 5, 60)]" by code_simp
  have "validate_config (\<lambda>_. []) ?s = Inr ()" by code_simp
  then have start: "start_limiter (\<lambda>_. []) ?s False 0 = Inr ?l"
    by (simp add: start_limiter_def rules RateLimitConfig_def) (simp add: default_settings_def)
  have global: "rate_limit_max_requests ?s = 100" "rate_limit_window_seconds ?s = 60"
    by (simp_all add: default_settings_def)
  show ?thesis
    using started_limits[OF start, of "''/v1''"] started_limits[OF start, of "''/''"] start
    unfolding rules global by (intro exI[of _ ?l]) simp
qed

text \<open>
  The context budget of settings that pass validation is never negative and never more
  than the configured window, and zero exactly when the guard is off or rounds to
  nothing.
\<close>

theorem context_budget_bounds:
  assumes "settings_errors s = []"
  shows "0 \<le> context_budget s \<and> context_budget s \<le> context_guard_tokens s"
proof -
  have m: "0 < context_guard_margin s" "context_guard_margin s \<le> 1" and t: "0 \<le> context_guard_tokens s"
    using assms by (auto simp: settings_errors_def split: if_splits)
  have "of_int (context_guard_tokens s) * context_guard_margin s \<le> of_int (context_guard_tokens s)"
    using m t by (simp add: mult_left_le)
  with m t show ?thesis
    by (auto simp: context_budget_def floor_le_iff le_floor_iff)
qed

theorem context_budget_bounds_witness:
  "0 \<le> context_budget (default_settings\<lparr>context_guard_tokens := 32768\<rparr>)"
proof -
  have "settings_errors (default_settings\<lparr>context_guard_tokens := 32768\<rparr>) = []"
    by (simp add: settings_errors_def default_settings_def)
  from context_budget_bounds[OF this] show ?thesis by blast
qed

end
