(* ===== verification/Payload.thy ===== *)
theory Payload
  imports Tool_Calls Context_Guard Config
begin

text \<open>
  What the gateway makes of a request body before it forwards it:
  \<open>llm_assistant_api/payload.py\<close> (repairs of malformed messages), and of
  \<open>llm_assistant_api/proxy.py\<close> the choice of the upstream (\<open>Target\<close>,
  \<open>resolve_target\<close>) and \<open>prepare_payload\<close>.
\<close>

section \<open>Repairing messages\<close>

definition message_label :: "json \<Rightarrow> string" where
  "message_label message =
     (case message of
        JObj m \<Rightarrow> (case dict_get m ''role'' of
                     JStr role \<Rightarrow> if role \<noteq> [] then role else ''<message>''
                   | _ \<Rightarrow> ''<message>'')
      | _ \<Rightarrow> ''<message>'')"

fun is_text :: "json \<Rightarrow> bool" where
  "is_text (JStr s) = True"
| "is_text (JArr xs) = True"
| "is_text JNull = True"
| "is_text _ = False"

fun type_name :: "json \<Rightarrow> string" where
  "type_name JNull = ''NoneType''"
| "type_name (JBool b) = ''bool''"
| "type_name (JInt i) = ''int''"
| "type_name (JFloat t) = ''float''"
| "type_name (JStr s) = ''str''"
| "type_name (JArr xs) = ''list''"
| "type_name (JObj d) = ''dict''"

text \<open>\<open>set(content) == {"text"} or set(content) == {"content"}\<close>, and the value under that key.\<close>

definition wrapped_text :: "dict \<Rightarrow> json option" where
  "wrapped_text d =
     (if set (map fst d) = {''text''} \<or> set (map fst d) = {''content''}
      then Some (if dict_has d ''text'' then dict_get d ''text'' else dict_get d ''content'')
      else None)"

definition normalize_message_content :: "dict \<Rightarrow> dict \<times> string list" where
  "normalize_message_content message =
     (let content = dict_get message ''content''; label = message_label (JObj message) in
      if is_text content then (message, [])
      else
        (case content of
           JObj d \<Rightarrow>
             (case wrapped_text d of
                Some value \<Rightarrow>
                  if is_text value
                  then (dict_set ''content'' value message,
                        [label @ '': content object unwrapped to its text value''])
                  else (dict_set ''content'' (JStr (json_dumps content)) message,
                        [label @ '': content object converted to a JSON string''])
              | None \<Rightarrow> (dict_set ''content'' (JStr (json_dumps content)) message,
                        [label @ '': content object converted to a JSON string'']))
         | _ \<Rightarrow> (dict_set ''content'' (JStr (json_str content)) message,
                 [label @ '': '' @ type_name content @ '' content coerced to a string''])))"

definition normalize_tool_calls :: "dict \<Rightarrow> dict \<times> string list" where
  "normalize_tool_calls message =
     (case dict_get message ''tool_calls'' of
        JObj call \<Rightarrow> (dict_set ''tool_calls'' (JArr [JObj call]) message,
                      [message_label (JObj message) @ '': single tool_calls object wrapped in a list''])
      | _ \<Rightarrow> (message, []))"

definition normalize_message :: "json \<Rightarrow> json \<times> string list" where
  "normalize_message message =
     (case message of
        JObj m \<Rightarrow>
          (let (current, content_notes) = normalize_message_content m;
               (current, tool_notes) = normalize_tool_calls current
           in (JObj current, content_notes @ tool_notes))
      | _ \<Rightarrow> (message, []))"

text \<open>
  A message is replaced by a new object exactly when there is a note about it, so
  \<open>changed\<close> is: some message has a note.
\<close>

definition normalize_messages :: "dict \<Rightarrow> dict \<times> string list" where
  "normalize_messages payload =
     (case dict_get payload ''messages'' of
        JArr messages \<Rightarrow>
          (let rs = map normalize_message messages in
           (if list_ex (\<lambda>r. snd r \<noteq> []) rs
            then dict_set ''messages'' (JArr (map fst rs)) payload else payload,
            concat (map snd rs)))
      | _ \<Rightarrow> (payload, []))"

definition normalize_inbound_payload ::
  "(string \<Rightarrow> json option) \<Rightarrow> bool \<Rightarrow> bool \<Rightarrow> dict \<Rightarrow> dict \<times> string list" where
  "normalize_inbound_payload literal_eval tool_arguments empty_arguments payload =
     (let (current, notes) = normalize_messages payload in
      if tool_arguments
      then (let (repaired, tool_notes) = normalize_tool_arguments literal_eval empty_arguments current
            in (repaired, notes @ tool_notes))
      else (current, notes))"

section \<open>Choosing the upstream\<close>

record target =
  target_base_url :: string
  target_model_id :: string
  target_api_key :: string
  target_timeout :: "rat option"
  target_priority :: "int option"

definition strip_slashes_right :: "string \<Rightarrow> string" where
  "strip_slashes_right s = rev (dropWhile (\<lambda>c. c = CHR ''/'') (rev s))"

definition strip_slashes_left :: "string \<Rightarrow> string" where
  "strip_slashes_left s = dropWhile (\<lambda>c. c = CHR ''/'') s"

definition make_target :: "string \<Rightarrow> string \<Rightarrow> string \<Rightarrow> rat option \<Rightarrow> int option \<Rightarrow> target" where
  "make_target base_url model key timeout prio =
     \<lparr>target_base_url = strip_slashes_right base_url, target_model_id = model, target_api_key = key,
      target_timeout = timeout, target_priority = prio\<rparr>"

definition target_url :: "target \<Rightarrow> string \<Rightarrow> string" where
  "target_url t path = target_base_url t @ ''/'' @ strip_slashes_left path"

definition target_headers :: "target \<Rightarrow> string option \<Rightarrow> (string \<times> string) list" where
  "target_headers t request_id =
     [(''content-type'', ''application/json'')]
     @ (if target_api_key t \<noteq> [] then [(''authorization'', ''Bearer '' @ target_api_key t)] else [])
     @ (case request_id of Some rid \<Rightarrow> if rid \<noteq> [] then [(''x-request-id'', rid)] else [] | None \<Rightarrow> [])"

datatype route_error =
    ModelNotFoundError string "string list"
  | RouteDisabledError string string

definition resolve_target :: "settings \<Rightarrow> string option \<Rightarrow> route_error + target" where
  "resolve_target s requested =
     (let named = (case requested of Some m \<Rightarrow> m | None \<Rightarrow> []) in
      if named \<noteq> [] \<and> named \<in> set (autocomplete_aliases s)
      then Inr (make_target (autocomplete_base_url s) (autocomplete_model_id s) (upstream_api_key s)
                  (Some (autocomplete_timeout_seconds s))
                  (if priority_routing_enabled s then Some (autocomplete_priority s) else None))
      else if named \<noteq> [] \<and> named \<noteq> model_id s \<and> \<not> model_alias_fallback s
      then Inl (ModelNotFoundError named (served_models s))
      else Inr (make_target (upstream_base_url s) (model_id s) (upstream_api_key s) None
                  (if priority_routing_enabled s then Some (chat_priority s) else None)))"

definition resolve_embeddings_target :: "settings \<Rightarrow> route_error + target" where
  "resolve_embeddings_target s =
     (if \<not> embeddings_enabled s then Inl (RouteDisabledError ''/v1/embeddings'' ''EMBEDDINGS_ENABLED'')
      else Inr (make_target (embeddings_base_url s) (embeddings_model_id s) (upstream_api_key s)
                  (Some (embeddings_timeout_seconds s)) None))"

definition resolve_rerank_target :: "settings \<Rightarrow> route_error + target" where
  "resolve_rerank_target s =
     (if \<not> rerank_enabled s then Inl (RouteDisabledError ''/v1/rerank'' ''RERANK_ENABLED'')
      else Inr (make_target (rerank_base_url s) (rerank_model_id s) (upstream_api_key s)
                  (Some (embeddings_timeout_seconds s)) None))"

section \<open>Preparing the body\<close>

definition cap_field :: "int \<Rightarrow> string \<Rightarrow> dict \<Rightarrow> dict" where
  "cap_field cap field prepared =
     (case as_int (dict_get prepared field) of
        Some requested \<Rightarrow> if requested > cap then dict_set field (JInt cap) prepared else prepared
      | None \<Rightarrow> prepared)"

definition apply_cap :: "int \<Rightarrow> dict \<Rightarrow> dict" where
  "apply_cap cap prepared =
     (if cap > 0 then
        (let capped = cap_field cap ''max_completion_tokens'' (cap_field cap ''max_tokens'' prepared) in
         if dict_get capped ''max_tokens'' = JNull \<and> dict_get capped ''max_completion_tokens'' = JNull
         then dict_set ''max_tokens'' (JInt cap) capped else capped)
      else prepared)"

definition apply_priority :: "int option \<Rightarrow> dict \<Rightarrow> dict" where
  "apply_priority prio prepared =
     (case prio of
        Some p \<Rightarrow> if \<not> dict_has prepared ''priority'' then dict_set ''priority'' (JInt p) prepared else prepared
      | None \<Rightarrow> prepared)"

definition prepare_payload ::
  "(string \<Rightarrow> json option) \<Rightarrow> dict \<Rightarrow> target \<Rightarrow> settings \<Rightarrow> context_overflow + dict" where
  "prepare_payload literal_eval payload t s =
     (let named = dict_set ''model'' (JStr (target_model_id t)) payload;
          normalized = fst (normalize_inbound_payload literal_eval
                              (normalize_tool_arguments_setting s) True named);
          prepared = apply_priority (target_priority t) (apply_cap (max_tokens_cap s) normalized)
      in case guard_context prepared (context_budget s) (chars_per_token s) of
           Inl e \<Rightarrow> Inl e
         | Inr estimated \<Rightarrow> Inr prepared)"

section \<open>What preparing guarantees\<close>

lemma normalize_messages_frame:
  "k \<noteq> ''messages'' \<Longrightarrow> dict_get (fst (normalize_messages d)) k = dict_get d k"
  "k \<noteq> ''messages'' \<Longrightarrow> dict_has (fst (normalize_messages d)) k = dict_has d k"
  by (auto simp: normalize_messages_def Let_def split: json.split)

lemma normalize_tool_arguments_frame:
  "k \<noteq> ''messages'' \<Longrightarrow> dict_get (fst (normalize_tool_arguments le ne d)) k = dict_get d k"
  "k \<noteq> ''messages'' \<Longrightarrow> dict_has (fst (normalize_tool_arguments le ne d)) k = dict_has d k"
  by (auto simp: normalize_tool_arguments_def Let_def split: json.split)

lemma normalize_inbound_frame:
  assumes "k \<noteq> ''messages''"
  shows "dict_get (fst (normalize_inbound_payload le b ne d)) k = dict_get d k"
    and "dict_has (fst (normalize_inbound_payload le b ne d)) k = dict_has d k"
  using normalize_messages_frame[OF assms, of d]
    normalize_tool_arguments_frame[OF assms, of le ne "fst (normalize_messages d)"]
  by (auto simp: normalize_inbound_payload_def split: prod.split)

lemma cap_field_get:
  "dict_get (cap_field cap field d) k =
     (if k = field \<and> (\<exists>n. as_int (dict_get d field) = Some n \<and> cap < n) then JInt cap else dict_get d k)"
  "dict_has (cap_field cap field d) k \<longleftrightarrow> dict_has d k"
proof -
  show "dict_get (cap_field cap field d) k =
     (if k = field \<and> (\<exists>n. as_int (dict_get d field) = Some n \<and> cap < n) then JInt cap else dict_get d k)"
    by (auto simp: cap_field_def split: option.split)
  have "as_int (dict_get d field) = Some n \<Longrightarrow> dict_has d field" for n
    by (cases "dict_has d field") simp_all
  then show "dict_has (cap_field cap field d) k \<longleftrightarrow> dict_has d k"
    by (auto simp: cap_field_def split: option.split)
qed

lemma apply_cap_get:
  assumes "k \<noteq> ''max_tokens''" and "k \<noteq> ''max_completion_tokens''"
  shows "dict_get (apply_cap cap d) k = dict_get d k" and "dict_has (apply_cap cap d) k = dict_has d k"
  using assms by (auto simp: apply_cap_def Let_def cap_field_get)

lemma apply_cap_bound:
  assumes "0 < cap" and "field \<in> {''max_tokens'', ''max_completion_tokens''}"
    and "as_int (dict_get (apply_cap cap d) field) = Some n"
  shows "n \<le> cap"
  using assms by (auto simp: apply_cap_def Let_def cap_field_get split: if_splits)

lemma apply_cap_present:
  "0 < cap \<Longrightarrow> dict_get (apply_cap cap d) ''max_tokens'' \<noteq> JNull \<or>
     dict_get (apply_cap cap d) ''max_completion_tokens'' \<noteq> JNull"
  by (simp add: apply_cap_def Let_def)

lemma apply_priority_get:
  "k \<noteq> ''priority'' \<Longrightarrow> dict_get (apply_priority prio d) k = dict_get d k"
  "dict_get (apply_priority prio d) ''priority'' =
     (case prio of Some p \<Rightarrow> if dict_has d ''priority'' then dict_get d ''priority'' else JInt p
      | None \<Rightarrow> dict_get d ''priority'')"
  by (auto simp: apply_priority_def split: option.split)

lemma prepare_payload_Inr:
  "prepare_payload le payload t s = Inr prepared \<longleftrightarrow>
     prepared = apply_priority (target_priority t) (apply_cap (max_tokens_cap s)
       (fst (normalize_inbound_payload le (normalize_tool_arguments_setting s) True
               (dict_set ''model'' (JStr (target_model_id t)) payload)))) \<and>
     (context_budget s \<le> 0 \<or>
      estimate_payload_tokens prepared (chars_per_token s) + reserved_completion_tokens prepared \<le> context_budget s)"
  by (auto simp: prepare_payload_def guard_context_def Let_def split: sum.split)

text \<open>
  A prepared request asks the model it was routed to, and with a cap configured it states
  a completion limit, and no integer limit in it exceeds the cap.
\<close>

theorem prepared_capped:
  assumes "prepare_payload literal_eval payload t s = Inr prepared"
  shows "dict_get prepared ''model'' = JStr (target_model_id t) \<and>
    (0 < max_tokens_cap s \<longrightarrow>
      (dict_get prepared ''max_tokens'' \<noteq> JNull \<or> dict_get prepared ''max_completion_tokens'' \<noteq> JNull) \<and>
      (\<forall>field n. field \<in> {''max_tokens'', ''max_completion_tokens''} \<longrightarrow>
         as_int (dict_get prepared field) = Some n \<longrightarrow> n \<le> max_tokens_cap s))"
proof -
  define d where "d = fst (normalize_inbound_payload literal_eval (normalize_tool_arguments_setting s) True
               (dict_set ''model'' (JStr (target_model_id t)) payload))"
  have p: "prepared = apply_priority (target_priority t) (apply_cap (max_tokens_cap s) d)"
    using assms by (simp add: prepare_payload_Inr d_def)
  have "dict_get prepared ''model'' = JStr (target_model_id t)"
    by (simp add: p apply_priority_get apply_cap_get d_def normalize_inbound_frame)
  moreover have "dict_get prepared field = dict_get (apply_cap (max_tokens_cap s) d) field"
    if "field \<in> {''max_tokens'', ''max_completion_tokens''}" for field
    using that by (auto simp: p apply_priority_get)
  ultimately show ?thesis
    using apply_cap_bound[of "max_tokens_cap s" _ d] apply_cap_present[of "max_tokens_cap s" d] by auto
qed

theorem prepared_capped_witness:
  "\<exists>prepared. prepare_payload (\<lambda>_. None) [(''max_tokens'', JInt 100000)]
       (make_target ''http://v'' ''m'' [] None None) (default_settings\<lparr>max_tokens_cap := 4096\<rparr>) = Inr prepared \<and>
     (\<forall>n. as_int (dict_get prepared ''max_tokens'') = Some n \<longrightarrow> n \<le> 4096)"
proof -
  let ?s = "default_settings\<lparr>max_tokens_cap := 4096\<rparr>"
  let ?t = "make_target ''http://v'' ''m'' [] None None"
  have off: "context_budget ?s = 0" by (simp add: context_budget_def default_settings_def)
  then obtain prepared where p: "prepare_payload (\<lambda>_. None) [(''max_tokens'', JInt 100000)] ?t ?s = Inr prepared"
    by (auto simp: prepare_payload_Inr)
  have cap: "max_tokens_cap ?s = 4096" by simp
  from prepared_capped[OF p, unfolded cap] p show ?thesis by auto
qed

text \<open>
  Nothing else of the request changes: every field but the model, the messages, the two
  completion limits and the priority passes through as it came, and a priority the caller
  set is never overridden.
\<close>

theorem prepared_passthrough:
  assumes "prepare_payload literal_eval payload t s = Inr prepared"
  shows "(\<forall>k. k \<notin> {''model'', ''messages'', ''max_tokens'', ''max_completion_tokens'', ''priority''} \<longrightarrow>
            dict_get prepared k = dict_get payload k) \<and>
         (dict_has payload ''priority'' \<longrightarrow> dict_get prepared ''priority'' = dict_get payload ''priority'') \<and>
         (\<not> dict_has payload ''priority'' \<longrightarrow> dict_get prepared ''priority'' =
            (case target_priority t of Some p \<Rightarrow> JInt p | None \<Rightarrow> JNull))"
proof -
  define d where "d = fst (normalize_inbound_payload literal_eval (normalize_tool_arguments_setting s) True
               (dict_set ''model'' (JStr (target_model_id t)) payload))"
  have p: "prepared = apply_priority (target_priority t) (apply_cap (max_tokens_cap s) d)"
    using assms by (simp add: prepare_payload_Inr d_def)
  have "dict_has d ''priority'' = dict_has payload ''priority''"
    "dict_get d ''priority'' = dict_get payload ''priority''"
    by (simp_all add: d_def normalize_inbound_frame)
  then show ?thesis
    by (auto simp: p apply_priority_get apply_cap_get d_def normalize_inbound_frame split: option.split)
qed

theorem prepared_passthrough_witness:
  "\<exists>prepared. prepare_payload (\<lambda>_. None) [(''temperature'', JInt 0)]
       (make_target ''http://v'' ''m'' [] None (Some (-1))) default_settings = Inr prepared \<and>
     dict_get prepared ''temperature'' = JInt 0 \<and> dict_get prepared ''priority'' = JInt (-1)"
proof -
  let ?t = "make_target ''http://v'' ''m'' [] None (Some (-1))"
  have off: "context_budget default_settings = 0" by (simp add: context_budget_def default_settings_def)
  then obtain prepared where p: "prepare_payload (\<lambda>_. None) [(''temperature'', JInt 0)] ?t default_settings = Inr prepared"
    by (auto simp: prepare_payload_Inr)
  from prepared_passthrough[OF p] p show ?thesis
    by (auto simp: dict_get_def dict_has_def make_target_def)
qed

text \<open>
  The cap only sees integers: a limit sent as a float (or as text) passes whatever
  its size, and counts as stated, so no cap is filled in either.
\<close>

theorem float_limit_escapes_cap:
  "\<exists>prepared. prepare_payload (\<lambda>_. None) [(''max_tokens'', JFloat ''1000000.0'')]
       (make_target ''http://v'' ''m'' [] None None) (default_settings\<lparr>max_tokens_cap := 4096\<rparr>) = Inr prepared \<and>
     dict_get prepared ''max_tokens'' = JFloat ''1000000.0'' \<and> reserved_completion_tokens prepared = 0"
proof -
  let ?s = "default_settings\<lparr>max_tokens_cap := 4096\<rparr>"
  let ?p = "apply_priority None (apply_cap 4096 (fst (normalize_inbound_payload (\<lambda>_. None) True True
     [(''max_tokens'', JFloat ''1000000.0''), (''model'', JStr ''m'')])))"
  have "context_budget ?s = 0" by (simp add: context_budget_def default_settings_def)
  then have "prepare_payload (\<lambda>_. None) [(''max_tokens'', JFloat ''1000000.0'')]
       (make_target ''http://v'' ''m'' [] None None) ?s = Inr ?p"
    by (simp add: prepare_payload_Inr make_target_def) (simp add: default_settings_def)
  moreover have "dict_get ?p ''max_tokens'' = JFloat ''1000000.0''" "reserved_completion_tokens ?p = 0"
    by code_simp+
  ultimately show ?thesis by blast
qed

section \<open>Repairing once is enough\<close>

lemma normalize_message_content_text:
  "is_text (dict_get (fst (normalize_message_content m)) ''content'')"
  by (auto simp: normalize_message_content_def Let_def split: json.split option.split)

lemma normalize_message_content_kept:
  "snd (normalize_message_content m) = [] \<Longrightarrow> fst (normalize_message_content m) = m"
  by (auto simp: normalize_message_content_def Let_def split: json.splits option.splits if_splits)

lemma normalize_tool_calls_kept: "snd (normalize_tool_calls m) = [] \<Longrightarrow> fst (normalize_tool_calls m) = m"
  by (auto simp: normalize_tool_calls_def split: json.splits)

lemma normalize_tool_calls_get:
  "k \<noteq> ''tool_calls'' \<Longrightarrow> dict_get (fst (normalize_tool_calls m)) k = dict_get m k"
  "\<not> (\<exists>d. dict_get (fst (normalize_tool_calls m)) ''tool_calls'' = JObj d)"
  by (auto simp: normalize_tool_calls_def split: json.split)

text \<open>A message needs no repair when its content is text and its tool calls are no object.\<close>

lemma normalize_message_settled:
  "is_text (dict_get m ''content'') \<Longrightarrow> \<not> (\<exists>d. dict_get m ''tool_calls'' = JObj d) \<Longrightarrow>
     normalize_message (JObj m) = (JObj m, [])"
  by (auto simp: normalize_message_def normalize_message_content_def normalize_tool_calls_def split: json.split)

lemma normalize_message_fst:
  "fst (normalize_message (JObj m)) = JObj (fst (normalize_tool_calls (fst (normalize_message_content m))))"
  by (simp add: normalize_message_def split: prod.split)

lemma normalize_message_stable:
  "normalize_message (fst (normalize_message m)) = (fst (normalize_message m), [])"
proof (cases m)
  case (JObj d)
  show ?thesis
    unfolding JObj normalize_message_fst
    by (rule normalize_message_settled)
      (simp_all add: normalize_tool_calls_get normalize_message_content_text)
qed (simp_all add: normalize_message_def)

lemma normalize_message_after_calls:
  assumes "normalize_message m = (m, [])"
  shows "normalize_message (fst (normalize_call_message le ne m)) = (fst (normalize_call_message le ne m), [])"
proof (cases "snd (normalize_call_message le ne m) = []")
  case True
  from normalize_call_message_kept[OF this] assms show ?thesis by simp
next
  case False
  then obtain d calls where m: "m = JObj d" "dict_get d ''tool_calls'' = JArr calls"
    by (auto simp: normalize_call_message_def split: json.splits)
  with False have m3: "fst (normalize_call_message le ne m) =
       JObj (dict_set ''tool_calls'' (JArr (map fst (map (normalize_call le ne) calls))) d)"
    by (auto simp: normalize_call_message_def Let_def)
  have "snd (normalize_message_content d) = []"
    using assms m(1) by (auto simp: normalize_message_def split: prod.splits)
  from normalize_message_content_kept[OF this] normalize_message_content_text[of d]
  have "is_text (dict_get d ''content'')" by simp
  then show ?thesis unfolding m3 by (intro normalize_message_settled) simp_all
qed

lemma normalize_messages_settled:
  "(\<And>ms. dict_get p ''messages'' = JArr ms \<Longrightarrow> \<forall>m \<in> set ms. normalize_message m = (m, [])) \<Longrightarrow>
     normalize_messages p = (p, [])"
  by (auto simp: normalize_messages_def Let_def list_ex_iff split: json.split)

lemma normalize_message_kept: "snd (normalize_message m) = [] \<Longrightarrow> fst (normalize_message m) = m"
  using normalize_message_content_kept normalize_tool_calls_kept
  by (cases m) (auto simp: normalize_message_def split_beta)

lemma normalize_messages_get:
  "dict_get p ''messages'' = JArr ms \<Longrightarrow>
     dict_get (fst (normalize_messages p)) ''messages'' = JArr (map (\<lambda>m. fst (normalize_message m)) ms)"
  by (auto simp: normalize_messages_def Let_def list_ex_iff normalize_message_kept map_idI comp_def)

lemma normalize_messages_other:
  "(\<And>ms. dict_get p ''messages'' \<noteq> JArr ms) \<Longrightarrow> normalize_messages p = (p, [])"
  by (auto simp: normalize_messages_def split: json.split)

lemma tool_arguments_get:
  "dict_get p ''messages'' = JArr ms \<Longrightarrow>
     dict_get (fst (normalize_tool_arguments le ne p)) ''messages'' =
       JArr (map (\<lambda>m. fst (normalize_call_message le ne m)) ms)"
  by (auto simp: normalize_tool_arguments_def Let_def normalize_call_message_kept map_idI comp_def)

lemma json_ok_wrapped: "json_ok (JObj d) \<Longrightarrow> wrapped_text d = Some v \<Longrightarrow> json_ok v"
  by (auto simp: wrapped_text_def simp del: json_ok.simps intro: json_ok_get split: if_splits)

lemma json_ok_content:
  assumes "json_ok (JObj m)"
  shows "json_ok (JObj (fst (normalize_message_content m)))"
proof -
  have set: "json_ok v \<Longrightarrow> json_ok (JObj (dict_set ''content'' v m))" for v
    by (rule json_ok_set[OF assms])
  show ?thesis
  proof (cases "dict_get m ''content''")
    case (JObj d)
    with json_ok_get[OF assms, of "''content''"] have "json_ok (JObj d)" by simp
    then have "wrapped_text d = Some v \<Longrightarrow> json_ok v" for v by (rule json_ok_wrapped)
    with set JObj assms show ?thesis
      by (cases "wrapped_text d") (simp_all add: normalize_message_content_def Let_def del: json_ok.simps(3) json_dumps.simps)
  qed (use set assms in \<open>simp_all add: normalize_message_content_def Let_def del: json_ok.simps(3)\<close>)
qed

lemma json_ok_tool_calls: "json_ok (JObj m) \<Longrightarrow> json_ok (JObj (fst (normalize_tool_calls m)))"
  using json_ok_get[of m "''tool_calls''"]
  by (auto simp: normalize_tool_calls_def intro!: json_ok_set simp del: json_ok.simps(3) split: json.split)

lemma json_ok_normalize_message: "json_ok m \<Longrightarrow> json_ok (fst (normalize_message m))"
  by (cases m) (simp_all only: normalize_message_fst json_ok_content json_ok_tool_calls,
      simp_all add: normalize_message_def)

lemma json_ok_normalize_messages:
  assumes "json_ok (JObj p)"
  shows "json_ok (JObj (fst (normalize_messages p)))"
proof (cases "dict_get p ''messages''")
  case (JArr ms)
  then have "json_ok (JArr ms)" using json_ok_get[OF assms, of "''messages''"] by simp
  then have "json_ok (JArr (map fst (map normalize_message ms)))"
    by (simp add: list_all_iff json_ok_normalize_message)
  with assms JArr show ?thesis
    by (auto simp: normalize_messages_def Let_def intro!: json_ok_set simp del: json_ok.simps)
qed (use assms in \<open>simp_all add: normalize_messages_def\<close>)

text \<open>
  C21. The inbound repairs are idempotent as a whole: a repaired body that passes through the
  gateway again is not changed and gets no note. The later repair of tool-call arguments
  does not undo the earlier ones.
\<close>

theorem inbound_idempotent:
  assumes "sound_literals literal_eval" and "json_ok (JObj payload)"
  shows "normalize_inbound_payload literal_eval True ne (fst (normalize_inbound_payload literal_eval True ne payload)) =
           (fst (normalize_inbound_payload literal_eval True ne payload), [])"
proof -
  let ?c = "fst (normalize_messages payload)"
  let ?r = "fst (normalize_tool_arguments literal_eval ne ?c)"
  have again: "normalize_tool_arguments literal_eval ne ?r = (?r, [])"
    by (rule tool_arguments_stable[OF assms(1) json_ok_normalize_messages[OF assms(2)]])
  have "normalize_messages ?r = (?r, [])"
  proof (cases "\<exists>ms. dict_get payload ''messages'' = JArr ms")
    case True
    then obtain ms where "dict_get payload ''messages'' = JArr ms" by blast
    then have "dict_get ?r ''messages'' = JArr (map (\<lambda>m. fst (normalize_call_message literal_eval ne m))
        (map (\<lambda>m. fst (normalize_message m)) ms))"
      by (intro tool_arguments_get normalize_messages_get)
    then show ?thesis
      by (intro normalize_messages_settled) (auto intro: normalize_message_after_calls normalize_message_stable)
  next
    case False
    then have "?c = payload" by (simp add: normalize_messages_other)
    with False have "?r = payload" by (auto simp: normalize_tool_arguments_def split: json.split)
    with False show ?thesis by (simp add: normalize_messages_other)
  qed
  with again show ?thesis by (simp add: normalize_inbound_payload_def split_beta)
qed

theorem inbound_idempotent_witness:
  "let payload = [(''messages'', JArr [JObj [(''role'', JStr ''user''), (''content'', JObj [(''text'', JStr ''hi'')]),
        (''tool_calls'', JObj [(''function'', JObj [(''arguments'', JObj [])])])]])];
       once = normalize_inbound_payload one_literal True True payload
   in length (snd once) = 3 \<and> normalize_inbound_payload one_literal True True (fst once) = (fst once, [])"
proof -
  let ?p = "[(''messages'', JArr [JObj [(''role'', JStr ''user''), (''content'', JObj [(''text'', JStr ''hi'')]),
        (''tool_calls'', JObj [(''function'', JObj [(''arguments'', JObj [])])])]])]"
  have three: "length (snd (normalize_inbound_payload one_literal True True ?p)) = 3" by code_simp
  have "json_ok (JObj ?p)" by simp
  from inbound_idempotent[OF sound_one_literal this, of True] three show ?thesis by (simp only: Let_def)
qed

text \<open>
  Routing always answers with a model the gateway serves; it fails only when aliasing is
  off and a name was asked that is neither the primary model nor an autocomplete alias, and
  then says which models exist.
\<close>

theorem resolve_target_outcomes:
  "(\<forall>t. resolve_target s requested = Inr t \<longrightarrow> target_model_id t \<in> set (served_models s)) \<and>
   (\<forall>e. resolve_target s requested = Inl e \<longleftrightarrow>
      \<not> model_alias_fallback s \<and>
      (\<exists>name. requested = Some name \<and> name \<noteq> [] \<and> name \<noteq> model_id s \<and> name \<notin> set (autocomplete_aliases s) \<and>
         e = ModelNotFoundError name (served_models s)))"
  by (auto simp: resolve_target_def make_target_def served_models_def autocomplete_aliases_def Let_def
      split: option.split if_splits)

section \<open>A prepared request is well-formed JSON\<close>

lemma json_ok_getD: "json_ok (JObj d) \<Longrightarrow> dict_get d k = v \<Longrightarrow> json_ok v"
  using json_ok_get by metis

lemma wrapped_text_ok: "json_ok (JObj d) \<Longrightarrow> wrapped_text d = Some v \<Longrightarrow> json_ok v"
proof -
  assume ok: "json_ok (JObj d)" and "wrapped_text d = Some v"
  moreover have "v = x \<or> v = y" if "(if c then Some (if b then x else y) else None) = Some v" for b c and x y :: json
    using that by (simp split: if_splits)
  ultimately have "v = dict_get d ''text'' \<or> v = dict_get d ''content''"
    unfolding wrapped_text_def by blast
  with json_ok_get[OF ok] show ?thesis by metis
qed

lemma normalize_message_content_ok:
  assumes "json_ok (JObj m)"
  shows "json_ok (JObj (fst (normalize_message_content m)))"
proof -
  have as_text: "json_ok (JObj (dict_set ''content'' (JStr s) m))" for s
    using assms by (rule json_ok_set) simp
  show ?thesis
  proof (cases "dict_get m ''content''")
    case (JObj d)
    have "json_ok (JObj (dict_set ''content'' v m))" if "wrapped_text d = Some v" for v
      by (rule json_ok_set[OF assms wrapped_text_ok[OF json_ok_getD[OF assms JObj] that]])
    then show ?thesis
      using as_text by (simp add: normalize_message_content_def Let_def JObj split: option.split del: json_ok.simps)
  qed (use assms as_text in \<open>simp_all add: normalize_message_content_def Let_def del: json_ok.simps\<close>)
qed

lemma normalize_tool_calls_ok:
  assumes "json_ok (JObj m)"
  shows "json_ok (JObj (fst (normalize_tool_calls m)))"
proof (cases "dict_get m ''tool_calls''")
  case (JObj call)
  have "json_ok (JArr [JObj call])" using json_ok_getD[OF assms JObj] by simp
  with assms show ?thesis by (simp add: normalize_tool_calls_def JObj json_ok_set del: json_ok.simps)
qed (use assms in \<open>simp_all add: normalize_tool_calls_def del: json_ok.simps\<close>)

lemma normalize_message_ok: "json_ok v \<Longrightarrow> json_ok (fst (normalize_message v))"
  using normalize_tool_calls_ok[OF normalize_message_content_ok]
  by (cases v) (simp_all add: normalize_message_def case_prod_beta del: json_ok.simps(3))

lemma normalize_messages_ok: "json_ok (JObj d) \<Longrightarrow> json_ok (JObj (fst (normalize_messages d)))"
proof -
  assume ok: "json_ok (JObj d)"
  have "json_ok (JArr (map (\<lambda>r. fst (normalize_message r)) ms))" if "dict_get d ''messages'' = JArr ms" for ms
    using json_ok_get[OF ok, of "''messages''"] that by (auto simp: list_all_iff intro: normalize_message_ok)
  with ok show ?thesis
    by (auto simp: normalize_messages_def Let_def comp_def simp del: json_ok.simps(3) intro!: json_ok_set split: json.split)
qed

lemma normalize_value_ok: "json_ok a \<Longrightarrow> json_ok (fst (normalize_value le ne a))"
  by (auto simp: normalize_value_def split: json.split option.split)

lemma normalize_call_ok:
  assumes "json_ok v"
  shows "json_ok (fst (normalize_call le ne v))"
proof (cases "\<exists>c f. v = JObj c \<and> dict_get c ''function'' = JObj f")
  case True
  then obtain c f where c: "v = JObj c" "dict_get c ''function'' = JObj f" by blast
  obtain v1 r where v1: "normalize_value le ne (dict_get f ''arguments'') = (v1, r)" by fastforce
  have f: "json_ok (JObj f)" by (rule json_ok_getD[OF _ c(2)]) (use assms c in simp)
  have "json_ok v1" using normalize_value_ok[OF json_ok_get[OF f], of le ne "''arguments''"] v1 by simp
  then have "json_ok (JObj (dict_set ''function'' (JObj (dict_set ''arguments'' v1 f)) c))"
    using assms c(1) f by (intro json_ok_set) simp_all
  with assms c v1 show ?thesis
    by (simp add: normalize_call_def Let_def split: option.split del: json_ok.simps)
next
  case False
  with assms show ?thesis by (auto simp: normalize_call_def split: json.split)
qed

lemma normalize_call_message_ok: "json_ok v \<Longrightarrow> json_ok (fst (normalize_call_message le ne v))"
proof (cases v)
  case (JObj m)
  moreover assume ok: "json_ok v"
  moreover have "json_ok (JArr (map (\<lambda>c. fst (normalize_call le ne c)) cs))" if "dict_get m ''tool_calls'' = JArr cs" for cs
    using json_ok_get[of m "''tool_calls''"] ok JObj that by (auto simp: list_all_iff intro: normalize_call_ok)
  ultimately show ?thesis
    by (auto simp: normalize_call_message_def Let_def comp_def simp del: json_ok.simps(3) intro!: json_ok_set split: json.split)
qed (simp_all add: normalize_call_message_def)

lemma normalize_tool_arguments_ok: "json_ok (JObj d) \<Longrightarrow> json_ok (JObj (fst (normalize_tool_arguments le ne d)))"
proof -
  assume ok: "json_ok (JObj d)"
  have "json_ok (JArr (map (\<lambda>r. fst (normalize_call_message le ne r)) ms))" if "dict_get d ''messages'' = JArr ms" for ms
    using json_ok_get[OF ok, of "''messages''"] that by (auto simp: list_all_iff intro: normalize_call_message_ok)
  with ok show ?thesis
    by (auto simp: normalize_tool_arguments_def Let_def comp_def simp del: json_ok.simps(3) intro!: json_ok_set split: json.split)
qed

lemma normalize_inbound_ok:
  "json_ok (JObj d) \<Longrightarrow> json_ok (JObj (fst (normalize_inbound_payload le b ne d)))"
  using normalize_tool_arguments_ok[OF normalize_messages_ok, of d le ne] normalize_messages_ok[of d]
  by (auto simp: normalize_inbound_payload_def simp del: json_ok.simps(3) split: prod.split)

lemma apply_cap_ok: "json_ok (JObj d) \<Longrightarrow> json_ok (JObj (apply_cap cap d))"
proof -
  assume ok: "json_ok (JObj d)"
  have "json_ok (JObj (cap_field cap field d))" if "json_ok (JObj d)" for field d
    using that by (auto simp: cap_field_def json_ok_set simp del: json_ok.simps(3) split: option.split)
  with ok show ?thesis by (auto simp: apply_cap_def Let_def json_ok_set simp del: json_ok.simps(3))
qed

lemma apply_priority_ok: "json_ok (JObj d) \<Longrightarrow> json_ok (JObj (apply_priority prio d))"
  by (auto simp: apply_priority_def json_ok_set simp del: json_ok.simps(3) split: option.split)

text \<open>
  What a repair may do to one message: a message that is no object stays as it is; of an object
  every field but \<open>content\<close> and \<open>tool_calls\<close> stays, the content becomes text and stays when it was
  text, and the tool calls are no single object any more.
\<close>

definition repaired_message :: "json \<Rightarrow> json \<Rightarrow> bool" where
  "repaired_message m m' =
     (case m of
        JObj d \<Rightarrow>
          (case m' of
             JObj d' \<Rightarrow>
               (\<forall>k. k \<noteq> ''content'' \<longrightarrow> k \<noteq> ''tool_calls'' \<longrightarrow> dict_get d' k = dict_get d k) \<and>
               is_text (dict_get d' ''content'') \<and>
               (is_text (dict_get d ''content'') \<longrightarrow> dict_get d' ''content'' = dict_get d ''content'') \<and>
               (\<forall>call. dict_get d' ''tool_calls'' \<noteq> JObj call)
           | _ \<Rightarrow> False)
      | _ \<Rightarrow> m' = m)"

lemma normalize_message_content_get:
  "k \<noteq> ''content'' \<Longrightarrow> dict_get (fst (normalize_message_content m)) k = dict_get m k"
  "is_text (dict_get m ''content'') \<Longrightarrow> fst (normalize_message_content m) = m"
  by (auto simp: normalize_message_content_def Let_def split: json.split option.split)

lemma repaired_by_normalize: "repaired_message m (fst (normalize_message m))"
proof (cases m)
  case (JObj d)
  then show ?thesis
    using normalize_message_content_text[of d] normalize_tool_calls_get(2)[of "fst (normalize_message_content d)"]
    by (simp add: repaired_message_def normalize_message_fst normalize_tool_calls_get(1) normalize_message_content_get
        del: is_text.simps)
qed (simp_all add: repaired_message_def normalize_message_def)

lemma repaired_then_calls: "repaired_message m m' \<Longrightarrow> repaired_message m (fst (normalize_call_message le ne m'))"
  by (auto simp: repaired_message_def normalize_call_message_def Let_def split: json.splits)

lemma normalize_inbound_messages:
  assumes "dict_get p ''messages'' = JArr ms"
  obtains ms' where "dict_get (fst (normalize_inbound_payload le b ne p)) ''messages'' = JArr ms'"
    and "list_all2 repaired_message ms ms'"
proof
  let ?f = "\<lambda>m. fst (normalize_message m)" and ?g = "\<lambda>m. if b then fst (normalize_call_message le ne m) else m"
  show "dict_get (fst (normalize_inbound_payload le b ne p)) ''messages'' = JArr (map (?g \<circ> ?f) ms)"
    using tool_arguments_get[OF normalize_messages_get[OF assms], of le ne] normalize_messages_get[OF assms]
    by (simp add: normalize_inbound_payload_def case_prod_beta comp_def)
  show "list_all2 repaired_message ms (map (?g \<circ> ?f) ms)"
    by (simp add: list_all2_conv_all_nth repaired_by_normalize repaired_then_calls)
qed

lemma apply_cap_limits:
  assumes "field \<in> {''max_tokens'', ''max_completion_tokens''}"
  shows "0 < cap \<Longrightarrow> as_int (dict_get d field) = Some n \<Longrightarrow> as_int (dict_get (apply_cap cap d) field) = Some (min n cap)"
    and "\<not> 0 < cap \<Longrightarrow> dict_get (apply_cap cap d) field = dict_get d field"
    and "0 < cap \<Longrightarrow> dict_get d ''max_tokens'' = JNull \<Longrightarrow> dict_get d ''max_completion_tokens'' = JNull \<Longrightarrow>
           dict_get (apply_cap cap d) ''max_tokens'' = JInt cap"
  using assms by (auto simp: apply_cap_def Let_def cap_field_get min_def)

text \<open>
  C32. What is forwarded for a parsed body is the request that was asked for. It is a JSON object
  again, with distinct keys in every object, and its text reads back as itself. It names the model
  it was routed to. With a cap configured every integer limit becomes the lesser of itself and the
  cap, and the cap is filled in where there was no limit; without one the limits stay. The priority
  is the caller's, or else the route's. The messages are as many and in the same order, each
  repaired and otherwise as it came; every other field passes through. And with a context budget
  configured, the request and the answer it reserves fit it.
\<close>

theorem prepared_request_well_formed:
  assumes "json_ok (JObj payload)" and prepared: "prepare_payload literal_eval payload t s = Inr prepared"
  shows "json_ok (JObj prepared) \<and> json_loads (json_dumps (JObj prepared)) = Inr (JObj prepared) \<and>
    dict_get prepared ''model'' = JStr (target_model_id t) \<and>
    (\<forall>field \<in> {''max_tokens'', ''max_completion_tokens''}.
       (if 0 < max_tokens_cap s
        then \<forall>n. as_int (dict_get payload field) = Some n \<longrightarrow>
               as_int (dict_get prepared field) = Some (min n (max_tokens_cap s))
        else dict_get prepared field = dict_get payload field)) \<and>
    (0 < max_tokens_cap s \<longrightarrow> dict_get payload ''max_tokens'' = JNull \<longrightarrow>
       dict_get payload ''max_completion_tokens'' = JNull \<longrightarrow>
       dict_get prepared ''max_tokens'' = JInt (max_tokens_cap s)) \<and>
    dict_get prepared ''priority'' =
      (if dict_has payload ''priority'' then dict_get payload ''priority''
       else case target_priority t of Some p \<Rightarrow> JInt p | None \<Rightarrow> JNull) \<and>
    (\<forall>ms. dict_get payload ''messages'' = JArr ms \<longrightarrow>
       (\<exists>ms'. dict_get prepared ''messages'' = JArr ms' \<and> list_all2 repaired_message ms ms')) \<and>
    (\<forall>k. k \<notin> {''model'', ''messages'', ''max_tokens'', ''max_completion_tokens'', ''priority''} \<longrightarrow>
       dict_get prepared k = dict_get payload k) \<and>
    (context_budget s \<le> 0 \<or>
      estimate_payload_tokens prepared (chars_per_token s) + reserved_completion_tokens prepared \<le> context_budget s)"
proof -
  let ?named = "dict_set ''model'' (JStr (target_model_id t)) payload"
  let ?d = "fst (normalize_inbound_payload literal_eval (normalize_tool_arguments_setting s) True ?named)"
  have p: "prepared = apply_priority (target_priority t) (apply_cap (max_tokens_cap s) ?d)"
    and budget: "context_budget s \<le> 0 \<or>
      estimate_payload_tokens prepared (chars_per_token s) + reserved_completion_tokens prepared \<le> context_budget s"
    using prepared by (simp_all only: prepare_payload_Inr) blast+
  have "json_ok (JObj ?named)" using assms(1) by (rule json_ok_set) simp
  then have ok: "json_ok (JObj prepared)"
    unfolding p by (intro apply_priority_ok apply_cap_ok normalize_inbound_ok)
  have same: "dict_get ?d field = dict_get payload field" "dict_get prepared field = dict_get (apply_cap (max_tokens_cap s) ?d) field"
    if "field \<in> {''max_tokens'', ''max_completion_tokens''}" for field
    using that unfolding p by (auto simp: normalize_inbound_frame apply_priority_get)
  have limits: "if 0 < max_tokens_cap s
      then \<forall>n. as_int (dict_get payload field) = Some n \<longrightarrow> as_int (dict_get prepared field) = Some (min n (max_tokens_cap s))
      else dict_get prepared field = dict_get payload field" if "field \<in> {''max_tokens'', ''max_completion_tokens''}" for field
    using same[OF that] apply_cap_limits[OF that, of "max_tokens_cap s" ?d] by simp
  have filled: "0 < max_tokens_cap s \<longrightarrow> dict_get payload ''max_tokens'' = JNull \<longrightarrow>
       dict_get payload ''max_completion_tokens'' = JNull \<longrightarrow> dict_get prepared ''max_tokens'' = JInt (max_tokens_cap s)"
    using same apply_cap_limits(3)[of "''max_tokens''" "max_tokens_cap s" ?d] by simp
  have messages: "\<exists>ms'. dict_get prepared ''messages'' = JArr ms' \<and> list_all2 repaired_message ms ms'"
    if "dict_get payload ''messages'' = JArr ms" for ms
  proof -
    from that have "dict_get ?named ''messages'' = JArr ms" by simp
    then obtain ms' where "dict_get ?d ''messages'' = JArr ms'" "list_all2 repaired_message ms ms'"
      by (rule normalize_inbound_messages)
    then show ?thesis unfolding p by (simp add: apply_priority_get apply_cap_get)
  qed
  from ok codec.loads_dumps[OF ok] prepared_capped[OF prepared] prepared_passthrough[OF prepared] limits filled messages budget
  show ?thesis by (simp del: json_ok.simps)
qed

definition odd_body :: dict where
  "odd_body = [(''messages'', JArr [JObj [(''role'', JStr ''user''), (''content'', JObj [(''text'', JStr ''hi'')])],
     JObj [(''role'', JStr ''assistant''), (''tool_calls'', JObj [(''function'', JObj [(''arguments'', JObj [])])])]])]"

lemma prepared_request_well_formed_witness:
  "\<exists>prepared ms. prepare_payload (\<lambda>_. None) odd_body (make_target ''http://v'' ''m'' [] None (Some 3))
       (default_settings\<lparr>max_tokens_cap := 4096\<rparr>) = Inr prepared \<and>
     json_loads (json_dumps (JObj prepared)) = Inr (JObj prepared) \<and> dict_get prepared ''model'' = JStr ''m'' \<and>
     dict_get prepared ''max_tokens'' = JInt 4096 \<and> dict_get prepared ''priority'' = JInt 3 \<and>
     dict_get prepared ''messages'' = JArr ms \<and> length ms = 2"
proof -
  let ?t = "make_target ''http://v'' ''m'' [] None (Some 3)" and ?s = "default_settings\<lparr>max_tokens_cap := 4096\<rparr>"
  have "context_budget ?s = 0" by (simp add: context_budget_def default_settings_def)
  then obtain prepared where p: "prepare_payload (\<lambda>_. None) odd_body ?t ?s = Inr prepared"
    by (auto simp: prepare_payload_Inr)
  have ok: "json_ok (JObj odd_body)" by code_simp
  have bare: "dict_get odd_body ''max_tokens'' = JNull" "dict_get odd_body ''max_completion_tokens'' = JNull"
    "\<not> dict_has odd_body ''priority''" "\<exists>ms. dict_get odd_body ''messages'' = JArr ms \<and> length ms = 2"
    by (simp_all add: odd_body_def dict_get_def dict_has_def)
  from prepared_request_well_formed[OF ok p] p bare show ?thesis
    by (auto simp: make_target_def dest!: list_all2_lengthD simp del: json_ok.simps)
qed

end
