(* ===== verification/Requests.thy ===== *)
theory Requests
  imports Agent Payload
begin

text \<open>
  The other half of \<open>llm_assistant_agent/client.py\<close>: the request of a turn, its headers and its
  body, over the assembly of the reply in \<open>Client\<close>; and what the gateway's repairs
  (\<open>payload.py\<close>, \<open>toolcalls.py\<close>) make of the requests the agent sends. The HTTP client is a
  parameter that answers a request. The sampling parameters are the text of a float.
\<close>

section \<open>The request of a turn\<close>

record chat_client =
  chat_base_url :: string
  chat_api_key :: string
  chat_model :: string
  chat_timeout :: rat
  chat_temperature :: string
  chat_top_p :: string
  chat_max_tokens :: int

definition DEFAULT_TEMPERATURE :: string where "DEFAULT_TEMPERATURE = ''0.1''"
definition DEFAULT_TOP_P :: string where "DEFAULT_TOP_P = ''0.8''"
definition DEFAULT_MAX_TOKENS :: int where "DEFAULT_MAX_TOKENS = 8192"

definition new_client :: "string \<Rightarrow> string \<Rightarrow> string \<Rightarrow> rat \<Rightarrow> string \<Rightarrow> string \<Rightarrow> int \<Rightarrow> chat_client" where
  "new_client url key model timeout temperature top_p max_tokens =
     \<lparr>chat_base_url = strip_slashes_right url, chat_api_key = key, chat_model = model, chat_timeout = timeout,
      chat_temperature = temperature, chat_top_p = top_p, chat_max_tokens = max_tokens\<rparr>"

definition client_headers :: "chat_client \<Rightarrow> (string \<times> string) list" where
  "client_headers c =
     [(''content-type'', ''application/json'')]
     @ (if chat_api_key c \<noteq> [] then [(''authorization'', ''Bearer '' @ chat_api_key c)] else [])"

definition turn_body :: "chat_client \<Rightarrow> message list \<Rightarrow> json list \<Rightarrow> dict" where
  "turn_body c ms tools =
     [(''model'', JStr (chat_model c)), (''messages'', JArr (map JObj ms)), (''stream'', JBool True),
      (''temperature'', JFloat (chat_temperature c)), (''top_p'', JFloat (chat_top_p c))]
     @ (if chat_max_tokens c > 0 then [(''max_tokens'', JInt (chat_max_tokens c))] else [])
     @ (if tools \<noteq> [] then [(''tools'', JArr tools)] else [])"

record chat_request =
  sent_url :: string
  sent_body :: dict
  sent_headers :: "(string \<times> string) list"
  sent_timeout :: rat

definition turn_request :: "chat_client \<Rightarrow> message list \<Rightarrow> json list \<Rightarrow> chat_request" where
  "turn_request c ms tools =
     \<lparr>sent_url = chat_base_url c @ ''/chat/completions'', sent_body = turn_body c ms tools,
      sent_headers = client_headers c, sent_timeout = chat_timeout c\<rparr>"

text \<open>One turn: the request is sent, and the reply assembled.\<close>

definition turn :: "chat_client \<Rightarrow> (chat_request \<Rightarrow> 'w \<Rightarrow> exchange \<times> 'w) \<Rightarrow> message list \<Rightarrow> json list \<Rightarrow> 'w \<Rightarrow>
    (turn_result \<times> display list) \<times> 'w" where
  "turn c send ms tools w =
     (let (reply, w) = send (turn_request c ms tools) w in (run_turn (chat_base_url c) reply, w))"

section \<open>Invariants of asking\<close>

text \<open>
  What every step of the loop keeps, the loop keeps: compacting, a turn of the model, a
  question to the user, a tool call, and the messages that record them.
\<close>

locale asking =
  fixes W :: "'w world" and P :: "session \<Rightarrow> 'w \<Rightarrow> bool"
  assumes compacted: "P s w \<Longrightarrow> compact_if_needed edited s = Some s' \<Longrightarrow> P s' w"
    and turned: "P s w \<Longrightarrow> model_turn W (messages s) w = (r, w') \<Longrightarrow> P s w'"
    and said: "P s w \<Longrightarrow> model_turn W (messages s) w = (Turn t raw_calls, w') \<Longrightarrow> P (say (as_message t raw_calls) s) w'"
    and told: "P s w \<Longrightarrow> P (say (user_message x) s) w"
    and answered: "P s w \<Longrightarrow> P (say (tool_message i x) s) w"
    and asked: "P s w \<Longrightarrow> ask_user W request w = (a, w') \<Longrightarrow> P s w'"
    and invoked: "P s w \<Longrightarrow> invoke W name d w = Some (oc, w') \<Longrightarrow> P s w'"
    and counted: "P s w \<Longrightarrow> P (s\<lparr>failures := f\<rparr>) w"
    and instructed: "P s w \<Longrightarrow> P (s\<lparr>rules_sent := True\<rparr>) w"
begin

lemma repeated: "P s w \<Longrightarrow> repetition c oc s = (x, s1) \<Longrightarrow> P s1 w"
  by (auto simp: repetition_def Let_def counted split: if_splits)

lemma called: "run_call W c (s, w) = Some (go, s', w') \<Longrightarrow> P s w \<Longrightarrow> P s' w'"
  unfolding run_call_def record_result_def Let_def
  by (auto split: option.splits prod.splits intro!: answered intro: repeated dest: invoked)

lemma executed: "execute W cs (s, w) = Some (go, s', w') \<Longrightarrow> P s w \<Longrightarrow> P s' w'"
proof (induction cs arbitrary: s w)
  case (Cons c cs)
  have ran: "P s' w'"
    if "run_call W c (s, w1) = Some (b, s1, w2)" and "P s w1"
      and "(if b then execute W cs (s1, w2) else Some (False, s1, w2)) = Some (go, s', w')" for b s1 w1 w2
    using called[OF that(1,2)] that(3) Cons.IH by (cases b) auto
  show ?case
  proof (cases "approval_for W (call_name c) (call_arguments c) w")
    case None
    with Cons.prems ran show ?thesis by (auto split: option.splits)
  next
    case (Some request)
    obtain a w1 where a: "approve W s request w = (a, w1)" by fastforce
    then have w1: "P s w1" using Cons.prems(2) by (auto simp: approve_def split: if_splits dest: asked)
    from w1 have "P (record_result c x s) w1" for x by (simp add: record_result_def answered)
    with Cons.prems(1) Some a w1 ran Cons.IH show ?thesis by (cases a) (auto split: option.splits)
  qed
qed simp

lemma looped: "ask_loop W n (s, w) = Some (e, s', w') \<Longrightarrow> P s w \<Longrightarrow> P s' w'"
proof (induction n arbitrary: s w)
  case (Suc n)
  obtain s1 where s1: "compact_if_needed (edited_files W w) s = Some s1"
    using Suc.prems(1) by (auto split: option.splits)
  note ok1 = compacted[OF Suc.prems(2) s1]
  obtain r w1 where r: "model_turn W (messages s1) w = (r, w1)" by fastforce
  show ?case
  proof (cases r)
    case (Turn t raw_calls)
    have ok2: "P (say (as_message t raw_calls) s1) w1" using said[OF ok1] r Turn by simp
    show ?thesis
    proof (cases "tool_calls t = []")
      case True
      have "P (say (malformed_message ps) (say (as_message t raw_calls) s1)) w1" for ps
        unfolding malformed_message_def by (rule told[OF ok2])
      with True Suc.prems(1) Suc.IH s1 r Turn ok2 show ?thesis by (auto simp: Let_def split: if_splits)
    next
      case False
      with Suc.prems(1) s1 r Turn obtain go s3 w3 where
        x: "execute W (tool_calls t) (say (as_message t raw_calls) s1, w1) = Some (go, s3, w3)"
        "(if go then ask_loop W n (s3, w3) else Some (Gave_Up, s3, w3)) = Some (e, s', w')"
        by (auto split: option.splits bool.splits prod.splits)
      from executed[OF x(1) ok2] x(2) Suc.IH show ?thesis by (cases go) auto
    qed
  qed (use Suc.prems s1 r turned[OF ok1 r] in simp_all)
qed simp

lemma asked_through: "ask W x (s, w) = Some (e, s', w') \<Longrightarrow> P s w \<Longrightarrow> P s' w'"
  unfolding ask_def Let_def by (auto simp del: ask_loop.simps intro!: told instructed elim!: looped split: if_splits)

end


section \<open>Messages the gateway has nothing to repair in\<close>

definition plain_message :: "message \<Rightarrow> bool" where
  "plain_message m \<longleftrightarrow> json_ok (JObj m) \<and>
     (dict_get m ''content'' = JNull \<or> (\<exists>x. dict_get m ''content'' = JStr x)) \<and>
     (dict_get m ''tool_calls'' = JNull \<or>
      (\<exists>cs raw_calls. dict_get m ''tool_calls'' = JArr raw_calls \<and> list_all2 call_matches cs raw_calls))"

lemma plain_texts [simp]: "plain_message (user_message x)" "plain_message (tool_message i x)"
  by (auto simp: plain_message_def user_message_def tool_message_def dict_get_def)

lemma json_ok_raw: "call_matches c r \<Longrightarrow> json_ok r"
  by (auto simp: call_matches_def raw_call_def)

lemma plain_turn:
  assumes "list_all2 call_matches cs raw_calls"
  shows "plain_message (as_message t raw_calls)"
proof -
  have "list_all json_ok raw_calls" using assms by (induction rule: list_all2_induct) (auto intro: json_ok_raw)
  with assms show ?thesis
    by (auto simp: plain_message_def as_message_def dict_get_def simp del: json_dumps.simps)
qed

text \<open>White space is no JSON text.\<close>

lemma blank_is_no_json:
  assumes "py_strip x = []"
  shows "json_loads x \<noteq> Inr v"
proof -
  have "\<exists>e. parse_value (Suc n) y = Inl e" if "\<forall>c \<in> set y. py_isspace c" for n y
  proof (cases y)
    case (Cons c cs)
    then have "py_isspace c" using that by simp
    then have "c \<notin> set ''{[ntfNI-'' \<and> c \<noteq> CHR 0x22 \<and> \<not> is_digit c"
      by (auto simp: py_isspace_def code_point_def is_digit_def Let_def)
    with Cons show ?thesis by (auto simp: parse_num_def parse_unsigned_def)
  qed simp
  moreover have "\<forall>c \<in> set (skip_ws x). py_isspace c"
    using assms by (auto simp: py_strip_Nil_iff dest: set_dropWhileD)
  ultimately obtain e where "parse_value (2 * length x + 2) (skip_ws x) = Inl e"
    by (metis add_2_eq_Suc')
  then show ?thesis by (simp add: json_loads_def)
qed

lemma matched_unrepaired: "call_matches c r \<Longrightarrow> normalize_call le ne r = (r, [])"
  by (auto simp: call_matches_def raw_call_def normalize_call_def dict_get_def dict_has_def normalize_value_def is_json_def
      dest: blank_is_no_json)

lemma plain_unrepaired:
  assumes "plain_message m"
  shows "normalize_message (JObj m) = (JObj m, [])" and "normalize_call_message le ne (JObj m) = (JObj m, [])"
proof -
  show "normalize_message (JObj m) = (JObj m, [])"
    using assms by (auto simp: plain_message_def normalize_message_def normalize_message_content_def normalize_tool_calls_def)
  have "list_all2 call_matches cs raw_calls \<Longrightarrow> concat (map snd (map (normalize_call le ne) raw_calls)) = []" for cs raw_calls
    by (induction rule: list_all2_induct) (auto simp: matched_unrepaired)
  then show "normalize_call_message le ne (JObj m) = (JObj m, [])"
    using assms by (auto simp: plain_message_def normalize_call_message_def)
qed

lemma plain_transcript_unrepaired:
  assumes "dict_get d ''messages'' = JArr (map JObj ms)" and "\<forall>m \<in> set ms. plain_message m"
  shows "normalize_inbound_payload le b ne d = (d, [])"
proof -
  have "concat (map snd (map normalize_message (map JObj ms))) = []" "\<not> list_ex (\<lambda>r. snd r \<noteq> []) (map normalize_message (map JObj ms))"
    "concat (map snd (map (normalize_call_message le ne) (map JObj ms))) = []"
    using assms(2) by (auto simp: plain_unrepaired list_ex_iff)
  then have "normalize_messages d = (d, [])" "normalize_tool_arguments le ne d = (d, [])"
    using assms(1) by (simp_all add: normalize_messages_def normalize_tool_arguments_def Let_def del: map_map)
  then show ?thesis by (simp add: normalize_inbound_payload_def)
qed

lemma plain_prepared:
  assumes "prepare_payload le d t cfg = Inr p" and "dict_get d ''messages'' = JArr (map JObj ms)"
    and "\<forall>m \<in> set ms. plain_message m" and "k \<in> {''messages'', ''tools'', ''stream''}"
  shows "dict_get p k = dict_get d k"
proof -
  let ?named = "dict_set ''model'' (JStr (target_model_id t)) d"
  have "normalize_inbound_payload le (normalize_tool_arguments_setting cfg) True ?named = (?named, [])"
    using assms(2,3) by (intro plain_transcript_unrepaired) simp_all
  then have "p = apply_priority (target_priority t) (apply_cap (max_tokens_cap cfg) ?named)"
    using assms(1) by (auto simp: prepare_payload_def Let_def split: sum.splits)
  with assms(4) show ?thesis by (auto simp: apply_priority_get apply_cap_get)
qed

section \<open>Every request of a session\<close>

text \<open>The loop over a client, with the requests it sends recorded.\<close>

definition recorded_world :: "'w world \<Rightarrow> chat_client \<Rightarrow> json list \<Rightarrow> (chat_request \<Rightarrow> 'w \<Rightarrow> exchange \<times> 'w) \<Rightarrow>
    ('w \<times> chat_request list) world" where
  "recorded_world W c tools send =
     \<lparr>approval_for = (\<lambda>name d w. approval_for W name d (fst w)),
      ask_user = (\<lambda>request w. let (a, w') = ask_user W request (fst w) in (a, (w', snd w))),
      invoke = (\<lambda>name d w. map_option (\<lambda>(oc, w'). (oc, (w', snd w))) (invoke W name d (fst w))),
      model_turn = (\<lambda>ms w. let ((r, shown), w') = turn c send ms tools (fst w)
                           in (r, (w', snd w @ [turn_request c ms tools]))),
      edited_files = (\<lambda>w. edited_files W (fst w))\<rparr>"

definition plainly_sent :: "chat_client \<Rightarrow> json list \<Rightarrow> session \<Rightarrow> 'w \<times> chat_request list \<Rightarrow> bool" where
  "plainly_sent c tools s w \<longleftrightarrow> list_all plain_message (messages s) \<and>
     (\<forall>req \<in> set (snd w). \<exists>ms. req = turn_request c ms tools \<and> list_all plain_message ms)"

lemma set_build_tail: "build_tail edited ms xs = Some ys \<Longrightarrow> set ys \<subseteq> set xs"
  by (induction xs arbitrary: ys) (auto split: option.splits if_splits)

lemma compact_subset:
  assumes "compact_if_needed edited s = Some s'"
  obtains summary where "set (messages s') \<subseteq> insert (user_message summary) (set (messages s))"
proof -
  let ?ms = "messages s"
  show thesis
  proof (cases "s' = s")
    case True
    then show thesis using that[of "[]"] by auto
  next
    case False
    with assms obtain ys files where ys: "build_tail edited ?ms (drop (length ?ms - 6) ?ms) = Some ys"
      "messages s' = take 1 ?ms @ [user_message (compaction_note
         (length ?ms - 1 - length (dropWhile (\<lambda>m. role m = JStr ''tool'') ys)) files)]
         @ dropWhile (\<lambda>m. role m = JStr ''tool'') ys"
      by (auto simp: compact_if_needed_def Let_def split: option.splits if_splits)
    from set_build_tail[OF ys(1)] have "set ys \<subseteq> set ?ms" by (auto dest: in_set_dropD)
    with ys(2) show thesis by (intro that) (auto dest: in_set_takeD set_dropWhileD)
  qed
qed

interpretation recorded: asking "recorded_world W c tools send" "plainly_sent c tools" for W :: "'w world" and c tools send
proof
  fix s w edited s'
  assume "plainly_sent c tools s w" and "compact_if_needed edited s = Some s'"
  then show "plainly_sent c tools s' w"
    by (elim compact_subset) (auto simp: plainly_sent_def list_all_iff)
next
  fix s w r w'
  assume "plainly_sent c tools s w" "model_turn (recorded_world W c tools send) (messages s) w = (r, w')"
  then show "plainly_sent c tools s w'"
    by (auto simp: plainly_sent_def recorded_world_def split: prod.splits)
next
  fix s w t raw_calls w'
  assume *: "plainly_sent c tools s w"
    "model_turn (recorded_world W c tools send) (messages s) w = (Turn t raw_calls, w')"
  then have "list_all2 call_matches (tool_calls t) raw_calls"
    by (auto simp: recorded_world_def turn_def split: prod.splits dest: run_turn_matches)
  with * show "plainly_sent c tools (say (as_message t raw_calls) s) w'"
    by (auto simp: plainly_sent_def recorded_world_def plain_turn split: prod.splits)
qed (auto simp: plainly_sent_def recorded_world_def split: prod.splits)

text \<open>
  C3. What the agent sends, the gateway need not repair: in every request of every turn a session
  asks for, whatever the model and the tools answered before and whatever compaction dropped,
  the messages and tool calls are as the gateway wants them. Its repairs change nothing, and
  the model server gets the agent's messages and tools as they were sent.
\<close>

theorem agent_requests_pass_unrepaired:
  assumes "ask (recorded_world W c tools send) x (s, (w, [])) = Some (e, s', (w', sent))"
    and "\<forall>m \<in> set (messages s). plain_message m"
    and "req \<in> set sent"
  shows "normalize_inbound_payload le b ne (sent_body req) = (sent_body req, []) \<and>
    (\<forall>t config p. prepare_payload le (sent_body req) t config = Inr p \<longrightarrow>
       dict_get p ''messages'' = dict_get (sent_body req) ''messages'' \<and>
       dict_get p ''tools'' = dict_get (sent_body req) ''tools'' \<and> dict_get p ''stream'' = JBool True)"
proof -
  have "plainly_sent c tools s (w, [])" using assms(2) by (simp add: plainly_sent_def list_all_iff)
  with assms(1) have "plainly_sent c tools s' (w', sent)" by (rule recorded.asked_through)
  with assms(3) obtain ms where req: "req = turn_request c ms tools" "list_all plain_message ms"
    by (auto simp: plainly_sent_def)
  let ?d = "sent_body req"
  have ms: "dict_get ?d ''messages'' = JArr (map JObj ms)" "dict_get ?d ''stream'' = JBool True"
    using req(1) by (simp_all add: turn_request_def turn_body_def dict_get_def)
  have plain: "\<forall>m \<in> set ms. plain_message m" using req(2) by (simp add: list_all_iff)
  from plain_transcript_unrepaired[OF ms(1) plain] plain_prepared[OF _ ms(1) plain] ms(2)
  show ?thesis by simp
qed


definition sample_client :: chat_client where
  "sample_client = new_client ''http://gateway/v1/'' ''key'' ''coder'' 900 DEFAULT_TEMPERATURE DEFAULT_TOP_P DEFAULT_MAX_TOKENS"

theorem agent_requests_pass_unrepaired_witness:
  "\<exists>s' w' sent. ask (recorded_world sample_world sample_client [] (\<lambda>req n. sample_network [] n))
       ''Which files are there?'' (sample_session, (0, [])) = Some (Answered, s', (w', sent)) \<and>
     length sent = 2 \<and>
     (\<forall>req \<in> set sent. normalize_inbound_payload (\<lambda>t. None) True True (sent_body req) = (sent_body req, []))"
proof -
  let ?r = "ask (recorded_world sample_world sample_client [] (\<lambda>req n. sample_network [] n))
       ''Which files are there?'' (sample_session, (0, []))"
  have "case ?r of Some (Answered, s', (w', sent)) \<Rightarrow> length sent = 2 | _ \<Rightarrow> False" by code_simp
  then obtain s' w' sent where r: "?r = Some (Answered, s', (w', sent))" "length sent = 2"
    by (auto split: option.splits prod.splits ending.splits)
  have "\<forall>m \<in> set (messages sample_session). plain_message m"
    by (simp add: sample_session_def open_session_def)
  note agent_requests_pass_unrepaired[OF r(1) this, THEN conjunct1]
  with r show ?thesis by blast
qed

end
