(* ===== verification/Circuit_Breaker.thy ===== *)
theory Circuit_Breaker
  imports Prelude "HOL-Library.AList"
begin

text \<open>
  \<open>llm_assistant_api/proxy.py\<close>, the circuit breaker: one record per upstream, kept in
  a registry that maps the upstream's base URL to it. \<open>time.monotonic()\<close> is the
  argument \<open>now\<close>. A breaker obtained from the registry is the object the registry
  holds, so an operation on it is an update of the registry at its URL.
\<close>

section \<open>One breaker\<close>

datatype circuit_state = Closed | Open | Half_Open

definition state_name :: "circuit_state \<Rightarrow> string" where
  "state_name s = (case s of Closed \<Rightarrow> ''closed'' | Open \<Rightarrow> ''open'' | Half_Open \<Rightarrow> ''half-open'')"

record breaker =
  failure_window :: rat
  failure_threshold :: nat
  open_timeout :: rat
  failures :: "rat list"
  circuit :: circuit_state
  opened_at :: "rat option"

definition CIRCUIT_FAILURE_WINDOW :: rat where "CIRCUIT_FAILURE_WINDOW = 60"
definition CIRCUIT_FAILURE_THRESHOLD :: nat where "CIRCUIT_FAILURE_THRESHOLD = 5"
definition CIRCUIT_OPEN_TIMEOUT :: rat where "CIRCUIT_OPEN_TIMEOUT = 30"

definition new_breaker :: "rat \<Rightarrow> nat \<Rightarrow> rat \<Rightarrow> breaker" where
  "new_breaker window threshold timeout =
     \<lparr>failure_window = window, failure_threshold = threshold, open_timeout = timeout,
      failures = [], circuit = Closed, opened_at = None\<rparr>"

definition default_breaker :: breaker where
  "default_breaker =
     new_breaker CIRCUIT_FAILURE_WINDOW CIRCUIT_FAILURE_THRESHOLD CIRCUIT_OPEN_TIMEOUT"

definition record_success :: "breaker \<Rightarrow> breaker" where
  "record_success b = b\<lparr>failures := [], circuit := Closed, opened_at := None\<rparr>"

definition record_failure :: "rat \<Rightarrow> breaker \<Rightarrow> breaker" where
  "record_failure now b =
     (let cutoff = now - failure_window b;
          fs = filter (\<lambda>t. t > cutoff) (failures b) @ [now];
          b1 = b\<lparr>failures := fs\<rparr>
      in if length fs \<ge> failure_threshold b \<and> circuit b = Closed
         then b1\<lparr>circuit := Open, opened_at := Some now\<rparr>
         else b1)"

definition can_proceed :: "rat \<Rightarrow> breaker \<Rightarrow> (bool \<times> string) \<times> breaker" where
  "can_proceed now b =
     (case circuit b of
        Closed \<Rightarrow> ((True, []), b)
      | Open \<Rightarrow>
          (case opened_at b of
             None \<Rightarrow> ((False, ''circuit breaker open''), b)
           | Some opened \<Rightarrow>
               (let elapsed = now - opened in
                if elapsed \<ge> open_timeout b
                then ((True, ''circuit breaker half-open (test request)''), b\<lparr>circuit := Half_Open\<rparr>)
                else ((False, ''circuit breaker open ('' @ str_int \<lfloor>open_timeout b - elapsed\<rfloor>
                              @ ''s remaining)''), b)))
      | Half_Open \<Rightarrow> ((True, ''circuit breaker half-open''), b))"

definition transition_to_open :: "rat \<Rightarrow> breaker \<Rightarrow> breaker" where
  "transition_to_open now b =
     (if circuit b = Half_Open then b\<lparr>circuit := Open, opened_at := Some now\<rparr> else b)"

definition reset_breaker :: "breaker \<Rightarrow> breaker" where
  "reset_breaker b = b\<lparr>failures := [], circuit := Closed, opened_at := None\<rparr>"

definition failure_count :: "rat \<Rightarrow> breaker \<Rightarrow> nat" where
  "failure_count now b = length (filter (\<lambda>t. t > now - failure_window b) (failures b))"

section \<open>The registry\<close>

text \<open>A dictionary by base URL, in the order in which the upstreams were first used.\<close>

type_synonym registry = "(string \<times> breaker) list"

definition get_circuit_breaker :: "string \<Rightarrow> registry \<Rightarrow> breaker \<times> registry" where
  "get_circuit_breaker base_url reg =
     (case map_of reg base_url of
        Some b \<Rightarrow> (b, reg)
      | None \<Rightarrow> (default_breaker, AList.update base_url default_breaker reg))"

definition reset_circuit_breaker :: "string option \<Rightarrow> registry \<Rightarrow> registry" where
  "reset_circuit_breaker base_url reg =
     (if base_url \<noteq> None \<and> base_url \<noteq> Some []
      then (case map_of reg (the base_url) of
              Some b \<Rightarrow> AList.update (the base_url) (reset_breaker b) reg
            | None \<Rightarrow> reg)
      else map (\<lambda>(url, b). (url, reset_breaker b)) reg)"

section \<open>What happens to a breaker\<close>

text \<open>
  The calls the gateway makes on a breaker (\<open>transition_to_open\<close> is not among them: no
  caller exists), with the answer of \<open>can_proceed\<close>.
\<close>

datatype breaker_event = Ask rat | Failed rat | Succeeded rat | Reset rat

fun event_time :: "breaker_event \<Rightarrow> rat" where
  "event_time (Ask t) = t"
| "event_time (Failed t) = t"
| "event_time (Succeeded t) = t"
| "event_time (Reset t) = t"

fun on_event :: "breaker_event \<Rightarrow> breaker \<Rightarrow> bool \<times> breaker" where
  "on_event (Ask t) b = (let ((ok, reason), b') = can_proceed t b in (ok, b'))"
| "on_event (Failed t) b = (True, record_failure t b)"
| "on_event (Succeeded t) b = (True, record_success b)"
| "on_event (Reset t) b = (True, reset_breaker b)"

fun closes :: "breaker_event \<Rightarrow> bool" where
  "closes (Succeeded t) = True"
| "closes (Reset t) = True"
| "closes _ = False"

fun failure_at :: "breaker_event \<Rightarrow> rat option" where
  "failure_at (Failed t) = Some t"
| "failure_at _ = None"

text \<open>The failures since the circuit was last closed by a success or a reset, oldest first.\<close>

definition failure_log :: "breaker_event list \<Rightarrow> rat list" where
  "failure_log es = fold (\<lambda>e h. if closes e then [] else
      case failure_at e of Some t \<Rightarrow> h @ [t] | None \<Rightarrow> h) es []"

lemma failure_log_simps [simp]:
  "failure_log [] = []"
  "failure_log (es @ [e]) = (if closes e then [] else
      case failure_at e of Some t \<Rightarrow> failure_log es @ [t] | None \<Rightarrow> failure_log es)"
  by (auto simp: failure_log_def split: option.split)

text \<open>
  The automaton of the circuit: which state may follow which. A half-open circuit has no
  way back to open.
\<close>

inductive circuit_step :: "circuit_state \<Rightarrow> breaker_event \<Rightarrow> circuit_state \<Rightarrow> bool" where
  closing: "closes e \<Longrightarrow> circuit_step c e Closed"
| asking: "c \<noteq> Open \<Longrightarrow> circuit_step c (Ask t) c"
| refused: "circuit_step Open (Ask t) Open"
| test: "circuit_step Open (Ask t) Half_Open"
| counted: "circuit_step c (Failed t) c"
| tripped: "circuit_step Closed (Failed t) Open"

inductive_cases circuit_step_from_half_open: "circuit_step Half_Open e c"
inductive_simps circuit_step_failed: "circuit_step c (Failed t) c'"

lemmas breaker_defs = record_success_def record_failure_def can_proceed_def reset_breaker_def
  new_breaker_def

lemma on_event_params [simp]:
  "failure_window (snd (on_event e b)) = failure_window b"
  "failure_threshold (snd (on_event e b)) = failure_threshold b"
  "open_timeout (snd (on_event e b)) = open_timeout b"
  by (cases e; simp add: breaker_defs Let_def split: circuit_state.split option.split)+

lemma after_params [simp]:
  "failure_window (after on_event es b) = failure_window b"
  "failure_threshold (after on_event es b) = failure_threshold b"
  "open_timeout (after on_event es b) = open_timeout b"
  by (induction es arbitrary: b) simp_all

lemma on_event_circuit_step: "circuit_step (circuit b) e (circuit (snd (on_event e b)))"
  by (cases e; cases "circuit b")
    (auto simp: breaker_defs Let_def intro: circuit_step.intros split: option.split)

section \<open>When the circuit trips\<close>

text \<open>
  The failures a breaker keeps are, up to ones its window has passed, the failures since
  it was last closed; a closed one keeps fewer than its threshold.
\<close>

definition keeps_log :: "breaker_event list \<Rightarrow> rat \<Rightarrow> breaker \<Rightarrow> bool" where
  "keeps_log es now b \<longleftrightarrow>
     (\<forall>later \<ge> now. since (later - failure_window b) (failures b) =
        since (later - failure_window b) (failure_log es)) \<and>
     (circuit b = Closed \<longrightarrow> length (failures b) < failure_threshold b) \<and>
     (circuit b = Open \<longrightarrow> opened_at b \<noteq> None)"

lemma keeps_log_step:
  assumes "keeps_log es now b" and "now \<le> event_time e" and "0 < failure_threshold b"
  shows "keeps_log (es @ [e]) (event_time e) (snd (on_event e b))"
proof (cases e)
  case (Failed t)
  have "since (later - failure_window b) (since (t - failure_window b) (failures b)) =
      since (later - failure_window b) (failure_log es)" if "t \<le> later" for later
    using assms(1,2) that Failed by (simp add: keeps_log_def since_twice)
  then show ?thesis
    using assms Failed
    by (auto simp: keeps_log_def record_failure_def Let_def simp flip: since_def)
next
  case (Ask t)
  with assms show ?thesis
    by (auto simp: keeps_log_def can_proceed_def Let_def split: circuit_state.split option.split)
qed (use assms in \<open>auto simp: keeps_log_def breaker_defs since_def\<close>)

lemma keeps_log_after:
  "sorted (map event_time es) \<Longrightarrow> 0 < threshold \<Longrightarrow>
     keeps_log es (if es = [] then t else event_time (last es)) (after on_event es (new_breaker window threshold timeout))"
proof (induction es rule: rev_induct)
  case Nil
  then show ?case by (simp add: keeps_log_def new_breaker_def since_def)
next
  case (snoc e es)
  let ?b = "after on_event es (new_breaker window threshold timeout)"
  let ?t = "if es = [] then event_time e else event_time (last es)"
  have "keeps_log es ?t ?b"
  proof (cases "es = []")
    case True
    with snoc.prems show ?thesis by (simp add: keeps_log_def new_breaker_def since_def)
  next
    case False
    with snoc show ?thesis by (simp add: sorted_append)
  qed
  moreover have "?t \<le> event_time e"
    using snoc.prems(1) by (cases es rule: rev_cases) (auto simp: sorted_append)
  ultimately have "keeps_log (es @ [e]) (event_time e) (snd (on_event e ?b))"
    using snoc.prems(2) by (intro keeps_log_step) (simp_all add: new_breaker_def)
  then show ?case by (simp add: after_append)
qed

text \<open>
  C12. A closed circuit trips on a failure exactly when, counting that failure, at least
  the threshold of them happened in the window that ends now, since the circuit was last
  closed by a success or a reset.
\<close>

theorem breaker_trips_exactly:
  assumes "sorted (map event_time (es @ [Failed now]))" and "0 < threshold"
    and "circuit (after on_event es (new_breaker window threshold timeout)) = Closed"
  shows "circuit (after on_event (es @ [Failed now]) (new_breaker window threshold timeout)) = Open \<longleftrightarrow>
     threshold \<le> length (since (now - window) (failure_log es)) + 1"
proof -
  let ?b = "after on_event es (new_breaker window threshold timeout)"
  have "keeps_log es (if es = [] then now else event_time (last es)) ?b"
    using assms(1,2) by (intro keeps_log_after) (simp_all add: sorted_append)
  moreover have "(if es = [] then now else event_time (last es)) \<le> now"
    using assms(1) by (cases es rule: rev_cases) (auto simp: sorted_append)
  moreover have "failure_window ?b = window" "failure_threshold ?b = threshold"
    by (simp_all add: new_breaker_def)
  ultimately have "since (now - window) (failures ?b) = since (now - window) (failure_log es)"
    by (simp add: keeps_log_def)
  with assms(3) show ?thesis
    by (simp add: after_append record_failure_def Let_def new_breaker_def flip: since_def)
qed

theorem breaker_trips_exactly_witness:
  "circuit (after on_event ([Failed 0, Failed 10, Failed 20, Failed 30] @ [Failed 59])
     (new_breaker 60 5 30)) = Open"
proof -
  have "circuit (after on_event [Failed 0, Failed 10, Failed 20, Failed 30] (new_breaker 60 5 30)) = Closed"
    by code_simp
  moreover have "5 \<le> length (since (59 - 60) (failure_log [Failed 0, Failed 10, Failed 20, Failed 30])) + 1"
    by code_simp
  ultimately show ?thesis by (subst breaker_trips_exactly) simp_all
qed

section \<open>Failing fast, testing, closing\<close>

lemma ask_while_open:
  assumes "circuit b = Open" and "opened_at b = Some t0" and "\<not> closes e"
    and "\<And>t. e = Ask t \<Longrightarrow> t < t0 + open_timeout b"
  shows "circuit (snd (on_event e b)) = Open \<and> opened_at (snd (on_event e b)) = Some t0 \<and>
         (\<forall>t. e = Ask t \<longrightarrow> \<not> fst (on_event e b))"
  using assms by (cases e) (auto simp: can_proceed_def record_failure_def Let_def algebra_simps)

text \<open>
  Once open, and until somebody closes it, a circuit turns every request away for the
  whole of its timeout, however many requests and late failures arrive meanwhile.
\<close>

theorem open_circuit_fails_fast:
  assumes "circuit b = Open" and "opened_at b = Some t0" and "list_all (\<lambda>e. \<not> closes e) es"
    and "\<And>t. Ask t \<in> set es \<Longrightarrow> t < t0 + open_timeout b"
  shows "(\<forall>t ok. (Ask t, ok) \<in> set (trace on_event es b) \<longrightarrow> \<not> ok) \<and>
         circuit (after on_event es b) = Open"
  using assms
proof (induction es arbitrary: b)
  case (Cons e es)
  note step = ask_while_open[OF Cons.prems(1,2), of e]
  from Cons.prems step Cons.IH[of "snd (on_event e b)"] show ?case by auto
qed simp

theorem open_circuit_fails_fast_witness:
  "circuit (after on_event [Ask 45, Failed 50, Ask 59]
     (after on_event [Failed 26, Failed 27, Failed 28, Failed 29, Failed 30] default_breaker)) = Open"
proof (rule conjunct2[OF open_circuit_fails_fast])
  let ?b = "after on_event [Failed 26, Failed 27, Failed 28, Failed 29, Failed 30] default_breaker"
  show "circuit ?b = Open" by code_simp
  show "opened_at ?b = Some 30" by code_simp
  have "open_timeout ?b = 30" by code_simp
  then show "t < 30 + open_timeout ?b" if "Ask t \<in> set [Ask 45, Failed 50, Ask 59]" for t
    using that by auto
qed simp

text \<open>
  An open circuit whose timeout has passed lets the next request through, and its
  success closes the circuit with no failure left on record.
\<close>

theorem open_circuit_recovers:
  assumes "circuit b = Open" and "opened_at b = Some t0" and "t0 + open_timeout b \<le> t"
  shows "fst (on_event (Ask t) b) \<and> circuit (snd (on_event (Ask t) b)) = Half_Open \<and>
         circuit (after on_event [Ask t, Succeeded t'] b) = Closed \<and>
         failure_count t'' (after on_event [Ask t, Succeeded t'] b) = 0"
  using assms by (auto simp: can_proceed_def Let_def algebra_simps record_success_def failure_count_def)

theorem open_circuit_recovers_witness:
  "fst (on_event (Ask 60)
     (after on_event [Failed 26, Failed 27, Failed 28, Failed 29, Failed 30] default_breaker))"
proof -
  let ?b = "after on_event [Failed 26, Failed 27, Failed 28, Failed 29, Failed 30] default_breaker"
  have "circuit ?b = Open" "opened_at ?b = Some 30" "30 + open_timeout ?b \<le> 60" by code_simp+
  from open_circuit_recovers[OF this] show ?thesis by blast
qed

text \<open>
  A half-open circuit is not a single test: until a success or a reset it lets every
  request through and no number of failures opens it again, since a failure
  trips a closed circuit only and nothing calls \<open>transition_to_open\<close>.
\<close>

theorem half_open_never_reopens:
  assumes "circuit b = Half_Open" and "list_all (\<lambda>e. \<not> closes e) es"
  shows "circuit (after on_event es b) = Half_Open \<and> list_all snd (trace on_event es b)"
  using assms
proof (induction es arbitrary: b)
  case (Cons e es)
  have "circuit (snd (on_event e b)) = Half_Open"
    using Cons.prems on_event_circuit_step[of b e] by (auto elim: circuit_step_from_half_open)
  moreover have "fst (on_event e b)"
    using Cons.prems by (cases e) (simp_all add: can_proceed_def)
  ultimately show ?case using Cons by simp
qed simp

theorem half_open_never_reopens_witness:
  "list_all snd (trace on_event [Failed 61, Failed 62, Failed 63, Failed 64, Failed 65, Failed 66, Ask 66]
     (after on_event [Failed 26, Failed 27, Failed 28, Failed 29, Failed 30, Ask 60] default_breaker))"
proof -
  let ?b = "after on_event [Failed 26, Failed 27, Failed 28, Failed 29, Failed 30, Ask 60] default_breaker"
  have "circuit ?b = Half_Open" by code_simp
  then show ?thesis by (rule conjunct2[OF half_open_never_reopens]) simp
qed

section \<open>The ideal circuit\<close>

text \<open>
  What the docstring of the class promises, without lists to prune: a shut circuit remembers
  every failure since it was last closed, a tripped one when it tripped.
\<close>

datatype ideal = Shut "rat list" | Tripped rat | Testing

fun ideal_event :: "rat \<Rightarrow> nat \<Rightarrow> rat \<Rightarrow> breaker_event \<Rightarrow> ideal \<Rightarrow> bool \<times> ideal" where
  "ideal_event window threshold timeout (Ask t) (Shut fs) = (True, Shut fs)"
| "ideal_event window threshold timeout (Ask t) (Tripped t0) =
     (if timeout \<le> t - t0 then (True, Testing) else (False, Tripped t0))"
| "ideal_event window threshold timeout (Ask t) Testing = (True, Testing)"
| "ideal_event window threshold timeout (Failed t) (Shut fs) =
     (True, if threshold \<le> length (since (t - window) fs) + 1 then Tripped t else Shut (fs @ [t]))"
| "ideal_event window threshold timeout (Failed t) s = (True, s)"
| "ideal_event window threshold timeout (Succeeded t) s = (True, Shut [])"
| "ideal_event window threshold timeout (Reset t) s = (True, Shut [])"

definition implements :: "rat \<Rightarrow> breaker \<Rightarrow> ideal \<Rightarrow> bool" where
  "implements now b s \<longleftrightarrow>
     (case s of
        Shut fs \<Rightarrow> circuit b = Closed \<and>
          (\<forall>later \<ge> now. since (later - failure_window b) (failures b) = since (later - failure_window b) fs)
      | Tripped t0 \<Rightarrow> circuit b = Open \<and> opened_at b = Some t0
      | Testing \<Rightarrow> circuit b = Half_Open)"

lemma implements_failed:
  assumes "implements now b s" and "now \<le> t"
  shows "implements t (record_failure t b)
    (snd (ideal_event (failure_window b) (failure_threshold b) (open_timeout b) (Failed t) s))"
proof (cases s)
  case (Shut fs)
  have "since (later - failure_window b) (since (t - failure_window b) (failures b)) =
      since (later - failure_window b) fs" if "t \<le> later" for later
    using assms that Shut by (simp add: implements_def since_twice)
  moreover have "since (t - failure_window b) (failures b) = since (t - failure_window b) fs"
    using assms Shut by (simp add: implements_def)
  ultimately show ?thesis
    using assms Shut by (auto simp: implements_def record_failure_def Let_def simp flip: since_def)
qed (use assms in \<open>auto simp: implements_def record_failure_def Let_def\<close>)

lemma implements_step:
  assumes "implements now b s" and "now \<le> event_time e"
  defines "ideal \<equiv> ideal_event (failure_window b) (failure_threshold b) (open_timeout b) e s"
  shows "fst (on_event e b) = fst ideal \<and> implements (event_time e) (snd (on_event e b)) (snd ideal)"
proof (cases e)
  case (Failed t)
  with implements_failed[OF assms(1), of t] assms(2) show ?thesis
    by (cases s) (simp_all add: ideal_def)
next
  case (Ask t)
  with assms show ?thesis
    by (cases s) (auto simp: implements_def can_proceed_def Let_def)
qed (use assms in \<open>auto simp: implements_def breaker_defs since_def\<close>)

lemma implements_trace:
  assumes "implements now b s" and "sorted (now # map event_time es)"
  shows "trace on_event es b = trace (ideal_event (failure_window b) (failure_threshold b) (open_timeout b)) es s"
  using assms
proof (induction es arbitrary: now b s)
  case (Cons e es)
  note step = implements_step[OF Cons.prems(1), of e]
  with Cons.prems Cons.IH[of "event_time e" "snd (on_event e b)"] show ?case by simp
qed simp



section \<open>One breaker per upstream\<close>

definition on_upstream :: "string \<times> breaker_event \<Rightarrow> registry \<Rightarrow> bool \<times> registry" where
  "on_upstream ev reg =
     (let (b, reg1) = get_circuit_breaker (fst ev) reg;
          (ok, b1) = on_event (snd ev) b
      in (ok, AList.update (fst ev) b1 reg1))"

lemma get_after_on_upstream:
  "fst (get_circuit_breaker url (snd (on_upstream (u, e) reg))) =
     (if u = url then snd (on_event e (fst (get_circuit_breaker url reg)))
      else fst (get_circuit_breaker url reg))"
  by (auto simp: on_upstream_def get_circuit_breaker_def update_conv' split: option.split prod.split)

text \<open>
  Upstreams do not share a circuit: after any interleaving of events the breaker of an
  upstream is what its own events alone would have made of it.
\<close>

theorem registry_isolates:
  "fst (get_circuit_breaker url (after on_upstream evs reg)) =
     after on_event (map snd (filter (\<lambda>(u, e). u = url) evs)) (fst (get_circuit_breaker url reg))"
proof (induction evs arbitrary: reg)
  case (Cons ev evs)
  then show ?case by (cases ev) (simp add: get_after_on_upstream)
qed simp

end
