(* ===== verification/Upstream.thy ===== *)
theory Upstream
  imports Payload Circuit_Breaker
begin

text \<open>
  \<open>llm_assistant_api/proxy.py\<close>, the exchange with the model server: the retry loop
  and the two ways to forward a request, over the circuit breaker of the upstream; and
  \<open>routes/openai_compat.py\<close> with the exception handlers of \<open>main.py\<close>, which turn
  every outcome into a reply. What the network does is a parameter: the outcome of the
  n-th call, the random numbers drawn, and the clock readings.
\<close>

section \<open>Outcomes of a call\<close>

record response =
  status_code :: nat
  response_headers :: "(string \<times> string) list"
  response_content :: string

text \<open>
  The exceptions by the base class the handlers tell apart: the last two are any other
  \<open>httpx.HTTPError\<close> and anything else.
\<close>

datatype exn =
    TimeoutException string
  | ConnectError string
  | RemoteProtocolError string
  | HTTPError string
  | Exception string

fun exn_text :: "exn \<Rightarrow> string" where
  "exn_text (TimeoutException m) = m"
| "exn_text (ConnectError m) = m"
| "exn_text (RemoteProtocolError m) = m"
| "exn_text (HTTPError m) = m"
| "exn_text (Exception m) = m"

type_synonym outcome = "exn + response"

definition RETRYABLE_STATUS_CODES :: "nat list" where
  "RETRYABLE_STATUS_CODES = [429, 502, 503, 504]"

definition MAX_RETRY_ATTEMPTS :: nat where "MAX_RETRY_ATTEMPTS = 3"
definition RETRY_BACKOFF_BASE :: rat where "RETRY_BACKOFF_BASE = 1 / 2"
definition RETRY_BACKOFF_JITTER :: rat where "RETRY_BACKOFF_JITTER = 3 / 10"

definition retryable :: "outcome \<Rightarrow> bool" where
  "retryable r =
     (case r of
        Inr resp \<Rightarrow> status_code resp \<in> set RETRYABLE_STATUS_CODES
      | Inl (TimeoutException m) \<Rightarrow> True
      | Inl (ConnectError m) \<Rightarrow> True
      | Inl (RemoteProtocolError m) \<Rightarrow> True
      | Inl _ \<Rightarrow> False)"

section \<open>Retrying\<close>

text \<open>
  \<open>func n\<close> is the outcome of call n, \<open>randbelow n\<close> what \<open>secrets.randbelow\<close> draws after it. The
  result is the outcome returned or raised, with the delays slept: one lies between any two calls.
\<close>

definition backoff_delay :: "rat \<Rightarrow> rat \<Rightarrow> (nat \<Rightarrow> nat \<Rightarrow> nat) \<Rightarrow> nat \<Rightarrow> rat" where
  "backoff_delay base jitter randbelow attempt =
     base * 2 ^ attempt + of_nat (randbelow attempt (nat \<lfloor>jitter * 1000\<rfloor>)) / 1000"

function retry_from ::
  "(nat \<Rightarrow> outcome) \<Rightarrow> (nat \<Rightarrow> nat \<Rightarrow> nat) \<Rightarrow> nat \<Rightarrow> rat \<Rightarrow> rat \<Rightarrow> nat \<Rightarrow> outcome \<times> rat list" where
  "retry_from func randbelow max_attempts base jitter attempt =
     (if attempt < max_attempts then
        (if retryable (func attempt) \<and> attempt + 1 < max_attempts then
           (let (result, delays) = retry_from func randbelow max_attempts base jitter (attempt + 1)
            in (result, backoff_delay base jitter randbelow attempt # delays))
         else (func attempt, []))
      else (Inl (Exception ''Retry loop exited unexpectedly''), []))"
  by pat_completeness auto
termination
  by (relation "measure (\<lambda>(func, randbelow, max_attempts, base, jitter, attempt). max_attempts - attempt)") auto

declare retry_from.simps [simp del]

definition retry_with_backoff :: "(nat \<Rightarrow> outcome) \<Rightarrow> (nat \<Rightarrow> nat \<Rightarrow> nat) \<Rightarrow> outcome \<times> rat list" where
  "retry_with_backoff func randbelow =
     retry_from func randbelow MAX_RETRY_ATTEMPTS RETRY_BACKOFF_BASE RETRY_BACKOFF_JITTER 0"

section \<open>Forwarding\<close>

datatype upstream_error = UpstreamError string nat

datatype forward_error = Upstream upstream_error | Raised exn

text \<open>
  What both ways to forward begin with: ask the breaker at time \<open>t0\<close>, call with
  retries, and tell the breaker at time \<open>t1\<close> how it went. An exception that is no
  \<open>httpx.HTTPError\<close> leaves the breaker untold. Beside the result stands the number of calls
  that went out on the network.
\<close>

definition calls_made :: "outcome \<times> rat list \<Rightarrow> nat" where
  "calls_made tried = length (snd tried) + 1"

definition exchange ::
  "rat \<Rightarrow> rat \<Rightarrow> (nat \<Rightarrow> outcome) \<Rightarrow> (nat \<Rightarrow> nat \<Rightarrow> nat) \<Rightarrow> string \<Rightarrow> registry \<Rightarrow>
     ((forward_error + response) \<times> nat) \<times> registry" where
  "exchange t0 t1 func randbelow base_url reg =
     (let (b, reg) = get_circuit_breaker base_url reg;
          ((allowed, reason), b) = can_proceed t0 b;
          reg = AList.update base_url b reg
      in if \<not> allowed then
           ((Inl (Upstream (UpstreamError (''Upstream service temporarily unavailable: '' @ reason) 503)), 0), reg)
         else
           (let tried = retry_with_backoff func randbelow; calls = calls_made tried in
            case fst tried of
              Inr resp \<Rightarrow>
                ((Inr resp, calls), AList.update base_url
                   (if status_code resp < 500 then record_success b else record_failure t1 b) reg)
            | Inl (TimeoutException m) \<Rightarrow>
                ((Inl (Upstream (UpstreamError (''Upstream timed out: '' @ m) 504)), calls),
                 AList.update base_url (record_failure t1 b) reg)
            | Inl (Exception m) \<Rightarrow> ((Inl (Raised (Exception m)), calls), reg)
            | Inl e \<Rightarrow>
                ((Inl (Upstream (UpstreamError (''Cannot reach model server at '' @ base_url @ '': '' @ exn_text e) 502)), calls),
                 AList.update base_url (record_failure t1 b) reg)))"

text \<open>The replies: a body at once, or the chunks of a stream with the exception that breaks it, if any.\<close>

datatype reply =
    Reply nat string "(string \<times> string) list" string
  | Stream nat string "(string \<times> string) list" "string list" "exn option"

definition header :: "(string \<times> string) list \<Rightarrow> string \<Rightarrow> string \<Rightarrow> string" where
  "header hs name otherwise = (case map_of hs name of Some v \<Rightarrow> v | None \<Rightarrow> otherwise)"

definition forward_json ::
  "rat \<Rightarrow> rat \<Rightarrow> (nat \<Rightarrow> outcome) \<Rightarrow> (nat \<Rightarrow> nat \<Rightarrow> nat) \<Rightarrow> string \<Rightarrow> registry \<Rightarrow>
     (forward_error + reply) \<times> registry" where
  "forward_json t0 t1 func randbelow base_url reg =
     (case exchange t0 t1 func randbelow base_url reg of
        ((Inl e, _), reg) \<Rightarrow> (Inl e, reg)
      | ((Inr upstream, _), reg) \<Rightarrow>
          (Inr (Reply (status_code upstream)
                  (header (response_headers upstream) ''content-type'' ''application/json'') []
                  (response_content upstream)), reg))"

definition HOP_BY_HOP :: "string list" where
  "HOP_BY_HOP = [''connection'', ''keep-alive'', ''proxy-authenticate'', ''proxy-authorization'',
     ''te'', ''trailers'', ''transfer-encoding'', ''upgrade'', ''content-length'', ''content-encoding'']"

definition passthrough_headers :: "(string \<times> string) list \<Rightarrow> (string \<times> string) list" where
  "passthrough_headers hs = filter (\<lambda>(k, v). py_lower k \<notin> set HOP_BY_HOP) hs"

definition set_default :: "string \<Rightarrow> string \<Rightarrow> (string \<times> string) list \<Rightarrow> (string \<times> string) list" where
  "set_default k v hs = (if map_of hs k = None then hs @ [(k, v)] else hs)"

text \<open>
  \<open>body\<close> is what reading an error body gives; \<open>chunks\<close> are the chunks of the stream, with the
  exception that ends it, if any: an \<open>httpx.HTTPError\<close> is swallowed, since the status
  line is out, anything else reaches the server.
\<close>

definition relay :: "string list \<times> exn option \<Rightarrow> string list \<times> exn option" where
  "relay stream =
     (case snd stream of
        Some (Exception m) \<Rightarrow> (fst stream, Some (Exception m))
      | _ \<Rightarrow> (fst stream, None))"

definition forward_stream ::
  "rat \<Rightarrow> rat \<Rightarrow> (nat \<Rightarrow> outcome) \<Rightarrow> (nat \<Rightarrow> nat \<Rightarrow> nat) \<Rightarrow> exn + string \<Rightarrow> string list \<times> exn option \<Rightarrow>
     string \<Rightarrow> registry \<Rightarrow> (forward_error + reply) \<times> registry" where
  "forward_stream t0 t1 func randbelow body chunks base_url reg =
     (case exchange t0 t1 func randbelow base_url reg of
        ((Inl e, _), reg) \<Rightarrow> (Inl e, reg)
      | ((Inr upstream, _), reg) \<Rightarrow>
          (if status_code upstream \<ge> 400 then
             (case body of
                Inl e \<Rightarrow> (Inl (Raised e), reg)
              | Inr text \<Rightarrow>
                  (Inr (Reply (status_code upstream)
                     (header (response_headers upstream) ''content-type'' ''application/json'') [] text), reg))
           else
             (Inr (Stream (status_code upstream)
                (header (response_headers upstream) ''content-type'' ''text/event-stream'')
                (AList.update ''x-accel-buffering'' ''no''
                   (set_default ''cache-control'' ''no-cache''
                      (passthrough_headers (response_headers upstream))))
                (fst (relay chunks)) (snd (relay chunks))), reg)))"

section \<open>The OpenAI-compatible handler\<close>

text \<open>\<open>error_body\<close> of \<open>errors.py\<close>.\<close>

definition error_body :: "string \<Rightarrow> string \<Rightarrow> string option \<Rightarrow> json" where
  "error_body message err_type code =
     JObj [(''error'', JObj [(''message'', JStr message), (''type'', JStr err_type), (''param'', JNull),
        (''code'', (case code of Some c \<Rightarrow> JStr c | None \<Rightarrow> JNull))])]"

datatype answer = Forwarded reply | Failed_with nat json

definition http_exception :: "nat \<Rightarrow> string \<Rightarrow> answer" where
  "http_exception status detail = Failed_with status (error_body detail ''invalid_request_error'' None)"

definition upstream_error_handler :: "upstream_error \<Rightarrow> answer" where
  "upstream_error_handler e =
     (case e of UpstreamError message status \<Rightarrow>
        Failed_with status (error_body message ''api_error'' (Some ''upstream_unavailable'')))"

definition route_error_handler :: "route_error \<Rightarrow> answer" where
  "route_error_handler e =
     (case e of
        ModelNotFoundError model available \<Rightarrow>
          Failed_with 404 (error_body (''Model '' @ py_repr model @ '' is not served here. Available: ''
             @ py_join '', '' available @ ''.'') ''invalid_request_error'' (Some ''model_not_found''))
      | RouteDisabledError route setting \<Rightarrow>
          Failed_with 404 (error_body (route @ '' is not enabled on this deployment. Set '' @ setting
             @ ''=true in .env and start the matching service.'') ''invalid_request_error'' (Some ''route_disabled'')))"

definition context_overflow_handler :: "context_overflow \<Rightarrow> answer" where
  "context_overflow_handler e =
     Failed_with 400 (error_body
       (''This request needs roughly '' @ str_int (estimated_tokens e) @ '' tokens but the ''
        @ ''context budget is '' @ str_int (budget e) @ ''. Shorten the conversation, drop ''
        @ ''attached files, or raise CONTEXT_GUARD_TOKENS and the engine's ''
        @ ''MAX_MODEL_LEN together.'') ''invalid_request_error'' (Some ''context_length_exceeded''))"

fun as_str :: "json \<Rightarrow> string option" where
  "as_str (JStr s) = Some s"
| "as_str _ = None"

text \<open>
  \<open>_handle\<close>, with the handlers applied to what it raises. The body is a dictionary (FastAPI
  has checked that). \<open>net\<close> is the network: given whether the prepared request streams, it
  forwards.
\<close>

definition handle ::
  "(string \<Rightarrow> json option) \<Rightarrow> settings \<Rightarrow>
   (bool \<Rightarrow> target \<Rightarrow> dict \<Rightarrow> registry \<Rightarrow> (forward_error + reply) \<times> registry) \<Rightarrow>
   dict \<Rightarrow> registry \<Rightarrow> answer \<times> registry" where
  "handle literal_eval s net payload reg =
     (if dict_has payload ''model'' \<and> as_str (dict_get payload ''model'') = None
      then (http_exception 400 ''Invalid model field'', reg)
      else
        (case resolve_target s (as_str (dict_get payload ''model'')) of
           Inl e \<Rightarrow> (route_error_handler e, reg)
         | Inr t \<Rightarrow>
             (case prepare_payload literal_eval payload t s of
                Inl e \<Rightarrow> (context_overflow_handler e, reg)
              | Inr prepared \<Rightarrow>
                  (case net (truthy (dict_get prepared ''stream'')) t prepared reg of
                     (Inr r, reg) \<Rightarrow> (Forwarded r, reg)
                   | (Inl (Upstream e), reg) \<Rightarrow> (upstream_error_handler e, reg)
                   | (Inl (Raised e), reg) \<Rightarrow> (http_exception 500 ''Internal server error'', reg)))))"

section \<open>Retries\<close>

lemma retry_from_result:
  assumes "attempt < max_attempts"
  shows "\<exists>n. attempt \<le> n \<and> n < max_attempts \<and>
     fst (retry_from func randbelow max_attempts base jitter attempt) = func n \<and>
     snd (retry_from func randbelow max_attempts base jitter attempt) = map (backoff_delay base jitter randbelow) [attempt..<n] \<and>
     (\<forall>i. attempt \<le> i \<longrightarrow> i < n \<longrightarrow> retryable (func i)) \<and>
     (n + 1 = max_attempts \<or> \<not> retryable (func n))"
  using assms
proof (induction func randbelow max_attempts base jitter attempt rule: retry_from.induct)
  case (1 func randbelow max_attempts base jitter attempt)
  show ?case
  proof (cases "retryable (func attempt) \<and> attempt + 1 < max_attempts")
    case True
    with 1 obtain n where n: "attempt + 1 \<le> n" "n < max_attempts"
      "fst (retry_from func randbelow max_attempts base jitter (attempt + 1)) = func n"
      "snd (retry_from func randbelow max_attempts base jitter (attempt + 1)) = map (backoff_delay base jitter randbelow) [attempt + 1..<n]"
      "\<forall>i. attempt + 1 \<le> i \<longrightarrow> i < n \<longrightarrow> retryable (func i)"
      "n + 1 = max_attempts \<or> \<not> retryable (func n)" by auto
    have step: "retry_from func randbelow max_attempts base jitter attempt =
        (func n, backoff_delay base jitter randbelow attempt # map (backoff_delay base jitter randbelow) [attempt + 1..<n])"
      using True 1(2) n(3,4) by (subst retry_from.simps) (simp add: split_beta)
    have "[attempt..<n] = attempt # [attempt + 1..<n]" using n(1) by (simp add: upt_conv_Cons)
    moreover have "retryable (func i)" if "attempt \<le> i" "i < n" for i
      using that True n(5) by (cases "i = attempt") auto
    ultimately show ?thesis using n(1,2,6) step by (intro exI[of _ n]) simp
  next
    case False
    with 1(2) show ?thesis
      by (intro exI[of _ attempt]) (subst (1 2) retry_from.simps, auto)
  qed
qed

text \<open>
  C36. A request is sent at most three times. The result is that of the first call that is not
  retryable, or of the third; between the calls lie one delay each, the n-th at least half
  a second times two to the n and less than three tenths more, since \<open>randbelow\<close> stays below its bound.
\<close>

theorem retry_outcome:
  assumes "\<And>n bound. 0 < bound \<Longrightarrow> randbelow n bound < bound"
  shows "\<exists>n < 3. fst (retry_with_backoff func randbelow) = func n \<and>
    (\<forall>i < n. retryable (func i)) \<and> (n = 2 \<or> \<not> retryable (func n)) \<and>
    length (snd (retry_with_backoff func randbelow)) = n \<and>
    (\<forall>i < n. 2 ^ i / 2 \<le> snd (retry_with_backoff func randbelow) ! i \<and>
             snd (retry_with_backoff func randbelow) ! i < 2 ^ i / 2 + 3 / 10)"
proof -
  obtain n where n: "n < 3" "fst (retry_with_backoff func randbelow) = func n"
    "snd (retry_with_backoff func randbelow) = map (backoff_delay (1 / 2) (3 / 10) randbelow) [0..<n]"
    "\<forall>i < n. retryable (func i)" "n = 2 \<or> \<not> retryable (func n)"
    using retry_from_result[of 0 3 func randbelow "1 / 2" "3 / 10"]
    by (auto simp: retry_with_backoff_def MAX_RETRY_ATTEMPTS_def RETRY_BACKOFF_BASE_def RETRY_BACKOFF_JITTER_def)
  have "(of_nat (randbelow i 300) :: rat) < of_nat 300" for i using assms[of 300 i] by (simp only: of_nat_less_iff)
  then have "2 ^ i / 2 \<le> backoff_delay (1 / 2) (3 / 10) randbelow i \<and>
      backoff_delay (1 / 2) (3 / 10) randbelow i < 2 ^ i / 2 + 3 / 10" for i
    by (simp add: backoff_delay_def)
  with n show ?thesis by (intro exI[of _ n]) auto
qed

theorem retry_outcome_witness:
  "length (snd (retry_with_backoff (\<lambda>n. Inl (ConnectError ''refused'')) (\<lambda>_ bound. bound - 1))) = 2"
proof -
  have "\<And>n bound :: nat. 0 < bound \<Longrightarrow> (\<lambda>_ bound. bound - 1 :: nat) n bound < bound" by simp
  from retry_outcome[OF this, of "\<lambda>n. Inl (ConnectError ''refused'')"]
  show ?thesis by (auto simp: retryable_def)
qed

section \<open>Failing fast\<close>

text \<open>
  The contract of a call that can be shut: until a given time it gives a refusal of its own, and
  nothing has happened.
\<close>

locale fail_fast =
  fixes call :: "'c \<Rightarrow> 's \<Rightarrow> 'r \<times> 's"
    and time :: "'c \<Rightarrow> rat"
    and refusal :: "'c \<Rightarrow> 's \<Rightarrow> 'r"
    and shut :: "rat \<Rightarrow> 's \<Rightarrow> bool"
  assumes refuses: "shut until s \<Longrightarrow> time c < until \<Longrightarrow> call c s = (refusal c s, s)"
begin

lemma all_refused:
  "shut until s \<Longrightarrow> list_all (\<lambda>c. time c < until) cs \<Longrightarrow>
     trace call cs s = map (\<lambda>c. (c, refusal c s)) cs \<and> after call cs s = s"
  by (induction cs) (simp_all add: refuses)

end

record attempt =
  asked_at :: rat
  told_at :: rat
  network :: "nat \<Rightarrow> outcome"
  drawn :: "nat \<Rightarrow> nat \<Rightarrow> nat"

definition exchange_at ::
  "string \<Rightarrow> attempt \<Rightarrow> registry \<Rightarrow> ((forward_error + response) \<times> nat) \<times> registry" where
  "exchange_at base_url a reg = exchange (asked_at a) (told_at a) (network a) (drawn a) base_url reg"

text \<open>The answer of a circuit that stays open for some more seconds.\<close>

definition unavailable :: "rat \<Rightarrow> forward_error" where
  "unavailable left = Upstream (UpstreamError (''Upstream service temporarily unavailable: circuit breaker open (''
     @ str_int \<lfloor>left\<rfloor> @ ''s remaining)'') 503)"

definition reopens_at :: "string \<Rightarrow> registry \<Rightarrow> rat option" where
  "reopens_at base_url reg =
     (case map_of reg base_url of
        Some b \<Rightarrow> if circuit b = Open then map_option (\<lambda>t0. t0 + open_timeout b) (opened_at b) else None
      | None \<Rightarrow> None)"

lemma exchange_refused:
  assumes "reopens_at base_url reg = Some t" and "t0 < t"
  shows "exchange t0 t1 func randbelow base_url reg = ((Inl (unavailable (t - t0)), 0), reg)"
proof -
  obtain b opened where b: "map_of reg base_url = Some b" "circuit b = Open" "opened_at b = Some opened"
      "t = opened + open_timeout b"
    using assms(1) by (auto simp: reopens_at_def split: option.splits if_splits)
  then have "can_proceed t0 b = ((False, ''circuit breaker open ('' @ str_int \<lfloor>t - t0\<rfloor> @ ''s remaining)''), b)"
    using assms(2) by (simp add: can_proceed_def Let_def algebra_simps)
  with b(1) show ?thesis
    by (simp add: exchange_def get_circuit_breaker_def unavailable_def update_triv)
qed

interpretation gateway: fail_fast "exchange_at base_url" asked_at
  "\<lambda>a reg. (Inl (unavailable (the (reopens_at base_url reg) - asked_at a)), 0)"
  "\<lambda>t reg. reopens_at base_url reg = Some t" for base_url
  by unfold_locales (simp add: exchange_at_def exchange_refused)

text \<open>
  C37. While the circuit of an upstream is open, every request for it is refused with 503 and the
  seconds that remain, no call goes out on the network, and the circuits stay as they are.
\<close>

theorem open_upstream_answers_503:
  assumes "map_of reg base_url = Some b" and "circuit b = Open" and "opened_at b = Some t0"
    and "list_all (\<lambda>a. asked_at a < t0 + open_timeout b) attempts"
  shows "trace (exchange_at base_url) attempts reg =
      map (\<lambda>a. (a, (Inl (unavailable (t0 + open_timeout b - asked_at a)), 0))) attempts \<and>
    after (exchange_at base_url) attempts reg = reg"
proof -
  have "reopens_at base_url reg = Some (t0 + open_timeout b)"
    using assms(1-3) by (simp add: reopens_at_def)
  with gateway.all_refused[OF this assms(4)] show ?thesis by simp
qed

definition tripped_breaker :: breaker where
  "tripped_breaker = after on_event [Failed 1, Failed 2, Failed 3, Failed 4, Failed 5] default_breaker"

theorem open_upstream_answers_503_witness:
  "map snd (trace (exchange_at ''http://v'')
     [\<lparr>asked_at = 10, told_at = 11, network = (\<lambda>_. Inl (ConnectError [])), drawn = (\<lambda>_ _. 0)\<rparr>]
     [(''http://v'', tripped_breaker)]) = [(Inl (unavailable 25), 0)]"
proof -
  let ?as = "[\<lparr>asked_at = 10, told_at = 11, network = (\<lambda>_. Inl (ConnectError [])), drawn = (\<lambda>_ _. 0)\<rparr>]"
  have b: "circuit tripped_breaker = Open" "opened_at tripped_breaker = Some 5" "open_timeout tripped_breaker = 30"
    by code_simp+
  have "map_of [(''http://v'', tripped_breaker)] ''http://v'' = Some tripped_breaker"
    "list_all (\<lambda>a. asked_at a < 5 + open_timeout tripped_breaker) ?as" by (simp_all add: b)
  from open_upstream_answers_503[OF this(1) b(1,2) this(2)] show ?thesis by (simp add: b)
qed

text \<open>
  The reply's status: what the upstream answered is handed on with its status, a timeout
  becomes 504, another network failure 502; and the breaker hears of a success exactly for
  a status below 500.
\<close>

theorem exchange_status:
  fixes func :: "nat \<Rightarrow> outcome" and randbelow :: "nat \<Rightarrow> nat \<Rightarrow> nat" and base_url :: string and t1 :: rat
    and b1 :: breaker and reg0 :: registry
  assumes "get_circuit_breaker base_url reg = (b, reg0)" and "can_proceed t0 b = ((True, reason), b1)"
  defines "told \<equiv> (\<lambda>e. AList.update base_url (snd (on_event e b1)) (AList.update base_url b1 reg0))"
    and "tried \<equiv> retry_with_backoff func randbelow"
  shows "exchange t0 t1 func randbelow base_url reg =
     (case fst tried of
        Inr resp \<Rightarrow> ((Inr resp, calls_made tried), told (if status_code resp < 500 then Succeeded t1 else Failed t1))
      | Inl e \<Rightarrow>
          (case e of
             Exception m \<Rightarrow> ((Inl (Raised e), calls_made tried), AList.update base_url b1 reg0)
           | TimeoutException m \<Rightarrow>
               ((Inl (Upstream (UpstreamError (''Upstream timed out: '' @ m) 504)), calls_made tried), told (Failed t1))
           | _ \<Rightarrow>
               ((Inl (Upstream (UpstreamError (''Cannot reach model server at '' @ base_url @ '': '' @ exn_text e) 502)),
                 calls_made tried), told (Failed t1))))"
  using assms
  by (auto simp: exchange_def Let_def split: sum.split exn.split)

theorem exchange_status_witness:
  "\<exists>reg. exchange 0 1 (\<lambda>_. Inl (TimeoutException ''slow'')) (\<lambda>_ _. 0) ''http://v'' [] =
     ((Inl (Upstream (UpstreamError ''Upstream timed out: slow'' 504)), 3), reg)"
proof -
  have b: "get_circuit_breaker ''http://v'' [] = (default_breaker, [(''http://v'', default_breaker)])"
    by (simp add: get_circuit_breaker_def)
  have p: "can_proceed 0 default_breaker = ((True, []), default_breaker)" by code_simp
  have r: "fst (retry_with_backoff (\<lambda>_. Inl (TimeoutException ''slow'')) (\<lambda>_ _. 0)) = Inl (TimeoutException ''slow'')"
    "calls_made (retry_with_backoff (\<lambda>_. Inl (TimeoutException ''slow'')) (\<lambda>_ _. 0)) = 3"
    by code_simp+
  show ?thesis unfolding exchange_status[OF b p] r by simp
qed

text \<open>
  A streamed reply never carries a header that belongs to the upstream connection, and always
  tells proxies neither to buffer nor, unless the upstream said otherwise, to cache.
\<close>

theorem stream_headers:
  assumes "forward_stream t0 t1 func randbelow body chunks base_url reg = (Inr (Stream status media hs cs broken), reg')"
  shows "(\<forall>(k, v) \<in> set hs. py_lower k \<notin> set HOP_BY_HOP) \<and> map_of hs ''x-accel-buffering'' = Some ''no'' \<and>
    map_of hs ''cache-control'' \<noteq> None \<and> status < 400"
proof -
  obtain upstream :: response where h: "hs = AList.update ''x-accel-buffering'' ''no''
      (set_default ''cache-control'' ''no-cache'' (passthrough_headers (response_headers upstream)))"
    "status = status_code upstream" "\<not> 400 \<le> status_code upstream"
  proof (cases "exchange t0 t1 func randbelow base_url reg")
    case (Pair tried reg1)
    obtain r calls where r: "tried = (r, calls)" by fastforce
    show thesis
    proof (cases r)
      case (Inl e)
      with assms Pair r show thesis by (simp add: forward_stream_def)
    next
      case (Inr up)
      with assms Pair r show thesis
        by (intro that[of up]) (auto simp: forward_stream_def split: sum.splits if_splits)
    qed
  qed
  have names: "py_lower ''x-accel-buffering'' \<notin> set HOP_BY_HOP" "py_lower ''cache-control'' \<notin> set HOP_BY_HOP"
    by code_simp+
  have "\<forall>(k, v) \<in> set (set_default ''cache-control'' ''no-cache'' (passthrough_headers (response_headers upstream))).
      py_lower k \<notin> set HOP_BY_HOP"
    using names(2) by (auto simp: set_default_def passthrough_headers_def)
  moreover have "set (AList.update k v xs) \<subseteq> insert (k, v) (set xs)" for k and v :: string and xs
    by (induction xs) auto
  ultimately have "\<forall>(k, v) \<in> set hs. py_lower k \<notin> set HOP_BY_HOP"
    unfolding h(1) using names(1) by fastforce
  moreover have "map_of hs ''cache-control'' \<noteq> None"
    by (simp add: h(1) update_conv' set_default_def map_add_def split: option.split)
  ultimately show ?thesis using h(2,3) by (simp add: h(1) update_conv')
qed

end
