(* ===== verification/Access.thy ===== *)
theory Access
  imports Config Rate_Limiting
begin

text \<open>
  \<open>llm_assistant_api/deps.py\<close>: the dependency every \<open>/v1\<close> route has, which throttles a
  client and checks its bearer token. \<open>hashlib.sha256(...).hexdigest()\<close> is the
  parameter \<open>sha256\<close>; the three clock readings are arguments.
\<close>

section \<open>Who is asking\<close>

record caller =
  credentials :: "string option"
  forwarded_for :: "string option"
  client_host :: "string option"
  url_path :: string

definition presented :: "caller \<Rightarrow> string" where
  "presented r = (case credentials r of Some token \<Rightarrow> token | None \<Rightarrow> [])"

text \<open>What the log says of a token that was refused. All of a short one is in it.\<close>

definition describe_token :: "string \<Rightarrow> string" where
  "describe_token token =
     (if token = [] then ''no bearer token''
      else ''token '' @ take 8 token @ ''... (length '' @ str_nat (length token) @ '')'')"

definition get_client_identifier :: "(string \<Rightarrow> string) \<Rightarrow> caller \<Rightarrow> string" where
  "get_client_identifier sha256 r =
     (if presented r \<noteq> [] then ''key:'' @ take 16 (sha256 (presented r))
      else
        (case forwarded_for r of
           Some (c # cs) \<Rightarrow> ''ip:'' @ py_strip (hd (py_split '','' (c # cs)))
         | _ \<Rightarrow> ''ip:'' @ (case client_host r of Some host \<Rightarrow> host | None \<Rightarrow> ''unknown'')))"

section \<open>The check\<close>

datatype access =
    Admitted
  | Throttled string "(string \<times> string) list"
  | Unauthorized string "(string \<times> string) list"
  | TypeError

text \<open>\<open>int(x)\<close> truncates toward zero.\<close>

definition py_trunc :: "rat \<Rightarrow> int" where
  "py_trunc x = (if 0 \<le> x then \<lfloor>x\<rfloor> else \<lceil>x\<rceil>)"

definition is_ascii :: "string \<Rightarrow> bool" where
  "is_ascii s = list_all (\<lambda>c. code_point c < 128) s"

text \<open>
  \<open>any(hmac.compare_digest(presented, key) for key in accepted)\<close>, for an ASCII
  \<open>presented\<close>: comparing with a key that is not ASCII raises TypeError (None here). The keys are
  a frozenset; its order is taken to be that of the list, and decides only whether such a key is
  met before one that matches.
\<close>

fun any_matches :: "string \<Rightarrow> string list \<Rightarrow> bool option" where
  "any_matches token [] = Some False"
| "any_matches token (key # keys) =
     (if \<not> is_ascii key then None
      else if token = key then Some True
      else any_matches token keys)"

definition throttled_reply :: "int \<times> int \<Rightarrow> rat \<Rightarrow> int \<Rightarrow> access" where
  "throttled_reply limits reset_time reset_seconds =
     Throttled (''Rate limit exceeded. Please retry after '' @ str_int reset_seconds @ '' seconds.'')
       [(''Retry-After'', str_int reset_seconds),
        (''X-RateLimit-Limit'', str_int (fst limits)),
        (''X-RateLimit-Remaining'', ''0''),
        (''X-RateLimit-Reset'', str_int (py_trunc reset_time))]"

definition unauthorized_reply :: "nat \<Rightarrow> access" where
  "unauthorized_reply n =
     Unauthorized (''Incorrect API key provided. This gateway has '' @ str_nat n @ '' key(s) configured; run ''
        @ ''`make vscode-config` on the host to print the expected value, ''
        @ ''and `make check-auth` if the editor is already using it.'')
       [(''WWW-Authenticate'', ''Bearer'')]"

definition require_api_key ::
  "(string \<Rightarrow> string) \<Rightarrow> rat \<Rightarrow> rat \<Rightarrow> rat \<Rightarrow> settings \<Rightarrow> caller \<Rightarrow> limiter \<Rightarrow> access \<times> limiter" where
  "require_api_key sha256 t0 t1 t2 s r l =
     (let accepted = api_key_set s in
      if accepted = [] then (Admitted, l)
      else
        (let identifier = get_client_identifier sha256 r;
             (allowed, l) = is_allowed t0 identifier (url_path r) l
         in if \<not> truth allowed then
              (let (reset_time, l) = get_reset_time t1 identifier (url_path r) l;
                   reset_seconds = max 1 (py_trunc (reset_time - t2))
               in (throttled_reply (get_config_for_endpoint l (url_path r)) reset_time reset_seconds, l))
            else
              (case (if is_ascii (presented r) then any_matches (presented r) accepted else Some False) of
                 None \<Rightarrow> (TypeError, l)
               | Some True \<Rightarrow> (Admitted, l)
               | Some False \<Rightarrow> (unauthorized_reply (length accepted), l))))"

section \<open>Who gets in\<close>

lemma any_matches_ascii:
  "list_all is_ascii keys \<Longrightarrow> any_matches token keys = Some (token \<in> set keys)"
  by (induction keys) auto

text \<open>
  With keys configured, all of them ASCII, a request passes exactly when the limiter lets
  it and its token is one of the keys, to the character; a wrong token is told so (401)
  only when the limiter let it through.
\<close>

theorem admitted_iff:
  assumes "api_key_set s \<noteq> []" and "list_all is_ascii (api_key_set s)"
  shows "(fst (require_api_key sha256 t0 t1 t2 s r l) = Admitted \<longleftrightarrow>
      truth (fst (is_allowed t0 (get_client_identifier sha256 r) (url_path r) l)) \<and>
      presented r \<in> set (api_key_set s)) \<and>
    (fst (require_api_key sha256 t0 t1 t2 s r l) = unauthorized_reply (length (api_key_set s)) \<longleftrightarrow>
      truth (fst (is_allowed t0 (get_client_identifier sha256 r) (url_path r) l)) \<and>
      presented r \<notin> set (api_key_set s)) \<and>
    fst (require_api_key sha256 t0 t1 t2 s r l) \<noteq> TypeError"
proof -
  have "presented r \<in> set (api_key_set s) \<Longrightarrow> is_ascii (presented r)"
    using assms(2) by (auto simp: list_all_iff)
  then show ?thesis
    using assms any_matches_ascii[OF assms(2), of "presented r"]
    by (auto simp: require_api_key_def Let_def throttled_reply_def unauthorized_reply_def
        split: prod.split option.split bool.split)
qed

definition two_keys :: settings where
  "two_keys = default_settings\<lparr>api_keys := ''alpha-key, beta-key''\<rparr>"

theorem admitted_iff_witness:
  "fst (require_api_key id 0 0 0 two_keys
     \<lparr>credentials = Some ''beta-key'', forwarded_for = None, client_host = None, url_path = ''/v1''\<rparr>
     (RateLimiter default_config False 0)) = Admitted"
proof -
  have keys: "api_key_set two_keys = [''alpha-key'', ''beta-key'']" by code_simp
  have "list_all is_ascii [''alpha-key'', ''beta-key'']" by code_simp
  moreover have "truth (fst (is_allowed 0 (get_client_identifier id
     \<lparr>credentials = Some ''beta-key'', forwarded_for = None, client_host = None, url_path = ''/v1''\<rparr>) ''/v1''
     (RateLimiter default_config False 0)))" by code_simp
  ultimately show ?thesis
    by (subst conjunct1[OF admitted_iff]) (simp_all add: keys presented_def)
qed

text \<open>
  A single configured key outside ASCII turns requests into errors instead of refusals:
  a wrong ASCII token is compared with it and the comparison raises.
\<close>

theorem non_ascii_key_raises:
  assumes "api_key_set s = [key]" and "\<not> is_ascii key" and "is_ascii (presented r)"
    and "truth (fst (is_allowed t0 (get_client_identifier sha256 r) (url_path r) l))"
  shows "fst (require_api_key sha256 t0 t1 t2 s r l) = TypeError"
  using assms by (auto simp: require_api_key_def Let_def split: prod.split)

theorem non_ascii_key_raises_witness:
  "fst (require_api_key id 0 0 0 (default_settings\<lparr>api_keys := [CHR 0xE9]\<rparr>)
     \<lparr>credentials = Some ''wrong'', forwarded_for = None, client_host = None, url_path = ''/v1''\<rparr>
     (RateLimiter default_config False 0)) = TypeError"
  by (rule non_ascii_key_raises[where key = "[CHR 0xE9]"]) code_simp+

definition guess :: "string \<Rightarrow> string \<Rightarrow> caller" where
  "guess path token = \<lparr>credentials = Some token, forwarded_for = None, client_host = None, url_path = path\<rparr>"

definition try_token ::
  "(string \<Rightarrow> string) \<Rightarrow> settings \<Rightarrow> string \<Rightarrow> rat \<times> string \<Rightarrow> limiter \<Rightarrow> access \<times> limiter" where
  "try_token sha256 s path c l = require_api_key sha256 (fst c) (fst c) (fst c) s (guess path (snd c)) l"

definition bucket :: "(string \<Rightarrow> string) \<Rightarrow> string \<Rightarrow> string \<Rightarrow> string" where
  "bucket sha256 path token = request_key path (''key:'' @ take 16 (sha256 token))"

lemma is_allowed_fresh:
  assumes "\<not> redis_client l" and "requests l (request_key e i) = None"
    and "0 < fst (get_config_for_endpoint l e)"
  shows "fst (is_allowed now i e l) = Verdict True"
    and "k \<noteq> request_key e i \<Longrightarrow> requests l k = None \<Longrightarrow> requests (snd (is_allowed now i e l)) k = None"
  using assms
  by (auto simp: is_allowed_def maybe_cleanup_def request_times_def drop_outdated_def Let_def split_beta)

lemma guesses_unthrottled:
  assumes "api_key_set s \<noteq> []" and "list_all is_ascii (api_key_set s)"
  shows "\<not> redis_client l \<Longrightarrow> 0 < fst (get_config_for_endpoint l path) \<Longrightarrow>
    \<forall>c \<in> set guesses. snd c \<noteq> [] \<and> snd c \<notin> set (api_key_set s) \<and> requests l (bucket sha256 path (snd c)) = None \<Longrightarrow>
    distinct (map (bucket sha256 path \<circ> snd) guesses) \<Longrightarrow>
    list_all (\<lambda>(c, a). a = unauthorized_reply (length (api_key_set s)))
      (trace (try_token sha256 s path) guesses l)"
proof (induction guesses arbitrary: l)
  case (Cons c guesses)
  let ?i = "get_client_identifier sha256 (guess path (snd c))"
  have key: "request_key path ?i = bucket sha256 path (snd c)" and tok: "presented (guess path (snd c)) = snd c"
    using Cons.prems(3) by (auto simp: bucket_def get_client_identifier_def presented_def guess_def)
  have path: "url_path (guess path (snd c)) = path" by (simp add: guess_def)
  have fresh: "requests l (request_key path ?i) = None" using Cons.prems(3) key by simp
  note allowed = is_allowed_fresh[OF Cons.prems(1) fresh Cons.prems(2), where now = "fst c"]
  have snd: "snd (try_token sha256 s path c l) = snd (is_allowed (fst c) ?i path l)"
    using allowed(1) assms(1) by (auto simp: try_token_def require_api_key_def path truth_def Let_def
        split: prod.split option.split bool.split)
  have "fst (try_token sha256 s path c l) = unauthorized_reply (length (api_key_set s))"
    using admitted_iff[OF assms, of sha256 "fst c" "fst c" "fst c" "guess path (snd c)" l] allowed(1) Cons.prems(3)
    by (simp add: try_token_def path tok truth_def)
  moreover have "list_all (\<lambda>(c, a). a = unauthorized_reply (length (api_key_set s)))
      (trace (try_token sha256 s path) guesses (snd (try_token sha256 s path c l)))"
  proof (rule Cons.IH)
    show "\<not> redis_client (snd (try_token sha256 s path c l))"
      unfolding snd by (rule is_allowed_frame(1)[OF Cons.prems(1)])
    show "0 < fst (get_config_for_endpoint (snd (try_token sha256 s path c l)) path)"
      using Cons.prems(2) unfolding snd
      by (subst get_config_cong[of _ l]) (simp_all add: is_allowed_frame)
    show "\<forall>d \<in> set guesses. snd d \<noteq> [] \<and> snd d \<notin> set (api_key_set s) \<and>
        requests (snd (try_token sha256 s path c l)) (bucket sha256 path (snd d)) = None"
    proof
      fix d assume d: "d \<in> set guesses"
      then have "bucket sha256 path (snd d) \<noteq> request_key path ?i"
        using Cons.prems(4) key by (force simp: image_iff)
      with d Cons.prems(3) allowed(2) show "snd d \<noteq> [] \<and> snd d \<notin> set (api_key_set s) \<and>
          requests (snd (try_token sha256 s path c l)) (bucket sha256 path (snd d)) = None"
        unfolding snd by simp
    qed
    show "distinct (map (bucket sha256 path \<circ> snd) guesses)" using Cons.prems(4) by (simp add: comp_def)
  qed
  ultimately show ?case by simp
qed simp

text \<open>
  Guessing keys is not throttled: the limiter counts per presented token, valid or not, so
  a caller that never repeats a token is answered 401 every time, whatever the limit.
\<close>

theorem guessing_never_throttled:
  assumes "api_key_set s \<noteq> []" and "list_all is_ascii (api_key_set s)"
    and "start_limiter show s False now = Inr l" and "0 < fst (get_config_for_endpoint l path)"
    and "list_all (\<lambda>c. snd c \<noteq> [] \<and> snd c \<notin> set (api_key_set s)) guesses"
    and "distinct (map (bucket sha256 path \<circ> snd) guesses)"
  shows "list_all (\<lambda>(c, a). a = unauthorized_reply (length (api_key_set s)))
      (trace (try_token sha256 s path) guesses l)"
proof (rule guesses_unthrottled[OF assms(1,2) _ assms(4) _ assms(6)])
  from assms(3) show "\<not> redis_client l"
    by (rule start_limiter_cases) (simp add: configure_all RateLimiter_def)
  show "\<forall>c \<in> set guesses. snd c \<noteq> [] \<and> snd c \<notin> set (api_key_set s) \<and> requests l (bucket sha256 path (snd c)) = None"
    using assms(5) by (simp add: list_all_iff start_limiter_empty[OF assms(3)])
qed

theorem guessing_never_throttled_witness:
  "\<exists>l. start_limiter (\<lambda>_. []) (two_keys\<lparr>rate_limit_max_requests := 1\<rparr>) False 0 = Inr l \<and>
    list_all (\<lambda>(c, a). a = unauthorized_reply 2)
      (trace (try_token id (two_keys\<lparr>rate_limit_max_requests := 1\<rparr>) ''/v1'')
         [(1, ''guess-1''), (2, ''guess-2''), (3, ''guess-3'')] l)"
proof -
  let ?s = "two_keys\<lparr>rate_limit_max_requests := 1\<rparr>"
  let ?l = "RateLimiter \<lparr>max_requests = 1, window_seconds = 60, cleanup_interval = 300, redis_url = None\<rparr> False 0"
  have keys: "api_key_set ?s = [''alpha-key'', ''beta-key'']" by code_simp
  have ascii: "list_all is_ascii (api_key_set ?s)" unfolding keys by code_simp
  have rules: "rate_limit_rules_parsed ?s = []" by code_simp
  have "validate_config (\<lambda>_. []) ?s = Inr ()"
    by (simp add: validate_config_def two_keys_def default_settings_def)
  then have start: "start_limiter (\<lambda>_. []) ?s False 0 = Inr ?l"
    by (simp add: start_limiter_def rules RateLimitConfig_def) (simp add: two_keys_def default_settings_def)
  have limit: "0 < fst (get_config_for_endpoint ?l ''/v1'')" by code_simp
  have wrong: "list_all (\<lambda>c. snd c \<noteq> [] \<and> snd c \<notin> set (api_key_set ?s))
      [(1 :: rat, ''guess-1''), (2, ''guess-2''), (3, ''guess-3'')]" unfolding keys by simp
  have diff: "distinct (map (bucket id ''/v1'' \<circ> snd) [(1 :: rat, ''guess-1''), (2, ''guess-2''), (3, ''guess-3'')])"
    by code_simp
  have "api_key_set ?s \<noteq> []" "length (api_key_set ?s) = 2" unfolding keys by simp_all
  with guessing_never_throttled[OF _ ascii start limit wrong diff] start show ?thesis by auto
qed

section \<open>How long to wait\<close>

lemma not_throttled:
  assumes "api_key_set s \<noteq> []" and "truth (fst (is_allowed t0 (get_client_identifier sha256 r) (url_path r) l))"
  shows "fst (require_api_key sha256 t0 t1 t2 s r l) \<noteq> Throttled m hs"
proof -
  obtain v l1 where v: "is_allowed t0 (get_client_identifier sha256 r) (url_path r) l = (v, l1)" by fastforce
  with assms show ?thesis
    by (auto simp: require_api_key_def unauthorized_reply_def Let_def split: option.split bool.split)
qed

lemma trunc_less: "x < of_int (py_trunc x) + 1"
  by (auto simp: py_trunc_def) linarith+

text \<open>
  C33. A throttled client is told how long to wait, and the waiting ends: after the seconds told,
  at least one, and one second more, its next request is not throttled, at any time from then on.
  This is without Redis and for a limit that lets at least one request through. The second
  more is needed, since the seconds told are cut, not rounded up.
\<close>

theorem told_wait_ends:
  assumes "\<not> redis_client l" and "\<And>k. requests l k = None"
    and "list_all (limited_by l (request_key (url_path r) (get_client_identifier sha256 r)) mx window) calls"
    and "get_config_for_endpoint l (url_path r) = (mx, window)" and "0 < mx"
    and "require_api_key sha256 t0 t1 t2 s r (after serve calls l) = (Throttled message headers, l')"
  shows "\<exists>secs \<ge> 1. message = ''Rate limit exceeded. Please retry after '' @ str_int secs @ '' seconds.'' \<and>
    map_of headers ''Retry-After'' = Some (str_int secs) \<and>
    (\<forall>t t1' t2' m hs. t2 + of_int secs + 1 \<le> t \<longrightarrow> fst (require_api_key sha256 t t1' t2' s r l') \<noteq> Throttled m hs)"
proof -
  let ?i = "get_client_identifier sha256 r" let ?e = "url_path r"
  obtain v l1 where v: "is_allowed t0 ?i ?e (after serve calls l) = (v, l1)" by fastforce
  obtain reset l2 where reset: "get_reset_time t1 ?i ?e l1 = (reset, l2)" by fastforce
  have keys: "api_key_set s \<noteq> []" using assms(6) by (auto simp: require_api_key_def)
  have "\<not> truth v"
    using not_throttled[OF keys, of t0 sha256 r "after serve calls l"] v assms(6) by (metis fst_conv)
  then have "v = Verdict False" by (cases v) (auto simp: truth_def)
  with v have refused: "is_allowed t0 ?i ?e (after serve calls l) = (Verdict False, l1)" by simp
  define secs where "secs = max 1 (py_trunc (reset - t2))"
  have told: "Throttled message headers = throttled_reply (get_config_for_endpoint l2 ?e) reset secs" "l' = l2"
    using assms(6) keys refused reset by (auto simp: require_api_key_def truth_def secs_def)
  have "reset \<le> t2 + of_int secs + 1"
    using trunc_less[of "reset - t2"] by (simp add: secs_def max_def)
  moreover have "\<forall>t \<ge> reset. fst (is_allowed t ?i ?e l') = Verdict True"
    using reset_time_admits[OF assms(1-5) refused reset] by (simp add: told(2))
  ultimately have "truth (fst (is_allowed t ?i ?e l'))" if "t2 + of_int secs + 1 \<le> t" for t
    using that by (simp add: truth_def)
  note this[THEN not_throttled[OF keys]]
  moreover have "1 \<le> secs" by (simp add: secs_def)
  ultimately show ?thesis using told(1) by (intro exI[of _ secs]) (simp add: throttled_reply_def)
qed

definition one_a_minute :: limiter where
  "one_a_minute = RateLimiter \<lparr>max_requests = 1, window_seconds = 60, cleanup_interval = 300, redis_url = None\<rparr> False 0"

definition from_one_host :: caller where
  "from_one_host = \<lparr>credentials = None, forwarded_for = None, client_host = Some ''h'', url_path = ''/v1''\<rparr>"

theorem told_wait_ends_witness:
  "\<exists>secs. str_int secs = ''50'' \<and> (\<forall>m hs. fst (require_api_key id (20 + of_int secs + 1) 72 72 two_keys from_one_host
     (snd (require_api_key id 20 20 20 two_keys from_one_host
        (after serve [(21 / 2, ''ip:h'', ''/v1'')] one_a_minute)))) \<noteq> Throttled m hs)"
proof -
  let ?l = "after serve [(21 / 2, ''ip:h'', ''/v1'')] one_a_minute"
  let ?out = "require_api_key id 20 20 20 two_keys from_one_host ?l"
  have told: "fst ?out = throttled_reply (1, 60) (141 / 2) 50" by code_simp
  then obtain m hs where out: "?out = (Throttled m hs, snd ?out)"
    by (metis throttled_reply_def prod.collapse)
  have limited: "list_all (limited_by one_a_minute (request_key (url_path from_one_host) (get_client_identifier id from_one_host)) 1 60)
      [(21 / 2, ''ip:h'', ''/v1'')]" by code_simp
  have cfg: "get_config_for_endpoint one_a_minute (url_path from_one_host) = (1, 60)" by code_simp
  have fresh: "\<not> redis_client one_a_minute" "\<And>k. requests one_a_minute k = None"
    by (simp_all add: one_a_minute_def RateLimiter_def)
  obtain secs where secs: "map_of hs ''Retry-After'' = Some (str_int secs)"
      "\<forall>t t1' t2' m hs. 20 + of_int secs + 1 \<le> t \<longrightarrow>
        fst (require_api_key id t t1' t2' two_keys from_one_host (snd ?out)) \<noteq> Throttled m hs"
    using told_wait_ends[OF fresh limited cfg zero_less_one out] by blast
  have "Throttled m hs = throttled_reply (1, 60) (141 / 2) 50" using out told by (metis fst_conv)
  with secs(1) have "str_int secs = str_int 50" by (simp add: throttled_reply_def)
  moreover have "str_int 50 = ''50''" by code_simp
  ultimately show ?thesis using secs(2) by auto
qed

text \<open>A client that waits exactly as long as it is told is refused again: the seconds are cut.\<close>

theorem told_wait_too_short:
  "let (a, l) = require_api_key id 20 20 20 two_keys from_one_host (after serve [(21 / 2, ''ip:h'', ''/v1'')] one_a_minute)
   in a = throttled_reply (1, 60) (141 / 2) 50 \<and>
     fst (require_api_key id (20 + 50) 70 70 two_keys from_one_host l) = throttled_reply (1, 60) (141 / 2) 1"
  by code_simp

end
