(* ===== verification/Metrics.thy ===== *)
theory Metrics
  imports Prelude "HOL-Library.AList"
begin

text \<open>
  \<open>llm_assistant_api/metrics.py\<close>, and the part of the access-log middleware of \<open>main.py\<close> that
  feeds it. A request's metrics are an object the middleware keeps while the collector holds
  it too, so objects live in a store and are passed around by reference. A \<open>defaultdict\<close> is
  an association list, in the order its keys came; a bounded \<open>deque\<close> a list. Times are
  readings of the clock in seconds, durations milliseconds.
\<close>

section \<open>The collector\<close>

definition HISTORY :: nat where "HISTORY = 1024"

record request_metrics =
  rm_request_id :: string
  rm_endpoint :: string
  rm_model :: string
  rm_start_time :: rat
  rm_response_time_ms :: "rat option"
  rm_status_code :: "int option"
  rm_streamed :: bool
  rm_ttft_ms :: "rat option"

record collector =
  objects :: "request_metrics list"
  in_flight :: "(string \<times> nat) list"
  completed_requests :: "nat list"
  endpoint_counts :: "(string \<times> nat) list"
  status_code_counts :: "(int \<times> nat) list"
  model_usage :: "(string \<times> nat) list"
  error_counts :: "(string \<times> nat) list"
  rate_limit_hits :: "(string \<times> nat) list"
  upstream_latencies :: "rat list"
  total_requests :: nat
  total_errors :: nat

definition new_collector :: collector where
  "new_collector =
     \<lparr>objects = [], in_flight = [], completed_requests = [], endpoint_counts = [], status_code_counts = [],
      model_usage = [], error_counts = [], rate_limit_hits = [], upstream_latencies = [],
      total_requests = 0, total_errors = 0\<rparr>"

text \<open>\<open>d[k] += 1\<close>, and \<open>append\<close> on a deque of \<open>n\<close> places.\<close>

definition bump :: "'k \<Rightarrow> ('k \<times> nat) list \<Rightarrow> ('k \<times> nat) list" where
  "bump k d = AList.update k (case map_of d k of Some n \<Rightarrow> n + 1 | None \<Rightarrow> 1) d"

definition push :: "nat \<Rightarrow> 'a \<Rightarrow> 'a list \<Rightarrow> 'a list" where
  "push n x xs = drop (length xs + 1 - n) (xs @ [x])"

definition elapsed_ms :: "rat \<Rightarrow> request_metrics \<Rightarrow> rat" where
  "elapsed_ms now m = (now - rm_start_time m) * 1000"

definition first_byte :: "rat \<Rightarrow> request_metrics \<Rightarrow> request_metrics" where
  "first_byte now m = (if rm_ttft_ms m = None then m\<lparr>rm_ttft_ms := Some (elapsed_ms now m)\<rparr> else m)"

definition finish :: "rat \<Rightarrow> int \<Rightarrow> request_metrics \<Rightarrow> request_metrics" where
  "finish now status m = m\<lparr>rm_response_time_ms := Some (elapsed_ms now m), rm_status_code := Some status\<rparr>"

definition on_object :: "nat \<Rightarrow> (request_metrics \<Rightarrow> request_metrics) \<Rightarrow> collector \<Rightarrow> collector" where
  "on_object ref f c = c\<lparr>objects := (objects c)[ref := f (objects c ! ref)]\<rparr>"

definition start_request :: "rat \<Rightarrow> string \<Rightarrow> string \<Rightarrow> string \<Rightarrow> bool \<Rightarrow> collector \<Rightarrow> nat \<times> collector" where
  "start_request now rid endpoint model streamed c =
     (let m = \<lparr>rm_request_id = rid, rm_endpoint = endpoint, rm_model = model, rm_start_time = now,
               rm_response_time_ms = None, rm_status_code = None, rm_streamed = streamed, rm_ttft_ms = None\<rparr>;
          ref = length (objects c)
      in (ref, c\<lparr>objects := objects c @ [m], in_flight := AList.update rid ref (in_flight c),
                 total_requests := total_requests c + 1, endpoint_counts := bump endpoint (endpoint_counts c)\<rparr>))"

definition finish_request :: "rat \<Rightarrow> string \<Rightarrow> int \<Rightarrow> collector \<Rightarrow> collector" where
  "finish_request now rid status c =
     (case map_of (in_flight c) rid of
        None \<Rightarrow> c
      | Some ref \<Rightarrow>
          (let c = c\<lparr>in_flight := AList.delete rid (in_flight c)\<rparr>;
               c = (if rm_response_time_ms (objects c ! ref) = None then on_object ref (finish now status) c else c)
           in c\<lparr>status_code_counts := bump status (status_code_counts c),
                completed_requests := push HISTORY ref (completed_requests c)\<rparr>))"

definition record_model_usage :: "string \<Rightarrow> collector \<Rightarrow> collector" where
  "record_model_usage model c = c\<lparr>model_usage := bump model (model_usage c)\<rparr>"

definition record_error :: "string \<Rightarrow> string \<Rightarrow> collector \<Rightarrow> collector" where
  "record_error endpoint kind c =
     c\<lparr>error_counts := bump (endpoint @ '':'' @ kind) (error_counts c), total_errors := total_errors c + 1\<rparr>"

definition record_rate_limit_hit :: "string \<Rightarrow> collector \<Rightarrow> collector" where
  "record_rate_limit_hit endpoint c = c\<lparr>rate_limit_hits := bump endpoint (rate_limit_hits c)\<rparr>"

definition record_upstream_latency :: "rat \<Rightarrow> collector \<Rightarrow> collector" where
  "record_upstream_latency ms c = c\<lparr>upstream_latencies := push HISTORY ms (upstream_latencies c)\<rparr>"

section \<open>Statistics\<close>

definition percentile :: "rat list \<Rightarrow> rat \<Rightarrow> rat" where
  "percentile values fraction = values ! min (length values - 1) (nat \<lfloor>of_nat (length values) * fraction\<rfloor>)"

definition present :: "'a option list \<Rightarrow> 'a list" where
  "present xs = concat (map (\<lambda>x. case x of None \<Rightarrow> [] | Some y \<Rightarrow> [y]) xs)"

definition durations :: "collector \<Rightarrow> rat list" where
  "durations c = sort (present (map (\<lambda>ref. rm_response_time_ms (objects c ! ref)) (completed_requests c)))"

definition ttfts :: "collector \<Rightarrow> rat list" where
  "ttfts c = sort (present (map (\<lambda>ref. rm_ttft_ms (objects c ! ref)) (completed_requests c)))"

definition error_rate :: "collector \<Rightarrow> rat" where
  "error_rate c = of_nat (total_errors c) / of_nat (max 1 (total_requests c))"

record summary =
  sum_requests :: nat
  sum_errors :: nat
  sum_error_rate :: rat
  sum_endpoints :: "(string \<times> nat) list"
  sum_statuses :: "(int \<times> nat) list"
  sum_error_counts :: "(string \<times> nat) list"
  sum_rate_limit_hits :: "(string \<times> nat) list"
  sum_models :: "(string \<times> nat) list"
  sum_active :: nat

definition get_summary :: "collector \<Rightarrow> summary" where
  "get_summary c =
     \<lparr>sum_requests = total_requests c, sum_errors = total_errors c, sum_error_rate = error_rate c,
      sum_endpoints = endpoint_counts c, sum_statuses = status_code_counts c, sum_error_counts = error_counts c,
      sum_rate_limit_hits = rate_limit_hits c, sum_models = model_usage c, sum_active = length (in_flight c)\<rparr>"

text \<open>The statistics, by the names they are reported under, in order.\<close>

definition get_request_stats :: "collector \<Rightarrow> (string \<times> rat) list" where
  "get_request_stats c =
     (let ds = durations c; ts = ttfts c; us = sort (upstream_latencies c); active = of_nat (length (in_flight c)) in
      if ds = [] then
        [(''average_response_time_ms'', 0), (''active_requests'', active), (''sample_size'', 0), (''error_rate'', 0)]
      else
        [(''active_requests'', active), (''sample_size'', of_nat (length ds)),
         (''average_response_time_ms'', sum_list ds / of_nat (length ds)),
         (''min_response_time_ms'', hd ds), (''max_response_time_ms'', last ds),
         (''p50_response_time_ms'', percentile ds (1 / 2)), (''p95_response_time_ms'', percentile ds (95 / 100)),
         (''p99_response_time_ms'', percentile ds (99 / 100)), (''error_rate'', error_rate c)]
        @ (if ts = [] then [] else
             [(''p50_ttft_ms'', percentile ts (1 / 2)), (''p95_ttft_ms'', percentile ts (95 / 100))])
        @ (if us = [] then [] else
             [(''p50_upstream_latency_ms'', percentile us (1 / 2)), (''p95_upstream_latency_ms'', percentile us (95 / 100))]))"

text \<open>The exposition format; \<open>show n x\<close> is \<open>x\<close> printed with \<open>n\<close> decimal places.\<close>

definition metric_header :: "string \<Rightarrow> string \<Rightarrow> string \<Rightarrow> string list" where
  "metric_header name kind help =
     [''# HELP '' @ name @ '' '' @ help, ''# TYPE '' @ name @ '' '' @ kind]"

definition labelled :: "string \<Rightarrow> string \<Rightarrow> string \<Rightarrow> string \<Rightarrow> string" where
  "labelled name key label value = name @ ''{'' @ key @ ''='' @ [CHR 0x22] @ label @ [CHR 0x22] @ ''} '' @ value"

definition quantiles :: "(nat \<Rightarrow> rat \<Rightarrow> string) \<Rightarrow> (string \<times> rat) list \<Rightarrow> string \<Rightarrow> string \<Rightarrow> string list \<Rightarrow> string list" where
  "quantiles show stats name stat qs =
     concat (map (\<lambda>q. case map_of stats (q @ ''_'' @ stat) of
         None \<Rightarrow> [] | Some v \<Rightarrow> [labelled name ''quantile'' q (show 3 v)]) qs)"

definition render_prometheus :: "(nat \<Rightarrow> rat \<Rightarrow> string) \<Rightarrow> collector \<Rightarrow> string" where
  "render_prometheus show c =
     (let summary = get_summary c; stats = get_request_stats c in
      py_join [NL]
        (metric_header ''gateway_requests_total'' ''counter'' ''Requests accepted by the gateway.''
         @ [''gateway_requests_total '' @ str_nat (sum_requests summary)]
         @ metric_header ''gateway_requests_in_flight'' ''gauge'' ''Requests currently being served.''
         @ [''gateway_requests_in_flight '' @ str_nat (sum_active summary)]
         @ metric_header ''gateway_requests_by_endpoint_total'' ''counter'' ''Requests per endpoint.''
         @ map (\<lambda>(endpoint, n). labelled ''gateway_requests_by_endpoint_total'' ''endpoint'' endpoint (str_nat n))
             (sort_key fst (sum_endpoints summary))
         @ metric_header ''gateway_responses_by_status_total'' ''counter'' ''Responses per status code.''
         @ map (\<lambda>(status, n). labelled ''gateway_responses_by_status_total'' ''status'' (str_int status) (str_nat n))
             (sort_key fst (sum_statuses summary))
         @ metric_header ''gateway_response_time_ms'' ''gauge'' ''Response time over the retained window.''
         @ quantiles show stats ''gateway_response_time_ms'' ''response_time_ms'' [''p50'', ''p95'', ''p99'']
         @ metric_header ''gateway_ttft_ms'' ''gauge'' ''Time to first token over the retained window.''
         @ quantiles show stats ''gateway_ttft_ms'' ''ttft_ms'' [''p50'', ''p95'']
         @ metric_header ''gateway_error_rate'' ''gauge'' ''Overall error rate (errors/total requests).''
         @ [''gateway_error_rate '' @ show 6 (case map_of stats ''error_rate'' of Some v \<Rightarrow> v | None \<Rightarrow> 0)]
         @ metric_header ''gateway_upstream_latency_ms'' ''gauge'' ''Upstream latency over retained window.''
         @ quantiles show stats ''gateway_upstream_latency_ms'' ''upstream_latency_ms'' [''p50'', ''p95'']
         @ metric_header ''gateway_rate_limit_hits_total'' ''counter'' ''Rate limit hits by endpoint.''
         @ map (\<lambda>(endpoint, n). labelled ''gateway_rate_limit_hits_total'' ''endpoint'' endpoint (str_nat n))
             (sort_key fst (sum_rate_limit_hits summary)))
      @ [NL])"

section \<open>What the gateway reports to it\<close>

text \<open>
  The middleware starts the metrics of a request, notes the first chunk of the body, and in
  \<open>complete\<close> finishes the object it holds, then tells the collector by the request's id.
\<close>

datatype metrics_event =
    Request_Started rat string string string bool
  | Body_Chunk rat nat
  | Request_Complete rat nat string int
  | Model_Used string

definition complete :: "rat \<Rightarrow> nat \<Rightarrow> string \<Rightarrow> int \<Rightarrow> collector \<Rightarrow> collector" where
  "complete now ref rid status c = finish_request now rid status (on_object ref (finish now status) c)"

fun on_metrics :: "metrics_event \<Rightarrow> collector \<Rightarrow> nat option \<times> collector" where
  "on_metrics (Request_Started now rid endpoint model streamed) c =
     (let (ref, c) = start_request now rid endpoint model streamed c in (Some ref, c))"
| "on_metrics (Body_Chunk now ref) c = (None, on_object ref (first_byte now) c)"
| "on_metrics (Request_Complete now ref rid status) c = (None, complete now ref rid status c)"
| "on_metrics (Model_Used model) c = (None, record_model_usage model c)"

section \<open>Counting\<close>

definition total :: "('k \<times> nat) list \<Rightarrow> nat" where
  "total d = sum_list (map snd d)"

lemma total_bump [simp]: "total (bump k d) = total d + 1"
proof (induction d)
  case (Cons x d)
  then show ?case by (cases x) (auto simp: total_def bump_def split: option.splits)
qed (simp add: total_def bump_def)

lemma length_push: "length (push n x xs) = min n (length xs + 1)"
  by (simp add: push_def)

lemma set_push: "set (push n x xs) \<subseteq> insert x (set xs)"
  using set_drop_subset[of "length xs + 1 - n" "xs @ [x]"] by (auto simp: push_def)

lemma length_delete_key:
  "distinct (map fst d) \<Longrightarrow> k \<in> fst ` set d \<Longrightarrow> length (AList.delete k d) + 1 = length d"
proof (induction d)
  case (Cons x d)
  then show ?case by (cases x) (cases "fst x = k"; auto)
qed simp

lemma length_update_key:
  "length (AList.update k v d) = (if k \<in> fst ` set d then length d else length d + 1)"
  by (induction d) auto

lemma set_update: "set (AList.update k v d) \<subseteq> insert (k, v) (set d)"
  by (induction d) auto

lemma set_delete: "set (AList.delete k d) \<subseteq> set d"
  by (induction d) auto

text \<open>What holds of the counters between two events; \<open>ids\<close> are the ids started so far.\<close>

definition counted :: "string list \<Rightarrow> collector \<Rightarrow> bool" where
  "counted ids c \<longleftrightarrow>
     distinct (map fst (in_flight c)) \<and> fst ` set (in_flight c) \<subseteq> set ids \<and>
     total (endpoint_counts c) = total_requests c \<and> total_requests c = length ids \<and>
     total (status_code_counts c) + length (in_flight c) \<le> total_requests c \<and>
     (distinct ids \<longrightarrow> total (status_code_counts c) + length (in_flight c) = total_requests c) \<and>
     length (completed_requests c) = min HISTORY (total (status_code_counts c)) \<and>
     total_errors c = 0"

text \<open>References point to objects, and every completed request has its duration.\<close>

definition measured :: "collector \<Rightarrow> bool" where
  "measured c \<longleftrightarrow>
     (\<forall>x \<in> set (in_flight c). snd x < length (objects c)) \<and>
     (\<forall>ref \<in> set (completed_requests c). ref < length (objects c) \<and> rm_response_time_ms (objects c ! ref) \<noteq> None)"

lemma counted_object [simp]: "counted ids (on_object ref f c) \<longleftrightarrow> counted ids c"
  by (simp add: counted_def on_object_def)

lemma measured_object:
  assumes "measured c" and "\<And>m. rm_response_time_ms m \<noteq> None \<Longrightarrow> rm_response_time_ms (f m) \<noteq> None"
  shows "measured (on_object ref f c)"
proof -
  have "rm_response_time_ms ((objects c)[ref := f (objects c ! ref)] ! r) \<noteq> None"
    if "r < length (objects c)" "rm_response_time_ms (objects c ! r) \<noteq> None" for r
    using that assms(2)[of "objects c ! ref"] by (cases "r = ref") auto
  with assms(1) show ?thesis unfolding measured_def on_object_def by simp
qed

lemma counted_start:
  assumes "counted ids c"
  shows "counted (ids @ [rid]) (snd (start_request now rid endpoint model streamed c))"
proof -
  have "fst ` set (AList.update rid v (in_flight c)) \<subseteq> insert rid (set ids)" for v
    using assms by (auto simp: counted_def dom_update)
  moreover have "rid \<notin> fst ` set (in_flight c)" if "rid \<notin> set ids" using assms that by (auto simp: counted_def)
  ultimately show ?thesis
    using assms by (auto simp: counted_def start_request_def Let_def length_update_key distinct_update)
qed

lemma measured_start: "measured c \<Longrightarrow> measured (snd (start_request now rid endpoint model streamed c))"
  using set_update[of rid "length (objects c)" "in_flight c"]
  by (fastforce simp: measured_def start_request_def Let_def nth_append)

lemma counted_finish:
  assumes "counted ids c"
  shows "counted ids (finish_request now rid status c)"
proof (cases "map_of (in_flight c) rid")
  case None
  with assms show ?thesis by (simp add: finish_request_def)
next
  case (Some ref)
  then have "rid \<in> fst ` set (in_flight c)" by (metis map_of_eq_None_iff option.distinct(1))
  with assms have "length (AList.delete rid (in_flight c)) + 1 = length (in_flight c)"
    by (intro length_delete_key) (simp_all add: counted_def)
  with assms Some dom_delete_subset[of rid "in_flight c"] show ?thesis
    by (auto simp: counted_def finish_request_def Let_def on_object_def distinct_delete length_push)
qed

lemma measured_finish:
  assumes "measured c"
  shows "measured (finish_request now rid status c)"
proof (cases "map_of (in_flight c) rid")
  case None
  with assms show ?thesis by (simp add: finish_request_def)
next
  case (Some ref)
  then have ref: "ref < length (objects c)" using assms map_of_SomeD[OF Some] by (auto simp: measured_def)
  define c1 where "c1 = c\<lparr>in_flight := AList.delete rid (in_flight c)\<rparr>"
  define c2 where "c2 = (if rm_response_time_ms (objects c1 ! ref) = None then on_object ref (finish now status) c1 else c1)"
  have "measured c1" using assms set_delete[of rid "in_flight c"] by (auto simp: measured_def c1_def)
  then have "measured c2" by (auto simp: c2_def finish_def intro!: measured_object)
  moreover have "ref < length (objects c2)" "rm_response_time_ms (objects c2 ! ref) \<noteq> None"
    using ref by (auto simp: c2_def c1_def on_object_def finish_def)
  moreover have "finish_request now rid status c =
      c2\<lparr>status_code_counts := bump status (status_code_counts c2),
         completed_requests := push HISTORY ref (completed_requests c2)\<rparr>"
    using Some by (simp add: finish_request_def c2_def c1_def Let_def)
  ultimately show ?thesis
    using set_push[of HISTORY ref "completed_requests c2"] by (auto simp: measured_def)
qed

fun started_ids :: "metrics_event list \<Rightarrow> string list" where
  "started_ids [] = []"
| "started_ids (Request_Started now rid endpoint model streamed # evs) = rid # started_ids evs"
| "started_ids (_ # evs) = started_ids evs"

lemma counted_event:
  "counted ids c \<Longrightarrow> counted (ids @ started_ids [e]) (snd (on_metrics e c))"
proof (cases e)
  case (Request_Started now rid endpoint model streamed)
  then show "counted ids c \<Longrightarrow> ?thesis"
    using counted_start[of ids c rid now endpoint model streamed] by (auto split: prod.splits)
next
  case (Request_Complete now ref rid status)
  then show "counted ids c \<Longrightarrow> ?thesis" by (simp add: complete_def counted_finish)
next
  case (Model_Used model)
  then show "counted ids c \<Longrightarrow> ?thesis" by (simp add: record_model_usage_def counted_def)
qed simp

lemma measured_event: "measured c \<Longrightarrow> measured (snd (on_metrics e c))"
proof (cases e)
  case (Request_Started now rid endpoint model streamed)
  then show "measured c \<Longrightarrow> ?thesis"
    using measured_start[of c now rid endpoint model streamed] by (auto split: prod.splits)
next
  case (Request_Complete now ref rid status)
  then show "measured c \<Longrightarrow> ?thesis" by (simp add: complete_def measured_finish measured_object finish_def)
next
  case (Model_Used model)
  then show "measured c \<Longrightarrow> ?thesis" by (simp add: record_model_usage_def measured_def)
next
  case (Body_Chunk now ref)
  then show "measured c \<Longrightarrow> ?thesis" by (auto simp: first_byte_def intro!: measured_object)
qed

lemma started_ids_Cons: "started_ids (e # evs) = started_ids [e] @ started_ids evs"
  by (cases e) simp_all

lemma counted_run: "counted ids c \<Longrightarrow> counted (ids @ started_ids evs) (after on_metrics evs c)"
proof (induction evs arbitrary: ids c)
  case (Cons e evs)
  from Cons.IH[OF counted_event[OF Cons.prems, of e]] show ?case
    by (simp add: started_ids_Cons[of e evs])
qed simp

lemma measured_run: "measured c \<Longrightarrow> measured (after on_metrics evs c)"
  using after_invariant[where I = measured and ok = "\<lambda>_. True" and step = on_metrics] measured_event
  by (metis list_all_iff)

lemma length_present: "\<forall>x \<in> set xs. x \<noteq> None \<Longrightarrow> length (present xs) = length xs"
  by (induction xs) (auto simp: present_def)

text \<open>
  Nothing is miscounted. Whatever the order of events, the requests counted per endpoint
  add up to the requests started; those answered, by status, and those in flight never exceed
  them, and add up to them when no request id comes twice. Each answered request is in the
  sample, up to 1024, with its duration, so latencies are those of real answers. Errors, on
  the other hand, are never counted: the error rate the gateway reports is always zero.
\<close>

theorem requests_conserved:
  assumes "c = after on_metrics evs new_collector"
  shows "total (endpoint_counts c) = total_requests c \<and> total_requests c = length (started_ids evs) \<and>
    total (status_code_counts c) + length (in_flight c) \<le> total_requests c \<and>
    (distinct (started_ids evs) \<longrightarrow> total (status_code_counts c) + length (in_flight c) = total_requests c) \<and>
    length (durations c) = min 1024 (total (status_code_counts c)) \<and> error_rate c = 0"
proof -
  have "counted [] new_collector" "measured new_collector"
    by (simp_all add: counted_def measured_def new_collector_def total_def)
  from counted_run[OF this(1), of evs] measured_run[OF this(2), of evs] assms
  have c: "counted (started_ids evs) c" "measured c" by simp_all
  have "length (durations c) = length (completed_requests c)"
    using c(2) by (simp add: durations_def length_present measured_def)
  with c(1) show ?thesis by (simp add: counted_def HISTORY_def error_rate_def)
qed

definition sample_events :: "metrics_event list" where
  "sample_events = [Request_Started 0 ''a'' ''/v1'' ''m'' False, Request_Started 1 ''b'' ''/v1'' ''m'' True,
     Body_Chunk 2 1, Request_Complete 3 1 ''b'' 503]"

theorem requests_conserved_witness:
  "length (durations (after on_metrics sample_events new_collector)) = 1 \<and>
   error_rate (after on_metrics sample_events new_collector) = 0 \<and>
   map snd (status_code_counts (after on_metrics sample_events new_collector)) = [1]"
proof -
  have "map snd (status_code_counts (after on_metrics sample_events new_collector)) = [1]" by code_simp
  moreover from this have "total (status_code_counts (after on_metrics sample_events new_collector)) = 1"
    by (simp add: total_def)
  ultimately show ?thesis using requests_conserved[OF refl, of sample_events] by simp
qed

text \<open>
  The id of a request is the caller's choice, and two requests in flight under one id are
  counted as one: whichever is answered first takes the other's place, the second answer is
  not counted, and nothing is in flight while it is still being served.
\<close>

theorem shared_id_miscounted:
  assumes "in_flight c = []"
  shows "let (ref1, c1) = start_request t1 rid e1 m1 s1 c; (ref2, c2) = start_request t2 rid e2 m2 s2 c1;
             c3 = complete t3 ref1 rid status1 c2; c4 = complete t4 ref2 rid status2 c3
         in in_flight c3 = [] \<and> total (status_code_counts c4) = total (status_code_counts c) + 1 \<and>
            total_requests c4 = total_requests c + 2"
proof -
  have "AList.delete rid (AList.update rid r2 (AList.update rid r1 [])) = []" for r1 r2 :: nat by simp
  then show ?thesis
    using assms by (auto simp: start_request_def complete_def finish_request_def on_object_def Let_def)
qed

theorem shared_id_miscounted_witness:
  "in_flight (complete 3 0 ''x'' 200 (snd (start_request 1 ''x'' ''/v1'' ''m'' False
     (snd (start_request 0 ''x'' ''/v1'' ''m'' False new_collector))))) = []"
  using shared_id_miscounted[of new_collector 0 "''x''" "''/v1''" "''m''" False 1 "''/v1''" "''m''" False 3 200 4 200]
  by (simp add: new_collector_def start_request_def Let_def)

section \<open>Percentiles\<close>

text \<open>
  A percentile is where it says: more than the fraction of the values is at most the value
  returned, and no more than the fraction lies below it.
\<close>

theorem percentile_splits:
  assumes "sorted xs" and "xs \<noteq> []" and "0 \<le> f" and "f < 1"
  shows "of_nat (length xs) * f < of_nat (length (filter (\<lambda>x. x \<le> percentile xs f) xs)) \<and>
    of_nat (length (filter (\<lambda>x. x < percentile xs f) xs)) \<le> of_nat (length xs) * f \<and>
    percentile xs f \<in> set xs"
proof -
  let ?n = "length xs" and ?k = "nat \<lfloor>of_nat (length xs) * f\<rfloor>"
  have pos: "0 \<le> of_nat ?n * f" using assms(3) by simp
  have "of_nat ?n * f < of_nat ?n" using assms(2,4) by (simp add: mult_less_cancel_left1 flip: mult_1_right)
  then have k: "?k < ?n" using pos by (metis floor_less_iff nat_less_iff of_int_of_nat_eq zero_le_floor)
  then have "min (?n - 1) ?k = ?k" by simp
  then have v: "percentile xs f = xs ! ?k" by (simp add: percentile_def)
  have "Suc ?k \<le> length (filter (\<lambda>x. x \<le> xs ! ?k) xs)"
  proof -
    have "filter (\<lambda>x. x \<le> xs ! ?k) (take (Suc ?k) xs) = take (Suc ?k) xs"
      using assms(1) k by (auto simp: filter_id_conv in_set_conv_nth intro!: sorted_nth_mono)
    then have "length (filter (\<lambda>x. x \<le> xs ! ?k) (take (Suc ?k) xs)) = Suc ?k" using k by simp
    then show ?thesis by (metis append_take_drop_id filter_append length_append le_add1)
  qed
  moreover have "length (filter (\<lambda>x. x < xs ! ?k) xs) \<le> ?k"
  proof -
    have "filter (\<lambda>x. x < xs ! ?k) (drop ?k xs) = []"
      using assms(1) k by (auto simp: filter_empty_conv in_set_conv_nth not_less intro!: sorted_nth_mono)
    then have "filter (\<lambda>x. x < xs ! ?k) xs = filter (\<lambda>x. x < xs ! ?k) (take ?k xs)"
      by (metis append_Nil2 append_take_drop_id filter_append)
    then show ?thesis by (metis length_filter_le length_take min.bounded_iff order_trans)
  qed
  moreover have "of_nat ?k \<le> of_nat ?n * f" "of_nat ?n * f < of_nat (Suc ?k)"
    using pos by linarith+
  ultimately show ?thesis using v k by (auto simp: of_nat_le_iff[symmetric, where 'a = rat] simp del: of_nat_le_iff of_nat_Suc)
qed

theorem percentile_splits_witness:
  "percentile [10, 20, 30, 40] (1 / 2) \<in> {30} \<and>
   (2 :: rat) < of_nat (length (filter (\<lambda>x. x \<le> percentile [10, 20, 30, 40] (1 / 2)) [10, 20, 30, 40]))"
proof -
  have "percentile [10, 20, 30, 40] (1 / 2) = 30" by code_simp
  with percentile_splits[of "[10, 20, 30, 40]" "1 / 2"] show ?thesis by simp
qed

end
