(* ===== verification/Gateway.thy ===== *)
theory Gateway
  imports Upstream Access Metrics
begin

text \<open>
  The gateway as a whole: \<open>routes/health.py\<close>, \<open>routes/retrieval.py\<close>, the model listing of
  \<open>routes/openai_compat.py\<close>, the probes of \<open>proxy.py\<close>, and from \<open>main.py\<close> the two middlewares,
  the table of routes and the shutdown. Parameters: the answers of the model servers, the
  clock, fresh request ids, how a float is printed, and \<open>framework\<close>, the answer to a path or
  method that is no route of the sources. Headers added for CORS are not modelled.
\<close>

section \<open>State and surroundings\<close>

record gateway =
  app_settings :: settings
  rate_limiter :: limiter
  circuits :: registry
  metrics_collector :: collector
  shutting_down :: bool

text \<open>
  \<open>post url headers body n\<close> is the outcome of the n-th call, \<open>error_text\<close> what reading an error
  body gives and \<open>stream_chunks\<close> the stream; \<open>http_get url headers\<close> that of a GET, \<open>redis_ping\<close>
  whether Redis answers, \<open>random_below\<close> what \<open>secrets.randbelow\<close> draws.
\<close>

record env =
  digest :: "string \<Rightarrow> string"
  eval_literal :: "string \<Rightarrow> json option"
  post :: "string \<Rightarrow> (string \<times> string) list \<Rightarrow> dict \<Rightarrow> nat \<Rightarrow> outcome"
  error_text :: "exn + string"
  stream_chunks :: "string list \<times> exn option"
  http_get :: "string \<Rightarrow> (string \<times> string) list \<Rightarrow> outcome"
  redis_ping :: bool
  random_below :: "nat \<Rightarrow> nat \<Rightarrow> nat"
  limiter_clock :: "rat \<times> rat \<times> rat"
  breaker_clock :: "rat \<times> rat"
  request_clock :: "rat \<times> rat"
  chunk_clock :: "nat \<Rightarrow> rat"
  fresh_id :: string
  show_float :: "rat \<Rightarrow> string"
  show_places :: "nat \<Rightarrow> rat \<Rightarrow> string"
  utc_now :: string

record http_request =
  http_method :: string
  query :: "(string \<times> string) list"
  content_length :: "string option"
  id_header :: "string option"
  sender :: caller
  payload :: dict

text \<open>
  What is sent back: what the OpenAI routes answer, the document of a handler, a text, an
  \<open>HTTPException\<close> with headers; or an exception no handler is there for.
\<close>

datatype served =
    Answered answer
  | Document nat json
  | Plain nat string string
  | Refused nat json "(string \<times> string) list"
  | Crashed exn

fun answer_status :: "answer \<Rightarrow> nat" where
  "answer_status (Forwarded (Reply status media headers body)) = status"
| "answer_status (Forwarded (Stream status media headers chunks broken)) = status"
| "answer_status (Failed_with status body) = status"

fun served_status :: "served \<Rightarrow> nat" where
  "served_status (Answered a) = answer_status a"
| "served_status (Document status body) = status"
| "served_status (Plain status media body) = status"
| "served_status (Refused status body headers) = status"
| "served_status (Crashed e) = 500"

section \<open>Asking the model servers\<close>

definition server_root :: "string \<Rightarrow> string" where
  "server_root base_url =
     (let u = strip_slashes_right base_url in
      if suffix ''/v1'' u then take (length u - 3) u else u)"

definition probe_upstream :: "env \<Rightarrow> string \<Rightarrow> exn + bool" where
  "probe_upstream e base_url =
     (case http_get e (server_root base_url @ ''/health'') [] of
        Inl (Exception m) \<Rightarrow> Inl (Exception m)
      | Inl _ \<Rightarrow> Inr False
      | Inr response \<Rightarrow> Inr (status_code response = 200))"

text \<open>
  \<open>raise_for_status\<close> lets the 2xx through. \<open>data\<close> is what \<open>upstream.json().get("data")\<close> gives;
  \<open>len\<close> of a number raises, and so does \<open>get\<close> on what is no object.
\<close>

definition list_upstream_models :: "env \<Rightarrow> target \<Rightarrow> exn + json list option" where
  "list_upstream_models e t =
     (case http_get e (target_url t ''models'') (target_headers t None) of
        Inl (Exception m) \<Rightarrow> Inl (Exception m)
      | Inl _ \<Rightarrow> Inr None
      | Inr response \<Rightarrow>
          (if status_code response < 200 \<or> 300 \<le> status_code response then Inr None
           else
             (case json_loads (response_content response) of
                Inl _ \<Rightarrow> Inr None
              | Inr (JObj d) \<Rightarrow>
                  (case dict_get d ''data'' of
                     JArr xs \<Rightarrow> Inr (Some xs)
                   | JInt i \<Rightarrow> if i = 0 then Inr None else Inl (Exception ''object of type 'int' has no len()'')
                   | JBool b \<Rightarrow> if b then Inl (Exception ''object of type 'bool' has no len()'') else Inr None
                   | JFloat t \<Rightarrow>
                       if float_is_zero t then Inr None else Inl (Exception ''object of type 'float' has no len()'')
                   | _ \<Rightarrow> Inr None)
              | Inr _ \<Rightarrow> Inl (Exception ''object has no attribute 'get' ''))))"

definition models :: "env \<Rightarrow> settings \<Rightarrow> served" where
  "models e s =
     (let own = Document 200 (JObj [(''object'', JStr ''list''),
            (''data'', JArr (map (\<lambda>model. JObj [(''id'', JStr model), (''object'', JStr ''model''),
                 (''created'', JInt 0), (''owned_by'', JStr (app_name s))]) (served_models s)))])
      in if expose_upstream_models s then
           (case resolve_target s None of
              Inl err \<Rightarrow> Answered (route_error_handler err)
            | Inr t \<Rightarrow>
                (case list_upstream_models e t of
                   Inl err \<Rightarrow> Crashed err
                 | Inr (Some (x # xs)) \<Rightarrow> Document 200 (JObj [(''object'', JStr ''list''), (''data'', JArr (x # xs))])
                 | Inr _ \<Rightarrow> own))
         else own)"

definition forward :: "env \<Rightarrow> string \<Rightarrow> string option \<Rightarrow> bool \<Rightarrow> target \<Rightarrow> dict \<Rightarrow> registry \<Rightarrow>
    (forward_error + reply) \<times> registry" where
  "forward e path rid stream t body reg =
     (let func = post e (target_url t path) (target_headers t rid) body in
      if stream
      then forward_stream (fst (breaker_clock e)) (snd (breaker_clock e)) func (random_below e) (error_text e)
             (stream_chunks e) (target_base_url t) reg
      else forward_json (fst (breaker_clock e)) (snd (breaker_clock e)) func (random_below e)
             (target_base_url t) reg)"

section \<open>Retrieval\<close>

text \<open>\<open>embeddings\<close> and \<open>rerank\<close> differ in the target and the path.\<close>

definition retrieve :: "env \<Rightarrow> string \<Rightarrow> string \<Rightarrow> route_error + target \<Rightarrow> dict \<Rightarrow> registry \<Rightarrow> served \<times> registry" where
  "retrieve e path rid resolved body reg =
     (case resolved of
        Inl err \<Rightarrow> (Answered (route_error_handler err), reg)
      | Inr t \<Rightarrow>
          (case forward e path (Some rid) False t (dict_set ''model'' (JStr (target_model_id t)) body) reg of
             (Inr r, reg) \<Rightarrow> (Answered (Forwarded r), reg)
           | (Inl (Upstream err), reg) \<Rightarrow> (Answered (upstream_error_handler err), reg)
           | (Inl (Raised err), reg) \<Rightarrow> (Crashed err, reg)))"

definition embeddings :: "env \<Rightarrow> settings \<Rightarrow> string \<Rightarrow> dict \<Rightarrow> registry \<Rightarrow> served \<times> registry" where
  "embeddings e s rid body reg = retrieve e ''embeddings'' rid (resolve_embeddings_target s) body reg"

definition rerank :: "env \<Rightarrow> settings \<Rightarrow> string \<Rightarrow> dict \<Rightarrow> registry \<Rightarrow> served \<times> registry" where
  "rerank e s rid body reg = retrieve e ''rerank'' rid (resolve_rerank_target s) body reg"

section \<open>Health\<close>

definition healthz :: served where
  "healthz = Document 200 (JObj [(''status'', JStr ''ok'')])"

text \<open>The probes, in a dictionary by model id.\<close>

definition probe_all :: "env \<Rightarrow> settings \<Rightarrow> exn + (string \<times> bool) list" where
  "probe_all e s =
     (case probe_upstream e (upstream_base_url s) of
        Inl err \<Rightarrow> Inl err
      | Inr up \<Rightarrow>
          (if autocomplete_enabled s then
             (case probe_upstream e (autocomplete_base_url s) of
                Inl err \<Rightarrow> Inl err
              | Inr up2 \<Rightarrow> Inr (AList.update (autocomplete_model_id s) up2 [(model_id s, up)]))
           else Inr [(model_id s, up)]))"

definition upstreams_json :: "(string \<times> bool) list \<Rightarrow> json" where
  "upstreams_json ups = JObj (map (\<lambda>(k, b). (k, JBool b)) ups)"

definition readyz :: "env \<Rightarrow> settings \<Rightarrow> served" where
  "readyz e s =
     (case probe_all e s of
        Inl err \<Rightarrow> Crashed err
      | Inr ups \<Rightarrow>
          (let ready = list_all snd ups in
           Document (if ready then 200 else 503)
             (JObj [(''status'', JStr (if ready then ''ready'' else ''loading'')), (''upstreams'', upstreams_json ups)])))"

definition get_circuit_status :: "rat \<Rightarrow> string \<Rightarrow> registry \<Rightarrow> (circuit_state \<times> nat) \<times> registry" where
  "get_circuit_status now base_url reg =
     (let (b, reg) = get_circuit_breaker base_url reg in ((circuit b, failure_count now b), reg))"

definition circuit_status_json :: "circuit_state \<times> nat \<Rightarrow> json" where
  "circuit_status_json st =
     JObj [(''state'', JStr (state_name (fst st))), (''failures_in_window'', JInt (int (snd st)))]"

text \<open>The loop over the circuits: its list holds the primary model only, which it skips when
  autocompletion is on; so the part for autocompletion is never reached.\<close>

definition circuit_loop_body ::
  "rat \<Rightarrow> settings \<Rightarrow> string \<times> string \<Rightarrow> (string \<times> (circuit_state \<times> nat)) list \<times> bool \<times> registry \<Rightarrow>
     (string \<times> (circuit_state \<times> nat)) list \<times> bool \<times> registry" where
  "circuit_loop_body now s item acc =
     (let (model, base_url) = item; (seen, healthy, reg) = acc in
      if autocomplete_enabled s \<and> model = model_id s then (seen, healthy, reg)
      else
        (let (seen, healthy, reg) =
               (if autocomplete_enabled s then
                  (let (st, reg) = get_circuit_status now (autocomplete_base_url s) reg in
                   (AList.update (autocomplete_model_id s) st seen, healthy \<and> fst st \<noteq> Open, reg))
                else (seen, healthy, reg));
             (st, reg) = get_circuit_status now base_url reg
         in (AList.update model st seen, healthy \<and> fst st \<noteq> Open, reg)))"

definition circuit_statuses ::
  "rat \<Rightarrow> settings \<Rightarrow> registry \<Rightarrow> (string \<times> (circuit_state \<times> nat)) list \<times> bool \<times> registry" where
  "circuit_statuses now s reg =
     fold (circuit_loop_body now s) [(model_id s, upstream_base_url s)] ([], True, reg)"

definition readyz_detailed :: "env \<Rightarrow> gateway \<Rightarrow> served \<times> gateway" where
  "readyz_detailed e g =
     (let s = app_settings g in
      case probe_all e s of
        Inl err \<Rightarrow> (Crashed err, g)
      | Inr ups \<Rightarrow>
          (let (statuses, all_circuits_healthy, reg) = circuit_statuses (fst (breaker_clock e)) s (circuits g);
               rate_limiter_healthy = (redis_client (rate_limiter g) \<longrightarrow> redis_ping e);
               ready = (list_all snd ups \<and> rate_limiter_healthy \<and> all_circuits_healthy)
           in (Document (if ready then 200 else 503) (JObj
                 [(''status'', JStr (if ready then ''ready'' else ''degraded'')),
                  (''upstreams'', upstreams_json ups),
                  (''rate_limiter'', JStr (if rate_limiter_healthy then ''ok'' else ''redis_connection_lost'')),
                  (''circuit_breakers'', JObj (map (\<lambda>(k, st). (k, circuit_status_json st)) statuses)),
                  (''shutting_down'', JBool (shutting_down g))]),
               g\<lparr>circuits := reg\<rparr>)))"

section \<open>Operations\<close>

definition circuit_breaker_json :: "env \<Rightarrow> breaker \<Rightarrow> json" where
  "circuit_breaker_json e b =
     JObj [(''state'', JStr (state_name (circuit b))),
           (''failures_in_window'', JInt (int (failure_count (fst (breaker_clock e)) b))),
           (''failure_window'', JFloat (show_float e (failure_window b))),
           (''failure_threshold'', JInt (int (failure_threshold b))),
           (''open_timeout'', JFloat (show_float e (open_timeout b)))]"

definition get_all_circuit_breakers :: "registry \<Rightarrow> (string \<times> breaker) list" where
  "get_all_circuit_breakers reg = reg"

definition get_circuit_breakers :: "env \<Rightarrow> registry \<Rightarrow> served" where
  "get_circuit_breakers e reg =
     Document 200 (JObj (map (\<lambda>(base_url, b). (base_url, circuit_breaker_json e b)) (get_all_circuit_breakers reg)))"

definition reset_circuit_breaker_endpoint :: "string option \<Rightarrow> registry \<Rightarrow> served \<times> registry" where
  "reset_circuit_breaker_endpoint base_url reg =
     (Document 200
        (case base_url of
           Some (c # cs) \<Rightarrow> JObj [(''status'', JStr ''circuit_breaker_reset''), (''base_url'', JStr (c # cs)),
               (''state'', JStr ''closed'')]
         | _ \<Rightarrow> JObj [(''status'', JStr ''all_circuit_breakers_reset''), (''state'', JStr ''closed'')]),
      reset_circuit_breaker base_url reg)"

definition VERSION :: string where "VERSION = ''0.4.1''"

definition version :: "settings \<Rightarrow> served" where
  "version s =
     Document 200 (JObj [(''name'', JStr (app_name s)), (''version'', JStr VERSION),
       (''models'', JArr (map JStr (served_models s))), (''authenticated'', JBool (api_key_set s \<noteq> []))])"

definition root_page :: "settings \<Rightarrow> served" where
  "root_page s =
     Document 200 (JObj [(''service'', JStr (app_name s)), (''version'', JStr VERSION), (''model'', JStr (model_id s)),
       (''openai_base_url'', JStr ''/v1''), (''docs'', JStr ''/docs'')])"

definition counts_json :: "(string \<times> nat) list \<Rightarrow> json" where
  "counts_json d = JObj (map (\<lambda>(k, n). (k, JInt (int n))) d)"

definition summary_json :: "env \<Rightarrow> summary \<Rightarrow> json" where
  "summary_json e m =
     JObj [(''total_requests'', JInt (int (sum_requests m))), (''total_errors'', JInt (int (sum_errors m))),
       (''error_rate'', JFloat (show_float e (sum_error_rate m))),
       (''endpoint_counts'', counts_json (sum_endpoints m)),
       (''status_code_counts'', counts_json (map (\<lambda>(k, n). (str_int k, n)) (sum_statuses m))),
       (''error_counts'', counts_json (sum_error_counts m)), (''rate_limit_hits'', counts_json (sum_rate_limit_hits m)),
       (''model_usage'', counts_json (sum_models m)), (''active_requests'', JInt (int (sum_active m))),
       (''timestamp'', JStr (utc_now e))]"

definition stat_json :: "env \<Rightarrow> bool \<Rightarrow> string \<times> rat \<Rightarrow> string \<times> json" where
  "stat_json e sampled st =
     (fst st,
      if fst st \<in> {''active_requests'', ''sample_size''} \<or> \<not> sampled \<and> fst st = ''average_response_time_ms''
      then JInt \<lfloor>snd st\<rfloor> else JFloat (show_float e (snd st)))"

definition metrics_page :: "env \<Rightarrow> string \<Rightarrow> collector \<Rightarrow> served" where
  "metrics_page e format c =
     (if format = ''prometheus''
      then Plain 200 ''text/plain; version=0.0.4; charset=utf-8'' (render_prometheus (show_places e) c)
      else Document 200 (JObj [(''summary'', summary_json e (get_summary c)),
        (''request_stats'', JObj (map (stat_json e (durations c \<noteq> [])) (get_request_stats c)))]))"

definition upstream_metrics :: "env \<Rightarrow> settings \<Rightarrow> served" where
  "upstream_metrics e s =
     (let root = server_root (upstream_base_url s) in
      case http_get e (root @ ''/metrics'') [] of
        Inl (Exception m) \<Rightarrow> Crashed (Exception m)
      | Inl err \<Rightarrow>
          Answered (upstream_error_handler
            (UpstreamError (''Cannot reach model server metrics at '' @ root @ '': '' @ exn_text err) 502))
      | Inr response \<Rightarrow>
          Plain (status_code response) (header (response_headers response) ''content-type'' ''text/plain'')
            (response_content response))"

section \<open>Routes\<close>

text \<open>The dependency of the \<open>/v1\<close> routes, and what its exceptions are rendered as.\<close>

definition guarded :: "env \<Rightarrow> http_request \<Rightarrow> (gateway \<Rightarrow> served \<times> gateway) \<Rightarrow> gateway \<Rightarrow> served \<times> gateway" where
  "guarded e r handler g =
     (let (t0, t1, t2) = limiter_clock e;
          (verdict, l) = require_api_key (digest e) t0 t1 t2 (app_settings g) (sender r) (rate_limiter g);
          g = g\<lparr>rate_limiter := l\<rparr>
      in case verdict of
           Admitted \<Rightarrow> handler g
         | Throttled m headers \<Rightarrow>
             (Refused 429 (error_body m ''rate_limit_exceeded'' (Some ''rate_limit_exceeded'')) headers, g)
         | Unauthorized m headers \<Rightarrow>
             (Refused 401 (error_body m ''invalid_request_error'' (Some ''invalid_api_key'')) headers, g)
         | TypeError \<Rightarrow> (Crashed (Exception ''comparing strings with non-ASCII characters is not supported''), g))"

text \<open>The model whose use \<open>_handle\<close> records: the routed one, once the body is prepared.\<close>

definition model_used :: "env \<Rightarrow> settings \<Rightarrow> dict \<Rightarrow> string option" where
  "model_used e s body =
     (if dict_has body ''model'' \<and> as_str (dict_get body ''model'') = None then None
      else
        (case resolve_target s (as_str (dict_get body ''model'')) of
           Inl _ \<Rightarrow> None
         | Inr t \<Rightarrow>
             (case prepare_payload (eval_literal e) body t s of
                Inl _ \<Rightarrow> None | Inr _ \<Rightarrow> Some (target_model_id t))))"

definition openai_route :: "env \<Rightarrow> string \<Rightarrow> string \<Rightarrow> http_request \<Rightarrow> gateway \<Rightarrow> served \<times> gateway" where
  "openai_route e path rid r g =
     (let (a, reg) = handle (eval_literal e) (app_settings g) (forward e path (Some rid)) (payload r) (circuits g)
      in (Answered a,
          g\<lparr>circuits := reg,
            metrics_collector :=
              (case model_used e (app_settings g) (payload r) of
                 None \<Rightarrow> metrics_collector g
               | Some model \<Rightarrow> record_model_usage model (metrics_collector g))\<rparr>))"

definition on_circuits :: "(registry \<Rightarrow> served \<times> registry) \<Rightarrow> gateway \<Rightarrow> served \<times> gateway" where
  "on_circuits f g = (let (a, reg) = f (circuits g) in (a, g\<lparr>circuits := reg\<rparr>))"

text \<open>\<open>None\<close>: no route of the sources.\<close>

definition route :: "env \<Rightarrow> string \<Rightarrow> http_request \<Rightarrow> (gateway \<Rightarrow> served \<times> gateway) option" where
  "route e rid r =
     map_of
       [((''POST'', ''/admin/circuit-breaker/reset''),
           on_circuits (reset_circuit_breaker_endpoint (map_of (query r) ''base_url''))),
        ((''GET'', ''/admin/circuit-breakers''), \<lambda>g. (get_circuit_breakers e (circuits g), g)),
        ((''GET'', ''/healthz''), \<lambda>g. (healthz, g)),
        ((''GET'', ''/readyz''), \<lambda>g. (readyz e (app_settings g), g)),
        ((''GET'', ''/version''), \<lambda>g. (version (app_settings g), g)),
        ((''GET'', ''/metrics''), \<lambda>g. (metrics_page e
            (case map_of (query r) ''format'' of Some f \<Rightarrow> f | None \<Rightarrow> ''json'') (metrics_collector g), g)),
        ((''GET'', ''/metrics/upstream''), \<lambda>g. (upstream_metrics e (app_settings g), g)),
        ((''GET'', ''/readyz/detailed''), readyz_detailed e),
        ((''GET'', ''/v1/models''), guarded e r (\<lambda>g. (models e (app_settings g), g))),
        ((''POST'', ''/v1/chat/completions''), guarded e r (openai_route e ''chat/completions'' rid r)),
        ((''POST'', ''/v1/completions''), guarded e r (openai_route e ''completions'' rid r)),
        ((''POST'', ''/v1/embeddings''), guarded e r (\<lambda>g. on_circuits (embeddings e (app_settings g) rid (payload r)) g)),
        ((''POST'', ''/v1/rerank''), guarded e r (\<lambda>g. on_circuits (rerank e (app_settings g) rid (payload r)) g)),
        ((''GET'', ''/''), \<lambda>g. (root_page (app_settings g), g))]
       (http_method r, url_path (sender r))"

definition dispatch ::
  "(http_request \<Rightarrow> served) \<Rightarrow> env \<Rightarrow> string \<Rightarrow> http_request \<Rightarrow> gateway \<Rightarrow> served \<times> gateway" where
  "dispatch framework e rid r g =
     (case route e rid r of Some handler \<Rightarrow> handler g | None \<Rightarrow> (framework r, g))"

section \<open>Middlewares\<close>

definition MAX_REQUEST_SIZE :: int where "MAX_REQUEST_SIZE = 10 * 1024 * 1024"

definition request_size_limit :: "(http_request \<Rightarrow> gateway \<Rightarrow> served \<times> gateway) \<Rightarrow> http_request \<Rightarrow> gateway \<Rightarrow> served \<times> gateway" where
  "request_size_limit call_next r g =
     (case content_length r of
        Some (c # cs) \<Rightarrow>
          (case py_int (c # cs) of
             None \<Rightarrow> (Crashed (Exception ''invalid literal for int() with base 10''), g)
           | Some n \<Rightarrow>
               if n > MAX_REQUEST_SIZE
               then (Refused 413 (error_body
                       (''Request body too large. Maximum size is '' @ str_int (MAX_REQUEST_SIZE div (1024 * 1024)) @ ''MB.'')
                       ''request_entity_too_large'' None) [], g)
               else call_next r g)
      | _ \<Rightarrow> call_next r g)"

fun body_chunks :: "served \<Rightarrow> nat" where
  "body_chunks (Answered (Forwarded (Stream status media headers chunks broken))) = length chunks"
| "body_chunks (Crashed e) = 0"
| "body_chunks _ = 1"

definition on_collector :: "(collector \<Rightarrow> collector) \<Rightarrow> gateway \<Rightarrow> gateway" where
  "on_collector f g = g\<lparr>metrics_collector := f (metrics_collector g)\<rparr>"

text \<open>
  One request from start to the end of its body: the id told to the client, if any, and the
  answer. \<open>call_next\<close> is given the id.
\<close>

definition request_id :: "env \<Rightarrow> http_request \<Rightarrow> string" where
  "request_id e r = (case id_header r of Some (c # cs) \<Rightarrow> c # cs | _ \<Rightarrow> fresh_id e)"

definition access_log ::
  "env \<Rightarrow> (string \<Rightarrow> http_request \<Rightarrow> gateway \<Rightarrow> served \<times> gateway) \<Rightarrow> http_request \<Rightarrow> gateway \<Rightarrow>
     (string option \<times> served) \<times> gateway" where
  "access_log e call_next r g =
     (if shutting_down g then
        ((None, Refused 503 (error_body ''Server is shutting down. Please retry shortly.'' ''service_unavailable'' None)
            [(''Retry-After'', ''5'')]), g)
      else
        (let rid = request_id e r;
             model = (case map_of (query r) ''model'' of Some (c # cs) \<Rightarrow> c # cs | _ \<Rightarrow> ''unknown'');
             streamed = (py_lower (case map_of (query r) ''stream'' of Some v \<Rightarrow> v | None \<Rightarrow> ''false'') = ''true'');
             (ref, c) = start_request (fst (request_clock e)) rid (url_path (sender r)) model streamed (metrics_collector g);
             (a, g) = call_next rid r (g\<lparr>metrics_collector := c\<rparr>);
             g = on_collector (fold (\<lambda>i. on_object ref (first_byte (chunk_clock e i))) [0..<body_chunks a]) g;
             g = on_collector (complete (snd (request_clock e)) ref rid (int (served_status a))) g
         in ((case a of Crashed _ \<Rightarrow> None | _ \<Rightarrow> Some rid, a), g)))"

definition serve ::
  "(http_request \<Rightarrow> served) \<Rightarrow> env \<Rightarrow> http_request \<Rightarrow> gateway \<Rightarrow> (string option \<times> served) \<times> gateway" where
  "serve framework e = access_log e (\<lambda>rid. request_size_limit (dispatch framework e rid))"

section \<open>Shutting down\<close>

text \<open>
  \<open>active n\<close> and \<open>clock n\<close> are the requests in flight and the time at round n. The result is the
  round it ends in, and whether it gave up. A loop that never ends is \<open>None\<close>.
\<close>

definition SHUTDOWN_TIMEOUT :: rat where "SHUTDOWN_TIMEOUT = 30"

partial_function (option) drain :: "(nat \<Rightarrow> nat) \<Rightarrow> (nat \<Rightarrow> rat) \<Rightarrow> rat \<Rightarrow> nat \<Rightarrow> (nat \<times> bool) option" where
  "drain active clock start n =
     (if active n > 0 then
        (if clock n - start \<ge> SHUTDOWN_TIMEOUT then Some (n, True)
         else drain active clock start (n + 1))
      else Some (n, False))"

definition begin_shutdown :: "gateway \<Rightarrow> gateway" where
  "begin_shutdown g = g\<lparr>shutting_down := True\<rparr>"

section \<open>Who reaches the model server\<close>

text \<open>The same surroundings with other model servers.\<close>

definition with_servers ::
  "(string \<Rightarrow> (string \<times> string) list \<Rightarrow> dict \<Rightarrow> nat \<Rightarrow> outcome) \<Rightarrow>
   (string \<Rightarrow> (string \<times> string) list \<Rightarrow> outcome) \<Rightarrow> env \<Rightarrow> env" where
  "with_servers sent got e = e\<lparr>post := sent, http_get := got\<rparr>"

lemma with_servers_simps [simp]:
  "digest (with_servers sent got e) = digest e"
  "limiter_clock (with_servers sent got e) = limiter_clock e"
  "request_clock (with_servers sent got e) = request_clock e"
  "chunk_clock (with_servers sent got e) = chunk_clock e"
  "fresh_id (with_servers sent got e) = fresh_id e"
  by (simp_all add: with_servers_def)

definition v1_path :: "string \<Rightarrow> bool" where
  "v1_path path \<longleftrightarrow> prefix ''/v1/'' path"

lemma not_admitted:
  assumes "api_key_set s \<noteq> []" and "list_all is_ascii (api_key_set s)" and "presented r \<notin> set (api_key_set s)"
  shows "fst (require_api_key sha256 t0 t1 t2 s r l) \<noteq> Admitted"
  using assms any_matches_ascii[OF assms(2), of "presented r"]
  by (auto simp: require_api_key_def Let_def throttled_reply_def unauthorized_reply_def
      split: prod.split option.split bool.split)

lemma guarded_turned_away:
  assumes "api_key_set (app_settings g) \<noteq> []" and "list_all is_ascii (api_key_set (app_settings g))"
    and "presented (sender r) \<notin> set (api_key_set (app_settings g))"
  shows "\<exists>a l. \<forall>sent got handler. guarded (with_servers sent got e) r handler g = (a, g\<lparr>rate_limiter := l\<rparr>)"
proof -
  obtain t0 t1 t2 where clock: "limiter_clock e = (t0, t1, t2)" by (cases "limiter_clock e")
  obtain v l where v: "require_api_key (digest e) t0 t1 t2 (app_settings g) (sender r) (rate_limiter g) = (v, l)"
    by fastforce
  with not_admitted[OF assms, of "digest e" t0 t1 t2 "rate_limiter g"] have "v \<noteq> Admitted" by simp
  then show ?thesis by (cases v) (auto simp: guarded_def clock v)
qed

lemma v1_dispatch_turned_away:
  assumes "api_key_set (app_settings g) \<noteq> []" and "list_all is_ascii (api_key_set (app_settings g))"
    and "presented (sender r) \<notin> set (api_key_set (app_settings g))" and "v1_path (url_path (sender r))"
  shows "\<exists>a l. \<forall>sent got. dispatch framework (with_servers sent got e) rid r g = (a, g\<lparr>rate_limiter := l\<rparr>)"
proof -
  obtain a l where a: "guarded (with_servers sent got e) r handler g = (a, g\<lparr>rate_limiter := l\<rparr>)"
    for sent got handler using guarded_turned_away[OF assms(1-3), of e] by blast
  have same: "\<exists>l. g = g\<lparr>rate_limiter := l\<rparr>" by (rule exI[of _ "rate_limiter g"]) simp
  show ?thesis
  proof (cases "url_path (sender r) \<in> {''/v1/models'', ''/v1/chat/completions'', ''/v1/completions'',
      ''/v1/embeddings'', ''/v1/rerank''}")
    case True
    then show ?thesis
      by (cases "http_method r = ''GET''"; cases "http_method r = ''POST''")
        (auto simp: dispatch_def route_def a same)
  next
    case False
    with assms(4) have "route (with_servers sent got e) rid r = None" for sent got
      by (auto simp: route_def v1_path_def)
    with same show ?thesis by (simp add: dispatch_def)
  qed
qed

lemma on_collector_fields [simp]:
  "circuits (on_collector f g) = circuits g" "rate_limiter (on_collector f g) = rate_limiter g"
  "app_settings (on_collector f g) = app_settings g" "shutting_down (on_collector f g) = shutting_down g"
  "metrics_collector (on_collector f g) = f (metrics_collector g)"
  by (simp_all add: on_collector_def)

lemma access_log_cong:
  assumes "\<And>c. call_next rid r (g\<lparr>metrics_collector := c\<rparr>) = call_next' rid r (g\<lparr>metrics_collector := c\<rparr>)"
    and "rid = request_id e r"
  shows "access_log e call_next r g = access_log e call_next' r g"
  using assms by (simp add: access_log_def Let_def split_beta)

lemma request_id_servers [simp]: "request_id (with_servers sent got e) = request_id e"
  by (simp add: request_id_def fun_eq_iff split: option.split list.split)

lemma access_log_servers [simp]: "access_log (with_servers sent got e) next = access_log e next"
  by (simp add: access_log_def fun_eq_iff Let_def)

text \<open>
  C8. A request to a \<open>/v1\<close> path without a configured key never reaches a model server: whatever
  the servers would answer, the outcome is the same, and no circuit is touched. This holds
  for every method, with the middlewares around and a body of any size.
\<close>

theorem keyless_reaches_no_server:
  assumes "api_key_set (app_settings g) \<noteq> []" and "list_all is_ascii (api_key_set (app_settings g))"
    and "presented (sender r) \<notin> set (api_key_set (app_settings g))" and "v1_path (url_path (sender r))"
  shows "serve framework (with_servers sent got e) r g = serve framework e r g \<and>
    circuits (snd (serve framework e r g)) = circuits g"
proof -
  define rid where "rid = request_id e r"
  have own: "with_servers (post e) (http_get e) e = e" by (simp add: with_servers_def)
  have "\<exists>a l. \<forall>sent got. dispatch framework (with_servers sent got e) rid r (g\<lparr>metrics_collector := c\<rparr>) =
      (a, g\<lparr>metrics_collector := c, rate_limiter := l\<rparr>)" for c
    using v1_dispatch_turned_away[of "g\<lparr>metrics_collector := c\<rparr>" r framework e rid] assms by simp
  then obtain a l where d: "dispatch framework (with_servers sent got e) rid r (g\<lparr>metrics_collector := c\<rparr>) =
      (a c, g\<lparr>metrics_collector := c, rate_limiter := l c\<rparr>)" for sent got c by metis
  have d0: "dispatch framework e rid r (g\<lparr>metrics_collector := c\<rparr>) =
      (a c, g\<lparr>metrics_collector := c, rate_limiter := l c\<rparr>)" for c
    using d[of "post e" "http_get e"] own by simp
  have "serve framework (with_servers sent got e) r g = serve framework e r g"
    unfolding serve_def access_log_servers
    by (rule access_log_cong[OF _ rid_def]) (simp add: request_size_limit_def d d0 split: option.split list.split)
  moreover have "circuits (snd (request_size_limit (dispatch framework e rid) r (g\<lparr>metrics_collector := c\<rparr>))) = circuits g" for c
    by (simp add: request_size_limit_def d0 split: option.split list.split)
  then have "circuits (snd (serve framework e r g)) = circuits g"
    by (simp add: serve_def access_log_def Let_def split_beta rid_def)
  ultimately show ?thesis by simp
qed

definition sample_env :: env where
  "sample_env =
     \<lparr>digest = id, eval_literal = (\<lambda>_. None),
      post = (\<lambda>url headers body n. Inr \<lparr>status_code = 200, response_headers = [], response_content = ''{}''\<rparr>),
      error_text = Inr [], stream_chunks = ([''data: [DONE]''], None),
      http_get = (\<lambda>url headers. Inr \<lparr>status_code = 200, response_headers = [], response_content = ''{}''\<rparr>),
      redis_ping = True, random_below = (\<lambda>_ _. 0), limiter_clock = (0, 0, 0), breaker_clock = (0, 0),
      request_clock = (0, 1), chunk_clock = (\<lambda>_. 0), fresh_id = ''0123456789ab'', show_float = (\<lambda>_. ''0.0''),
      show_places = (\<lambda>_ _. ''0.0''), utc_now = ''2026-01-01T00:00:00+00:00''\<rparr>"

definition sample_gateway :: gateway where
  "sample_gateway =
     \<lparr>app_settings = default_settings\<lparr>api_keys := ''alpha-key, beta-key''\<rparr>,
      rate_limiter = RateLimiter default_config False 0, circuits = [],
      metrics_collector = new_collector, shutting_down = False\<rparr>"

definition sample_request :: "string \<Rightarrow> string \<Rightarrow> string \<Rightarrow> http_request" where
  "sample_request method path token =
     \<lparr>http_method = method, query = [], content_length = Some ''2'', id_header = None,
      sender = \<lparr>credentials = Some token, forwarded_for = None, client_host = None, url_path = path\<rparr>,
      payload = []\<rparr>"

theorem keyless_reaches_no_server_witness:
  "serve (\<lambda>_. Plain 404 [] []) (with_servers (\<lambda>_ _ _ _. Inl (Exception ''any'')) (\<lambda>_ _. Inl (Exception ''any'')) sample_env)
      (sample_request ''POST'' ''/v1/chat/completions'' ''gamma'') sample_gateway =
    serve (\<lambda>_. Plain 404 [] []) sample_env (sample_request ''POST'' ''/v1/chat/completions'' ''gamma'') sample_gateway"
  by (rule conjunct1[OF keyless_reaches_no_server, of sample_gateway]) code_simp+

section \<open>What every request leaves behind\<close>

definition keeps_books :: "(gateway \<Rightarrow> served \<times> gateway) \<Rightarrow> bool" where
  "keeps_books handler \<longleftrightarrow>
     (\<forall>g. \<exists>us. metrics_collector (snd (handler g)) = (metrics_collector g)\<lparr>model_usage := us\<rparr>)"

lemma books_same: "\<exists>us. c = c\<lparr>model_usage := us\<rparr>" for c :: collector
  by (rule exI[of _ "model_usage c"]) simp

lemma keeps_books_handlers [simp]:
  "keeps_books (\<lambda>g. (f g, g))"
  "keeps_books (on_circuits k)"
  "keeps_books (\<lambda>g. on_circuits (k' g) g)"
  "keeps_books (readyz_detailed e)"
  "keeps_books (openai_route e path rid r)"
proof -
  show "keeps_books (openai_route e path rid r)" unfolding keeps_books_def
  proof
    fix g
    show "\<exists>us. metrics_collector (snd (openai_route e path rid r g)) = (metrics_collector g)\<lparr>model_usage := us\<rparr>"
      by (cases "model_used e (app_settings g) (payload r)")
        (auto simp: openai_route_def record_model_usage_def books_same split: prod.split)
  qed
qed (auto simp: keeps_books_def on_circuits_def readyz_detailed_def books_same Let_def
    split: prod.split sum.split)

lemma keeps_books_guarded [simp]: "keeps_books handler \<Longrightarrow> keeps_books (guarded e r handler)"
  unfolding keeps_books_def
proof
  fix g :: gateway
  assume handler: "\<forall>g. \<exists>us. metrics_collector (snd (handler g)) = (metrics_collector g)\<lparr>model_usage := us\<rparr>"
  obtain t0 t1 t2 where clock: "limiter_clock e = (t0, t1, t2)" by (cases "limiter_clock e")
  obtain v l where v: "require_api_key (digest e) t0 t1 t2 (app_settings g) (sender r) (rate_limiter g) = (v, l)"
    by fastforce
  show "\<exists>us. metrics_collector (snd (guarded e r handler g)) = (metrics_collector g)\<lparr>model_usage := us\<rparr>"
    using handler[rule_format, of "g\<lparr>rate_limiter := l\<rparr>"]
    by (cases v) (simp_all add: guarded_def clock v books_same)
qed

lemma keeps_books_route: "route e rid r = Some handler \<Longrightarrow> keeps_books handler"
  unfolding route_def by (drule map_of_SomeD) auto

lemma dispatch_metrics:
  "\<exists>us. metrics_collector (snd (dispatch framework e rid r g)) = (metrics_collector g)\<lparr>model_usage := us\<rparr>"
  using keeps_books_route[of e rid r]
  by (cases "route e rid r") (auto simp: dispatch_def books_same keeps_books_def)

lemma size_limit_metrics:
  assumes "\<And>g. \<exists>us. metrics_collector (snd (next r g)) = (metrics_collector g)\<lparr>model_usage := us\<rparr>"
  shows "\<exists>us. metrics_collector (snd (request_size_limit next r g)) = (metrics_collector g)\<lparr>model_usage := us\<rparr>"
proof -
  have "\<exists>us. metrics_collector g = (metrics_collector g)\<lparr>model_usage := us\<rparr>"
    by (rule exI[of _ "model_usage (metrics_collector g)"]) simp
  with assms show ?thesis by (simp add: request_size_limit_def split: option.split list.split)
qed

lemma first_bytes_fields [simp]:
  "in_flight (fold (\<lambda>i. on_object ref (first_byte (clock i))) is c) = in_flight c"
  "total_requests (fold (\<lambda>i. on_object ref (first_byte (clock i))) is c) = total_requests c"
  "endpoint_counts (fold (\<lambda>i. on_object ref (first_byte (clock i))) is c) = endpoint_counts c"
  "status_code_counts (fold (\<lambda>i. on_object ref (first_byte (clock i))) is c) = status_code_counts c"
  by (induction "is" arbitrary: c) (simp_all add: on_object_def)

text \<open>
  C18. Serving leaves nothing behind in the books. A request whose id no request in flight has
  is counted once, under its path and under the status sent, and is no longer in flight
  afterwards, whatever the route answers, an error or an exception included; unless the gateway
  is shutting down, which turns it away and changes nothing. The id is the client's to choose;
  with one in use the counts go wrong (\<open>Metrics.shared_id_miscounted\<close>).
\<close>

theorem served_is_closed:
  assumes "request_id e r \<notin> fst ` set (in_flight (metrics_collector g))"
    and "serve framework e r g = ((rid, a), g')"
  shows "if shutting_down g then g' = g \<and> served_status a = 503 else
    in_flight (metrics_collector g') = in_flight (metrics_collector g) \<and>
    total_requests (metrics_collector g') = total_requests (metrics_collector g) + 1 \<and>
    endpoint_counts (metrics_collector g') = bump (url_path (sender r)) (endpoint_counts (metrics_collector g)) \<and>
    status_code_counts (metrics_collector g') =
      bump (int (served_status a)) (status_code_counts (metrics_collector g))"
proof (cases "shutting_down g")
  case True
  with assms(2) show ?thesis by (auto simp: serve_def access_log_def)
next
  case False
  define id where "id = request_id e r"
  define c where "c = metrics_collector g"
  define c1 where "c1 = snd (start_request (fst (request_clock e)) id (url_path (sender r))
      (case map_of (query r) ''model'' of Some (c # cs) \<Rightarrow> c # cs | _ \<Rightarrow> ''unknown'')
      (py_lower (case map_of (query r) ''stream'' of Some v \<Rightarrow> v | None \<Rightarrow> ''false'') = ''true'') c)"
  define d where "d = request_size_limit (dispatch framework e id) r (g\<lparr>metrics_collector := c1\<rparr>)"
  obtain us where us: "metrics_collector (snd d) = c1\<lparr>model_usage := us\<rparr>"
    using size_limit_metrics[of "dispatch framework e id" r "g\<lparr>metrics_collector := c1\<rparr>"] dispatch_metrics
    by (auto simp: d_def)
  define c2 where "c2 = fold (\<lambda>i. on_object (length (objects c)) (first_byte (chunk_clock e i)))
      [0..<body_chunks (fst d)] (c1\<lparr>model_usage := us\<rparr>)"
  have started: "start_request (fst (request_clock e)) id (url_path (sender r))
      (case map_of (query r) ''model'' of Some (c # cs) \<Rightarrow> c # cs | _ \<Rightarrow> ''unknown'')
      (py_lower (case map_of (query r) ''stream'' of Some v \<Rightarrow> v | None \<Rightarrow> ''false'') = ''true'') c = (length (objects c), c1)"
    by (simp add: c1_def start_request_def Let_def)
  have g': "metrics_collector g' = complete (snd (request_clock e)) (length (objects c)) id (int (served_status (fst d))) c2"
    and a: "a = fst d"
    using False assms(2) started us
    by (simp_all add: serve_def access_log_def id_def[symmetric] Let_def split_beta d_def[symmetric] c_def[symmetric] c2_def)
     auto
  have "in_flight c1 = AList.update id (length (objects c)) (in_flight c)" "total_requests c1 = total_requests c + 1"
    "endpoint_counts c1 = bump (url_path (sender r)) (endpoint_counts c)" "status_code_counts c1 = status_code_counts c"
    by (simp_all add: c1_def start_request_def Let_def)
  then have "in_flight c2 = AList.update id (length (objects c)) (in_flight c)" "total_requests c2 = total_requests c + 1"
    "endpoint_counts c2 = bump (url_path (sender r)) (endpoint_counts c)" "status_code_counts c2 = status_code_counts c"
    by (simp_all add: c2_def)
  moreover have "AList.delete id (AList.update id v (in_flight c)) = in_flight c" for v
    using assms(1) by (simp add: delete_update_same id_def c_def)
  ultimately show ?thesis
    by (simp add: False g' a complete_def finish_request_def Let_def on_object_def update_conv' c_def)
qed

theorem served_is_closed_witness:
  "in_flight (metrics_collector (snd (serve (\<lambda>_. Plain 404 [] []) sample_env
      (sample_request ''POST'' ''/v1/chat/completions'' ''gamma'') sample_gateway))) = []"
proof -
  let ?s = "serve (\<lambda>_. Plain 404 [] []) sample_env (sample_request ''POST'' ''/v1/chat/completions'' ''gamma'') sample_gateway"
  have "?s = ((fst (fst ?s), snd (fst ?s)), snd ?s)" by simp
  from served_is_closed[OF _ this]
  have "in_flight (metrics_collector (snd ?s)) = in_flight (metrics_collector sample_gateway)"
    by (simp add: sample_gateway_def new_collector_def)
  then show ?thesis by (simp add: sample_gateway_def new_collector_def)
qed

section \<open>Readiness\<close>

definition is_up :: "env \<Rightarrow> string \<Rightarrow> bool" where
  "is_up e base_url =
     (case http_get e (server_root base_url @ ''/health'') [] of
        Inr response \<Rightarrow> status_code response = 200 | Inl _ \<Rightarrow> False)"

lemma probe_upstream_up: "probe_upstream e base_url = Inr b \<Longrightarrow> b = is_up e base_url"
  by (auto simp: probe_upstream_def is_up_def split: sum.splits exn.splits)

lemma probe_upstream_down: "probe_upstream e base_url = Inl x \<Longrightarrow> \<not> is_up e base_url"
  by (auto simp: probe_upstream_def is_up_def split: sum.splits exn.splits)

definition all_up :: "env \<Rightarrow> settings \<Rightarrow> bool" where
  "all_up e s \<longleftrightarrow>
     is_up e (upstream_base_url s) \<and> (autocomplete_enabled s \<longrightarrow> is_up e (autocomplete_base_url s))"

lemma probe_all_up:
  assumes "autocomplete_model_id s \<noteq> model_id s"
  shows "(case probe_all e s of Inl _ \<Rightarrow> False | Inr ups \<Rightarrow> list_all snd ups) = all_up e s"
  using assms probe_upstream_up[of e "upstream_base_url s"] probe_upstream_up[of e "autocomplete_base_url s"]
    probe_upstream_down[of e "upstream_base_url s"] probe_upstream_down[of e "autocomplete_base_url s"]
  by (auto simp: probe_all_def all_up_def split: sum.splits)

lemma readyz_status:
  "autocomplete_model_id s \<noteq> model_id s \<Longrightarrow> served_status (readyz e s) = 200 \<longleftrightarrow> all_up e s"
  using probe_all_up[of s e] by (auto simp: readyz_def Let_def split: sum.splits)

lemma readyz_detailed_status:
  assumes "autocomplete_model_id (app_settings g) \<noteq> model_id (app_settings g)"
  shows "served_status (fst (readyz_detailed e g)) = 200 \<longleftrightarrow>
    all_up e (app_settings g) \<and> (redis_client (rate_limiter g) \<longrightarrow> redis_ping e) \<and>
    fst (snd (circuit_statuses (fst (breaker_clock e)) (app_settings g) (circuits g)))"
  using probe_all_up[OF assms, of e] by (auto simp: readyz_detailed_def Let_def split: sum.splits prod.splits)

text \<open>
  Readiness. \<open>/readyz\<close> answers 200 exactly when every server it stands for answers its
  probe with 200; \<open>/readyz/detailed\<close> asks in addition that Redis answers, if it is in use, and
  that the circuit of the primary server is not open - but that last condition is dropped
  altogether as soon as autocompletion is enabled. The model ids must differ: the probes
  are kept by model id, so with equal ids one of them is lost.
\<close>

theorem readiness_exact:
  assumes "autocomplete_model_id (app_settings g) \<noteq> model_id (app_settings g)"
  shows "(served_status (readyz e (app_settings g)) = 200 \<longleftrightarrow> all_up e (app_settings g)) \<and>
    (served_status (fst (readyz_detailed e g)) = 200 \<longleftrightarrow>
       all_up e (app_settings g) \<and> (redis_client (rate_limiter g) \<longrightarrow> redis_ping e) \<and>
       (autocomplete_enabled (app_settings g) \<or>
        circuit (fst (get_circuit_breaker (upstream_base_url (app_settings g)) (circuits g))) \<noteq> Open))"
  using assms readyz_status[OF assms, of e] readyz_detailed_status[OF assms, of e]
  by (simp add: circuit_statuses_def circuit_loop_body_def get_circuit_status_def Let_def split: prod.split)

definition tripped :: breaker where
  "tripped = default_breaker\<lparr>circuit := Open, opened_at := Some 0\<rparr>"

theorem readiness_exact_witness:
  "served_status (fst (readyz_detailed sample_env (sample_gateway\<lparr>circuits := [(upstream_base_url default_settings, tripped)]\<rparr>))) \<noteq> 200 \<and>
   served_status (fst (readyz_detailed sample_env (sample_gateway\<lparr>circuits := [(upstream_base_url default_settings, tripped)],
     app_settings := default_settings\<lparr>autocomplete_enabled := True\<rparr>\<rparr>))) = 200"
proof
  show "served_status (fst (readyz_detailed sample_env (sample_gateway\<lparr>circuits := [(upstream_base_url default_settings, tripped)]\<rparr>))) \<noteq> 200"
    by (subst conjunct2[OF readiness_exact])
      (simp_all add: sample_gateway_def default_settings_def tripped_def get_circuit_breaker_def)
  have "all_up sample_env (default_settings\<lparr>autocomplete_enabled := True\<rparr>)" by code_simp
  then show "served_status (fst (readyz_detailed sample_env (sample_gateway\<lparr>circuits := [(upstream_base_url default_settings, tripped)],
     app_settings := default_settings\<lparr>autocomplete_enabled := True\<rparr>\<rparr>))) = 200"
    by (subst conjunct2[OF readiness_exact])
      (simp_all add: sample_gateway_def default_settings_def sample_env_def)
qed

section \<open>Operations without a key\<close>

text \<open>
  The routes that operate the gateway ask for no key: whoever can reach the port, with any
  token or none, and with whatever keys are configured, resets every circuit to closed.
\<close>

theorem anyone_closes_circuits:
  assumes "\<not> shutting_down g" and "http_method r = ''POST''" and "content_length r = None"
    and "url_path (sender r) = ''/admin/circuit-breaker/reset''" and "map_of (query r) ''base_url'' = None"
  shows "served_status (snd (fst (serve framework e r g))) = 200 \<and>
    circuits (snd (serve framework e r g)) = map (\<lambda>(url, b). (url, reset_breaker b)) (circuits g)"
  using assms
  by (simp add: serve_def access_log_def request_size_limit_def dispatch_def route_def on_circuits_def
      reset_circuit_breaker_endpoint_def reset_circuit_breaker_def start_request_def Let_def)

theorem anyone_closes_circuits_witness:
  "circuits (snd (serve (\<lambda>_. Plain 404 [] []) sample_env
     (sample_request ''POST'' ''/admin/circuit-breaker/reset'' []\<lparr>content_length := None\<rparr>)
     (sample_gateway\<lparr>circuits := [(upstream_base_url default_settings, tripped)]\<rparr>))) =
   [(upstream_base_url default_settings, default_breaker)]"
  by (subst conjunct2[OF anyone_closes_circuits])
    (simp_all add: sample_gateway_def sample_request_def tripped_def reset_breaker_def default_breaker_def new_breaker_def)

section \<open>Shutting down\<close>

lemma serve_shutting_down:
  "shutting_down g \<Longrightarrow> served_status (snd (fst (serve framework e r g))) = 503 \<and> snd (serve framework e r g) = g"
  by (simp add: serve_def access_log_def)

text \<open>
  Draining starts at \<open>start\<close>. \<open>clock n\<close> is read in round n, and a round takes at least the tenth
  of a second it sleeps.
\<close>

lemma clock_advances:
  fixes clock :: "nat \<Rightarrow> rat"
  assumes "\<And>n. clock n + 1 / 10 \<le> clock (n + 1)" and "start \<le> clock 0"
  shows "of_nat n / 10 \<le> clock n - start"
proof (induction n)
  case (Suc n)
  with assms(1)[of n] show ?case by (simp add: field_simps)
qed (use assms(2) in simp)

lemma drain_from:
  assumes "\<And>n. clock n + 1 / 10 \<le> clock (n + 1)" and "start \<le> clock 0" and "n \<le> 300"
  shows "\<exists>m gave_up. drain active clock start n = Some (m, gave_up) \<and> n \<le> m \<and> m \<le> 300 \<and>
    (gave_up \<longleftrightarrow> 0 < active m) \<and> (gave_up \<longrightarrow> 30 \<le> clock m - start) \<and>
    (\<forall>i. n \<le> i \<longrightarrow> i < m \<longrightarrow> 0 < active i \<and> clock i - start < 30)"
  using assms(3)
proof (induction "300 - n" arbitrary: n)
  case 0
  then have "n = 300" by simp
  moreover have "30 \<le> clock 300 - start" using clock_advances[OF assms(1,2), of 300] by simp
  ultimately show ?case by (subst drain.simps) (auto simp: SHUTDOWN_TIMEOUT_def)
next
  case (Suc k)
  show ?case
  proof (cases "active n > 0 \<and> \<not> SHUTDOWN_TIMEOUT \<le> clock n - start")
    case True
    from Suc obtain m gave_up where m: "drain active clock start (n + 1) = Some (m, gave_up)" "n + 1 \<le> m" "m \<le> 300"
      "gave_up \<longleftrightarrow> 0 < active m" "gave_up \<longrightarrow> 30 \<le> clock m - start"
      "\<forall>i. n + 1 \<le> i \<longrightarrow> i < m \<longrightarrow> 0 < active i \<and> clock i - start < 30"
      using Suc.hyps(1)[of "n + 1"] by fastforce
    have "0 < active i \<and> clock i - start < 30" if "n \<le> i" "i < m" for i
      using that True m(6) by (cases "i = n") (auto simp: SHUTDOWN_TIMEOUT_def)
    with True m show ?thesis by (subst drain.simps) auto
  next
    case False
    with Suc show ?thesis by (subst drain.simps) (auto simp: SHUTDOWN_TIMEOUT_def)
  qed
qed

text \<open>
  C40. A shutdown ends. The wait for the requests in flight returns within 300 rounds of a tenth
  of a second: as soon as none is left, or else at the first reading of the clock thirty
  seconds after it began. In the meantime every request that comes in is told 503, in any
  number, and the gateway stays as it is.
\<close>

theorem shutdown_ends:
  assumes "\<And>n. clock n + 1 / 10 \<le> clock (n + 1)" and "start \<le> clock 0"
  shows "(\<exists>m gave_up. drain active clock start 0 = Some (m, gave_up) \<and> m \<le> 300 \<and>
      (gave_up \<longleftrightarrow> 0 < active m) \<and> (gave_up \<longrightarrow> 30 \<le> clock m - start) \<and>
      (\<forall>i < m. 0 < active i \<and> clock i - start < 30)) \<and>
    after (serve framework e) rs (begin_shutdown g) = begin_shutdown g \<and>
    (\<forall>(r, a) \<in> set (trace (serve framework e) rs (begin_shutdown g)). served_status (snd a) = 503)"
proof -
  have "shutting_down (begin_shutdown g)" by (simp add: begin_shutdown_def)
  note refused = serve_shutting_down[OF this, of framework e]
  have "after (serve framework e) rs (begin_shutdown g) = begin_shutdown g \<and>
      (\<forall>(r, a) \<in> set (trace (serve framework e) rs (begin_shutdown g)). served_status (snd a) = 503)"
    by (induction rs) (auto simp: refused)
  with drain_from[where clock = clock and start = start and n = 0 and active = active] assms show ?thesis
    by fastforce
qed

theorem shutdown_ends_witness:
  "\<exists>m gave_up. drain (\<lambda>n. if n < 3 then 2 else 0) (\<lambda>n. of_nat n / 10) 0 0 = Some (m, gave_up)"
proof -
  define clock :: "nat \<Rightarrow> rat" where "clock n = of_nat n / 10" for n
  have "clock n + 1 / 10 \<le> clock (n + 1)" and "0 \<le> clock 0" for n
    by (simp_all add: clock_def field_simps)
  from conjunct1[OF shutdown_ends[where clock = clock and start = 0, OF this], of "\<lambda>n. if n < 3 then 2 else 0"]
  show ?thesis unfolding clock_def by blast
qed

end
