(* ===== verification/End_To_End.thy ===== *)
theory End_To_End
  imports Requests Gateway
begin

text \<open>
  The two programs together: a turn of the agent (\<open>client.py\<close>) over the gateway
  (\<open>main.py\<close>, \<open>deps.py\<close>, \<open>routes/openai_compat.py\<close>, \<open>proxy.py\<close>). What lies between them is a
  parameter, the wire: how the web framework renders JSON, how the HTTP client cuts a stream into
  lines, and what it says of a stream that breaks off.
\<close>

section \<open>The wire\<close>

text \<open>\<open>HTTPBearer\<close>: the token after the scheme.\<close>

definition bearer :: "(string \<times> string) list \<Rightarrow> string option" where
  "bearer headers =
     (case map_of headers ''authorization'' of
        Some v \<Rightarrow> if prefix ''Bearer '' v then Some (drop 7 v) else None
      | None \<Rightarrow> None)"

definition arriving :: "string \<Rightarrow> string \<Rightarrow> chat_request \<Rightarrow> http_request" where
  "arriving host len req =
     \<lparr>http_method = ''POST'', query = [], content_length = Some len, id_header = None,
      sender = \<lparr>credentials = bearer (sent_headers req), forwarded_for = None, client_host = Some host,
                url_path = ''/v1/chat/completions''\<rparr>,
      payload = sent_body req\<rparr>"

text \<open>
  \<open>cut_lines w ended text\<close> are the lines of a body, which has come to its end or not. Where the
  server of the gateway raises in the middle of a body, the connection is dropped.
\<close>

record wire =
  render_json :: "json \<Rightarrow> string"
  cut_lines :: "bool \<Rightarrow> string \<Rightarrow> string list"
  broken_off :: string

definition streamed :: "wire \<Rightarrow> string list \<times> exn option \<Rightarrow> Client.exchange" where
  "streamed w stream =
     (let text = concat (fst stream) in
      case snd stream of
        None \<Rightarrow> Streamed (cut_lines w True text) None
      | Some e \<Rightarrow> Streamed (cut_lines w False text) (Some (broken_off w)))"

text \<open>What the client gets of an answer: an error status with its body, or lines.\<close>

definition heard_text :: "wire \<Rightarrow> nat \<Rightarrow> string \<Rightarrow> Client.exchange" where
  "heard_text w status body = (if status \<ge> 400 then Client.Refused status body else streamed w ([body], None))"

definition heard :: "wire \<Rightarrow> served \<Rightarrow> Client.exchange" where
  "heard w a =
     (case a of
        Answered (Forwarded (Reply status media headers body)) \<Rightarrow> heard_text w status body
      | Answered (Forwarded (Stream status media headers chunks broken)) \<Rightarrow> streamed w (chunks, broken)
      | Answered (Failed_with status body) \<Rightarrow> heard_text w status (render_json w body)
      | Document status body \<Rightarrow> heard_text w status (render_json w body)
      | Plain status media body \<Rightarrow> heard_text w status body
      | served.Refused status body headers \<Rightarrow> heard_text w status (render_json w body)
      | Crashed e \<Rightarrow> heard_text w 500 ''Internal Server Error'')"

definition through_gateway ::
  "wire \<Rightarrow> (http_request \<Rightarrow> served) \<Rightarrow> env \<Rightarrow> string \<Rightarrow> string \<Rightarrow>
   chat_request \<Rightarrow> gateway \<Rightarrow> Client.exchange \<times> gateway" where
  "through_gateway w framework e host len req g =
     (let ((rid, a), g) = serve framework e (arriving host len req) g in (heard w a, g))"

text \<open>The agent at the model server itself, without a gateway.\<close>

definition straight_to_server ::
  "wire \<Rightarrow> string list \<times> exn option \<Rightarrow> chat_request \<Rightarrow> gateway \<Rightarrow> Client.exchange \<times> gateway" where
  "straight_to_server w stream req g = (streamed w stream, g)"

section \<open>Errors reach the user\<close>

text \<open>What is relied on of the rendering: it reads back as the value rendered.\<close>

definition renders_json :: "wire \<Rightarrow> bool" where
  "renders_json w \<longleftrightarrow> (\<forall>v. json_ok v \<longrightarrow> json_loads (render_json w v) = Inr v)"

definition explained :: "nat \<Rightarrow> string \<Rightarrow> string option \<Rightarrow> string" where
  "explained status message code =
     (if code = Some ''context_length_exceeded'' then message @ '' (Try /compact or starting a new session.)''
      else if code = Some ''invalid_api_key'' then message @ '' (Check API_KEYS in .env.)''
      else ''Gateway returned '' @ str_nat status @ '': '' @ take 400 message)"

lemma error_body_ok: "json_ok (error_body message kind code)"
  by (cases code) (simp_all add: error_body_def)

lemma explain_error_body:
  assumes "renders_json w"
  shows "explain_error status (render_json w (error_body message kind code)) = Some (explained status message code)"
proof -
  have "json_loads (render_json w (error_body message kind code)) = Inr (error_body message kind code)"
    using assms error_body_ok by (simp add: renders_json_def)
  then show ?thesis
    by (simp add: explain_error_def explained_def error_body_def dict_get_def dict_has_def json_str_def split: option.split)
qed


section \<open>The way through the gateway\<close>

definition size_accepted :: "string \<Rightarrow> bool" where
  "size_accepted len \<longleftrightarrow> (case py_int len of Some n \<Rightarrow> n \<le> MAX_REQUEST_SIZE | None \<Rightarrow> False)"

lemma size_limit_passes:
  assumes "content_length r = Some len" and "size_accepted len"
  shows "request_size_limit next r g = next r g"
proof (cases len)
  case Nil
  have "py_int [] = None" by code_simp
  with assms(2) show ?thesis by (simp add: Nil size_accepted_def)
qed (use assms in \<open>auto simp: size_accepted_def request_size_limit_def split: option.splits\<close>)

text \<open>The answer of the gateway to a request of the agent is that of the guarded chat route.\<close>

lemma serve_chat:
  assumes "\<not> shutting_down g" and "size_accepted len"
  obtains c where "snd (fst (serve framework e (arriving host len req) g)) =
    fst (guarded e (arriving host len req)
      (openai_route e ''chat/completions'' (request_id e (arriving host len req)) (arriving host len req))
      (g\<lparr>metrics_collector := c\<rparr>))"
proof -
  let ?r = "arriving host len req"
  have "dispatch framework e rid ?r h = guarded e ?r (openai_route e ''chat/completions'' rid ?r) h" for rid h
    by (simp add: dispatch_def route_def arriving_def)
  then have "request_size_limit (dispatch framework e rid) ?r h = guarded e ?r (openai_route e ''chat/completions'' rid ?r) h" for rid h
    using size_limit_passes[of ?r len] assms(2) by (simp add: arriving_def)
  then show thesis
    using assms(1) by (intro that) (simp add: serve_def access_log_def Let_def split_beta)
qed

definition admission :: "env \<Rightarrow> gateway \<Rightarrow> http_request \<Rightarrow> access" where
  "admission e g r =
     fst (require_api_key (digest e) (fst (limiter_clock e)) (fst (snd (limiter_clock e))) (snd (snd (limiter_clock e)))
        (app_settings g) (sender r) (rate_limiter g))"

lemma guarded_admission:
  "fst (guarded e r next (g\<lparr>metrics_collector := c\<rparr>)) =
     (case admission e g r of
        Admitted \<Rightarrow> fst (next (g\<lparr>metrics_collector := c, rate_limiter := snd (require_api_key (digest e)
           (fst (limiter_clock e)) (fst (snd (limiter_clock e))) (snd (snd (limiter_clock e)))
           (app_settings g) (sender r) (rate_limiter g))\<rparr>))
      | Throttled m headers \<Rightarrow> served.Refused 429 (error_body m ''rate_limit_exceeded'' (Some ''rate_limit_exceeded'')) headers
      | Unauthorized m headers \<Rightarrow> served.Refused 401 (error_body m ''invalid_request_error'' (Some ''invalid_api_key'')) headers
      | TypeError \<Rightarrow> Crashed (Exception ''comparing strings with non-ASCII characters is not supported''))"
  by (simp add: guarded_def admission_def Let_def split_beta split: access.split)

text \<open>
  C4. The gateway is transparent to the agent: a turn that is admitted, routed and within the
  context, and that the model server answers, ends as if the agent had talked to the server
  itself, for a stream that comes to its end and for one that is broken by anything but the
  network; and the server was given the agent's messages and tools. When the network breaks
  the stream the agent is not told: the turn ends as if the stream had been complete.
\<close>

theorem gateway_is_transparent:
  assumes "\<not> shutting_down g" and "size_accepted len"
    and "admission e g (arriving host len (turn_request c ms tools)) = Admitted"
    and "resolve_target (app_settings g) (Some (chat_model c)) = Inr t"
    and "prepare_payload (eval_literal e) (turn_body c ms tools) t (app_settings g) = Inr prepared"
    and "fst (fst (exchange (fst (breaker_clock e)) (snd (breaker_clock e))
      (post e (target_url t ''chat/completions'') (target_headers t (Some (fresh_id e))) prepared)
      (random_below e) (target_base_url t) (circuits g))) = Inr upstream"
    and "status_code upstream < 400" and "\<forall>m \<in> set ms. plain_message m"
  shows "fst (turn c (through_gateway w framework e host len) ms tools g) =
      (let (chunks, broken) = stream_chunks e in
       fst (turn c (straight_to_server w
         (chunks, case broken of Some (Exception m) \<Rightarrow> Some (Exception m) | _ \<Rightarrow> None)) ms tools g)) \<and>
    dict_get prepared ''messages'' = JArr (map JObj ms) \<and>
    dict_get prepared ''tools'' = (if tools = [] then JNull else JArr tools)"
proof -
  let ?req = "turn_request c ms tools" let ?r = "arriving host len ?req"
  have body: "payload ?r = turn_body c ms tools" "request_id e ?r = fresh_id e"
    by (simp_all add: arriving_def turn_request_def request_id_def)
  have model: "dict_get (turn_body c ms tools) ''model'' = JStr (chat_model c)"
    "dict_get (turn_body c ms tools) ''messages'' = JArr (map JObj ms)"
    "dict_get (turn_body c ms tools) ''stream'' = JBool True"
    "dict_get (turn_body c ms tools) ''tools'' = (if tools = [] then JNull else JArr tools)"
    by (simp_all add: turn_body_def dict_get_def)
  have kept: "dict_get prepared k = dict_get (turn_body c ms tools) k" if "k \<in> {''messages'', ''tools'', ''stream''}" for k
    using plain_prepared[OF assms(5) model(2) assms(8) that] .
  have stream: "truthy (dict_get prepared ''stream'')" using kept[of "''stream''"] model(3) by simp
  obtain reg calls where x: "exchange (fst (breaker_clock e)) (snd (breaker_clock e))
      (post e (target_url t ''chat/completions'') (target_headers t (Some (fresh_id e))) prepared)
      (random_below e) (target_base_url t) (circuits g) = ((Inr upstream, calls), reg)"
    using assms(6) by (metis prod.collapse)
  obtain chunks broken where stream_is: "stream_chunks e = (chunks, broken)" by fastforce
  define rest where "rest = (case broken of Some (Exception m) \<Rightarrow> Some (Exception m) | _ \<Rightarrow> None)"
  have relayed: "relay (stream_chunks e) = (chunks, rest)"
    by (simp add: stream_is relay_def rest_def split: option.split exn.split)
  obtain media hs where fwd: "forward e ''chat/completions'' (Some (fresh_id e)) True t prepared (circuits g) =
      (Inr (Stream (status_code upstream) media hs chunks rest), reg)"
    using x assms(7) by (simp add: forward_def forward_stream_def relayed)
  have handled: "fst (handle (eval_literal e) (app_settings g) (forward e ''chat/completions'' (Some (fresh_id e)))
      (turn_body c ms tools) (circuits g)) = Forwarded (Stream (status_code upstream) media hs chunks rest)"
    using model(1) stream fwd by (simp add: handle_def assms(4,5))
  obtain col where served: "snd (fst (serve framework e ?r g)) =
      fst (guarded e ?r (openai_route e ''chat/completions'' (request_id e ?r) ?r) (g\<lparr>metrics_collector := col\<rparr>))"
    using serve_chat[OF assms(1,2)] by blast
  have "snd (fst (serve framework e ?r g)) = Answered (Forwarded (Stream (status_code upstream) media hs chunks rest))"
    unfolding served guarded_admission assms(3)
    using handled by (simp add: openai_route_def body split_beta)
  then have "fst (through_gateway w framework e host len ?req g) = streamed w (chunks, rest)"
    by (simp add: through_gateway_def heard_def split_beta)
  then show ?thesis
    using kept[of "''messages''"] kept[of "''tools''"] model
    by (simp add: turn_def split_beta straight_to_server_def stream_is rest_def)
qed

text \<open>
  A stream the network breaks is handed on as if it had come to its end: the agent takes for a
  complete turn what, at the server itself, it would have been told is none.
\<close>

theorem cut_stream_looks_complete:
  "run_turn url (streamed w (relay (chunks, Some (HTTPError m)))) = run_turn url (streamed w (chunks, None)) \<and>
   (\<forall>turn calls. fst (run_turn url (streamed w (chunks, Some (HTTPError m)))) \<noteq> Turn turn calls)"
  by (auto simp: relay_def streamed_def run_turn_def split: sum.splits)

text \<open>What a wrong key is answered: throttled or not, with the number of keys configured.\<close>

definition throttled :: "env \<Rightarrow> gateway \<Rightarrow> http_request \<Rightarrow> bool" where
  "throttled e g r \<longleftrightarrow> \<not> truth (fst (is_allowed (fst (limiter_clock e)) (get_client_identifier (digest e) (sender r))
     (url_path (sender r)) (rate_limiter g)))"

lemma refused_reply:
  assumes "api_key_set (app_settings g) \<noteq> []" and "list_all is_ascii (api_key_set (app_settings g))"
    and "presented (sender r) \<notin> set (api_key_set (app_settings g))"
  shows "if throttled e g r then \<exists>secs headers. 1 \<le> secs \<and> admission e g r =
      Throttled (''Rate limit exceeded. Please retry after '' @ str_int secs @ '' seconds.'') headers
    else admission e g r = unauthorized_reply (length (api_key_set (app_settings g)))"
proof -
  obtain t0 t1 t2 where clock: "limiter_clock e = (t0, t1, t2)" by (cases "limiter_clock e")
  let ?who = "get_client_identifier (digest e) (sender r)"
  obtain verdict l1 where v: "is_allowed t0 ?who (url_path (sender r)) (rate_limiter g) = (verdict, l1)" by fastforce
  obtain reset_at l2 where reset: "get_reset_time t1 ?who (url_path (sender r)) l1 = (reset_at, l2)" by fastforce
  show ?thesis
  proof (cases "truth verdict")
    case True
    with assms any_matches_ascii[OF assms(2), of "presented (sender r)"] show ?thesis
      by (simp add: throttled_def admission_def clock require_api_key_def v Let_def)
  next
    case False
    with assms(1) have "admission e g r =
        throttled_reply (get_config_for_endpoint l2 (url_path (sender r))) reset_at (max 1 (py_trunc (reset_at - t2)))"
      by (simp add: admission_def clock require_api_key_def v reset Let_def)
    with False show ?thesis
      by (auto simp: throttled_def clock v throttled_reply_def intro!: exI[of _ "max 1 (py_trunc (reset_at - t2))"])
  qed
qed

text \<open>
  C5. What the gateway refuses, the user is told: with the wrong key a turn never yields anything
  to run. It ends with the gateway's own words, that the key is wrong and how many there are,
  and with the advice to check the keys; or, when the client is throttled, with the seconds to wait.
\<close>

theorem wrong_key_is_told:
  assumes "\<not> shutting_down g" and "size_accepted len" and "renders_json w"
    and "api_key_set (app_settings g) \<noteq> []" and "list_all is_ascii (api_key_set (app_settings g))"
    and "chat_api_key c \<notin> set (api_key_set (app_settings g))"
  shows "if throttled e g (arriving host len (turn_request c ms tools))
    then \<exists>secs \<ge> 1. fst (turn c (through_gateway w framework e host len) ms tools g) =
      (TurnError (''Gateway returned 429: '' @
         take 400 (''Rate limit exceeded. Please retry after '' @ str_int secs @ '' seconds.'')), [])
    else fst (turn c (through_gateway w framework e host len) ms tools g) =
      (TurnError (''Incorrect API key provided. This gateway has '' @ str_nat (length (api_key_set (app_settings g)))
         @ '' key(s) configured; run `make vscode-config` on the host to print the expected value, ''
         @ ''and `make check-auth` if the editor is already using it. (Check API_KEYS in .env.)''), [])"
proof -
  let ?req = "turn_request c ms tools" let ?r = "arriving host len ?req"
  have token: "presented (sender ?r) = chat_api_key c"
    by (simp add: arriving_def presented_def bearer_def turn_request_def client_headers_def)
  obtain col where served: "snd (fst (serve framework e ?r g)) =
      fst (guarded e ?r (openai_route e ''chat/completions'' (request_id e ?r) ?r) (g\<lparr>metrics_collector := col\<rparr>))"
    using serve_chat[OF assms(1,2)] by blast
  have told: "fst (turn c (through_gateway w framework e host len) ms tools g) =
      (TurnError (explained status m code), [])"
    if "snd (fst (serve framework e ?r g)) = served.Refused status (error_body m kind code) headers" "400 \<le> status"
    for status m kind code headers
    using that explain_error_body[OF assms(3)]
    by (simp add: turn_def through_gateway_def heard_def heard_text_def run_turn_def split_beta)
  have refused: "if throttled e g ?r then \<exists>secs headers. 1 \<le> secs \<and> admission e g ?r =
      Throttled (''Rate limit exceeded. Please retry after '' @ str_int secs @ '' seconds.'') headers
      else admission e g ?r = unauthorized_reply (length (api_key_set (app_settings g)))"
    using assms(4-6) token by (intro refused_reply) simp_all
  show ?thesis
  proof (cases "throttled e g ?r")
    case True
    with refused obtain secs headers where a: "1 \<le> secs" "admission e g ?r =
        Throttled (''Rate limit exceeded. Please retry after '' @ str_int secs @ '' seconds.'') headers" by auto
    have "str_nat 429 = ''429''" by code_simp
    with told[OF served[unfolded guarded_admission a(2) access.case]] True a(1) show ?thesis
      by (auto simp: explained_def)
  next
    case False
    with refused have a: "admission e g ?r = unauthorized_reply (length (api_key_set (app_settings g)))" by simp
    from False told[OF served[unfolded guarded_admission a unauthorized_reply_def access.case]] show ?thesis
      by (simp add: explained_def)
  qed
qed


section \<open>Both at work\<close>

definition wired_client :: "string \<Rightarrow> chat_client" where
  "wired_client key = new_client ''http://127.0.0.1:8000/v1'' key ''qwen'' 900 DEFAULT_TEMPERATURE DEFAULT_TOP_P DEFAULT_MAX_TOKENS"

definition open_gateway :: gateway where
  "open_gateway = sample_gateway\<lparr>app_settings := (app_settings sample_gateway)\<lparr>model_alias_fallback := True\<rparr>\<rparr>"

definition plain_wire :: wire where
  "plain_wire = \<lparr>render_json = json_dumps,
     cut_lines = (\<lambda>ended text. if ended then py_splitlines text else butlast (py_splitlines text)),
     broken_off = ''peer closed connection''\<rparr>"

lemma plain_wire_renders: "renders_json plain_wire"
  by (simp add: renders_json_def plain_wire_def json_loads_dumps)

theorem wrong_key_is_told_witness:
  "fst (turn (wired_client ''gamma'') (through_gateway plain_wire (\<lambda>r. Plain 404 [] []) sample_env ''h'' ''2'')
       [user_message ''Hello''] [] open_gateway) =
     (TurnError (''Incorrect API key provided. This gateway has 2 key(s) configured; run `make vscode-config` on the host ''
       @ ''to print the expected value, and `make check-auth` if the editor is already using it. ''
       @ ''(Check API_KEYS in .env.)''), [])"
proof -
  let ?r = "arriving ''h'' ''2'' (turn_request (wired_client ''gamma'') [user_message ''Hello''] [])"
  have "\<not> shutting_down open_gateway" "size_accepted ''2''" "api_key_set (app_settings open_gateway) \<noteq> []"
    "list_all is_ascii (api_key_set (app_settings open_gateway))"
    "chat_api_key (wired_client ''gamma'') \<notin> set (api_key_set (app_settings open_gateway))"
    by code_simp+
  note told = wrong_key_is_told[OF this(1,2) plain_wire_renders this(3-5)]
  have "\<not> throttled sample_env open_gateway ?r" "length (api_key_set (app_settings open_gateway)) = 2"
    "str_nat 2 = ''2''" by code_simp+
  with told[where e = sample_env and host = "''h''" and ms = "[user_message ''Hello'']" and tools = "[]"
      and framework = "\<lambda>r. Plain 404 [] []"]
  show ?thesis by simp
qed

theorem gateway_is_transparent_witness:
  "fst (turn (wired_client ''beta-key'') (through_gateway plain_wire (\<lambda>r. Plain 404 [] []) sample_env ''h'' ''2'')
       [user_message ''Hello''] [] open_gateway) =
   fst (turn (wired_client ''beta-key'') (straight_to_server plain_wire (stream_chunks sample_env))
       [user_message ''Hello''] [] open_gateway)"
proof -
  let ?c = "wired_client ''beta-key''" let ?ms = "[user_message ''Hello'']" let ?e = sample_env
  let ?r = "arriving ''h'' ''2'' (turn_request ?c ?ms [])"
  have "case resolve_target (app_settings open_gateway) (Some (chat_model ?c)) of
      Inr t \<Rightarrow> (case prepare_payload (eval_literal ?e) (turn_body ?c ?ms []) t (app_settings open_gateway) of
        Inr prepared \<Rightarrow> (case fst (fst (exchange (fst (breaker_clock ?e)) (snd (breaker_clock ?e))
            (post ?e (target_url t ''chat/completions'') (target_headers t (Some (fresh_id ?e))) prepared)
            (random_below ?e) (target_base_url t) (circuits open_gateway))) of
          Inr upstream \<Rightarrow> status_code upstream < 400 | _ \<Rightarrow> False) | _ \<Rightarrow> False) | _ \<Rightarrow> False" by code_simp
  then obtain t prepared upstream where
    "resolve_target (app_settings open_gateway) (Some (chat_model ?c)) = Inr t"
    "prepare_payload (eval_literal ?e) (turn_body ?c ?ms []) t (app_settings open_gateway) = Inr prepared"
    "fst (fst (exchange (fst (breaker_clock ?e)) (snd (breaker_clock ?e))
            (post ?e (target_url t ''chat/completions'') (target_headers t (Some (fresh_id ?e))) prepared)
            (random_below ?e) (target_base_url t) (circuits open_gateway))) = Inr upstream"
    "status_code upstream < 400"
    by (auto split: sum.splits)
  note hyps = this
  have "\<not> shutting_down open_gateway" "size_accepted ''2''" "admission ?e open_gateway ?r = Admitted" by code_simp+
  with gateway_is_transparent[OF this(1-3) hyps, where w = plain_wire] show ?thesis
    by (simp add: sample_env_def)
qed

end
