(* ===== verification/Logging.thy ===== *)
theory Logging
  imports Tool_Calls "HOL-Library.AList"
begin

text \<open>
  \<open>llm_assistant_api/logging_config.py\<close>. A log record is its attributes as a dictionary, with the
  text of its message and of its traces; \<open>strftime\<close> is a parameter. Attributes that are no
  JSON arrive as their text (\<open>default=str\<close>).
\<close>

section \<open>The formatter\<close>

record log_record =
  attributes :: dict
  message_text :: string
  exception_text :: string
  stack_text :: string

definition STANDARD_ATTRIBUTES :: "string list" where
  "STANDARD_ATTRIBUTES = [''name'', ''msg'', ''args'', ''created'', ''filename'', ''funcName'', ''levelname'', ''levelno'',
     ''lineno'', ''module'', ''msecs'', ''pathname'', ''process'', ''processName'', ''relativeCreated'', ''stack_info'',
     ''exc_info'', ''thread'', ''threadName'', ''taskName'']"

text \<open>The format of the time: after the dot stands the day again, three digits wide, not the milliseconds.\<close>

definition TIME_FORMAT :: string where "TIME_FORMAT = ''%Y-%m-%dT%H:%M:%S.%03dZ''"

definition log_data :: "(string \<Rightarrow> json \<Rightarrow> string) \<Rightarrow> log_record \<Rightarrow> dict" where
  "log_data strftime r =
     (let a = attributes r;
          base = [(''timestamp'', JStr (strftime TIME_FORMAT (dict_get a ''created''))),
            (''level'', dict_get a ''levelname''), (''logger'', dict_get a ''name''), (''message'', JStr (message_text r))]
            @ (if truthy (dict_get a ''exc_info'') then [(''exc_info'', JStr (exception_text r))] else [])
            @ (if truthy (dict_get a ''stack_info'') then [(''stack_info'', JStr (stack_text r))] else [])
      in fold (\<lambda>(k, v) d. if k \<in> set STANDARD_ATTRIBUTES then d else dict_set k v d) a base)"

definition json_format :: "(string \<Rightarrow> json \<Rightarrow> string) \<Rightarrow> log_record \<Rightarrow> string" where
  "json_format strftime r = json_dumps (JObj (log_data strftime r))"

section \<open>Configuration\<close>

datatype formatter = Json_Formatter | Text_Formatter

record logging =
  root_level :: int
  root_handlers :: "formatter list"
  logger_levels :: "(string \<times> int) list"
  is_configured :: bool

definition LEVELS :: "(string \<times> int) list" where
  "LEVELS = [(''CRITICAL'', 50), (''FATAL'', 50), (''ERROR'', 40), (''WARNING'', 30), (''WARN'', 30), (''INFO'', 20),
     (''DEBUG'', 10), (''NOTSET'', 0)]"

text \<open>
  A name outside ASCII names no level, however its letters are capitalised. Other attributes of
  the module \<open>logging\<close> are left aside.
\<close>

definition level_of :: "string \<Rightarrow> int" where
  "level_of level = (case map_of LEVELS (ascii_upper level) of Some n \<Rightarrow> n | None \<Rightarrow> 20)"

definition configure_logging :: "string \<Rightarrow> string \<Rightarrow> logging \<Rightarrow> logging" where
  "configure_logging level log_format s =
     (let s = s\<lparr>root_level := level_of level\<rparr>;
          s = (if is_configured s then s
               else s\<lparr>root_handlers := [if py_lower log_format = ''json'' then Json_Formatter else Text_Formatter],
                      is_configured := True\<rparr>)
      in s\<lparr>logger_levels := fold (\<lambda>k. AList.update k 30) [''httpx'', ''httpcore'', ''uvicorn.access''] (logger_levels s)\<rparr>)"

section \<open>One line per record\<close>

lemma log_data_ok:
  assumes "json_ok (JObj (attributes r))"
  shows "json_ok (JObj (log_data strftime r))"
proof -
  have folded: "json_ok (JObj d) \<Longrightarrow> list_all (\<lambda>(k, v). json_ok v) xs \<Longrightarrow>
      json_ok (JObj (fold (\<lambda>(k, v) d. if k \<in> set STANDARD_ATTRIBUTES then d else dict_set k v d) xs d))" for xs d
    by (induction xs arbitrary: d) (auto simp: json_ok_set simp del: json_ok.simps)
  show ?thesis
    unfolding log_data_def Let_def
    by (rule folded) (use assms json_ok_get[OF assms] in \<open>auto simp: list_all_iff\<close>)
qed

text \<open>
  A structured log line is one line and one JSON object: whatever line breaks, quotes or
  traces the message holds, the text written has no line feed in it and parses back to the
  fields of the record. Setting logging up again never adds a second handler.
\<close>

theorem log_line_is_one_object:
  assumes "json_ok (JObj (attributes r))"
  shows "NL \<notin> set (json_format strftime r) \<and> json_loads (json_format strftime r) = Inr (JObj (log_data strftime r)) \<and>
    length (root_handlers (configure_logging l2 f2 (configure_logging l1 f1 s))) =
      length (root_handlers (configure_logging l1 f1 s))"
  using json_dumps_one_line[OF log_data_ok[OF assms]] json_loads_dumps[OF log_data_ok[OF assms]]
  by (auto simp: json_format_def configure_logging_def Let_def)

theorem log_line_is_one_object_witness:
  "NL \<notin> set (json_format (\<lambda>f t. f)
     \<lparr>attributes = [(''name'', JStr ''proxy''), (''request_id'', JInt 7)], message_text = ''a'' @ [NL] @ ''b'',
      exception_text = [], stack_text = []\<rparr>)"
  using log_line_is_one_object[of
      "\<lparr>attributes = [(''name'', JStr ''proxy''), (''request_id'', JInt 7)], message_text = ''a'' @ [NL] @ ''b'',
        exception_text = [], stack_text = []\<rparr>" "\<lambda>f t. f"]
  by simp

end
