(* ===== verification/Lifecycle.thy ===== *)
theory Lifecycle
  imports Gateway Logging
begin

text \<open>
  The application factory of \<open>llm_assistant_api/main.py\<close>: \<open>create_app\<close> with the production
  defaults, the HTTP client it builds, its lifespan, and the signal handlers installed at its
  start. Whether connections, log lines and signals arrive is up to the environment: a list of
  signals, and the effect of the handlers that were there before, are arguments.
\<close>

section \<open>The application\<close>

record http_client =
  request_timeout :: rat
  connect_timeout :: rat
  connection_limit :: int
  keepalive_limit :: int
  is_closed :: bool

text \<open>\<open>0.8\<close> is taken as four fifths.\<close>

definition build_client :: "settings \<Rightarrow> http_client" where
  "build_client s =
     \<lparr>request_timeout = request_timeout_seconds s, connect_timeout = connect_timeout_seconds s,
      connection_limit = max_connections s,
      keepalive_limit = max 10 (py_trunc (of_int (max_connections s) * 4 / 5)), is_closed = False\<rparr>"

record cors_rule =
  allowed_origins :: "string list"
  allowed_methods :: "string list"
  allowed_headers :: "string list"
  allows_credentials :: bool

record application =
  app_gateway :: gateway
  app_client :: http_client
  app_cors :: "cors_rule option"

text \<open>In production the text format of the log gives way to JSON.\<close>

definition production_defaults :: "settings \<Rightarrow> settings" where
  "production_defaults s =
     (if prod_mode s \<and> log_format s = ''text'' then s\<lparr>log_format := ''json''\<rparr> else s)"

definition create_app ::
  "(rat \<Rightarrow> string) \<Rightarrow> settings \<Rightarrow> bool \<Rightarrow> registry \<Rightarrow> collector \<Rightarrow> rat \<Rightarrow> logging \<Rightarrow> (string + application) \<times> logging" where
  "create_app show_number given redis_ok shared_circuits shared_metrics now logs =
     (let s = production_defaults given;
          logs = configure_logging (log_level s) (log_format s) logs
      in (map_sum id
            (\<lambda>limiter.
               \<lparr>app_gateway = \<lparr>app_settings = s, rate_limiter = limiter, circuits = shared_circuits,
                               metrics_collector = shared_metrics, shutting_down = False\<rparr>,
                app_client = build_client s,
                app_cors = (if cors_origin_list s = [] then None
                            else Some \<lparr>allowed_origins = cors_origin_list s, allowed_methods = [''GET'', ''POST'', ''OPTIONS''],
                                       allowed_headers = [''*''], allows_credentials = False\<rparr>)\<rparr>)
            (start_limiter show_number s redis_ok now), logs))"

section \<open>The lifespan\<close>

datatype sig = SIGTERM | SIGINT

text \<open>A signal has the handler of whoever runs the application, or the application's own.\<close>

datatype handler = Server_Handler | Handle_Signal

record process =
  handlers :: "sig \<Rightarrow> handler"
  shutdown_event :: "bool option"
  server_exits :: bool
  application_of :: application

definition handle_signal :: "process \<Rightarrow> process" where
  "handle_signal p = (if shutdown_event p = None then p else p\<lparr>shutdown_event := Some True\<rparr>)"

definition setup_signal_handlers :: "process \<Rightarrow> process" where
  "setup_signal_handlers p =
     p\<lparr>shutdown_event := Some False, handlers := (handlers p)(SIGTERM := Handle_Signal, SIGINT := Handle_Signal)\<rparr>"

text \<open>What a signal does: the server's own handler makes it leave its main loop, which ends the lifespan.\<close>

definition deliver :: "sig \<Rightarrow> process \<Rightarrow> process" where
  "deliver x p =
     (case handlers p x of Server_Handler \<Rightarrow> p\<lparr>server_exits := True\<rparr> | Handle_Signal \<Rightarrow> handle_signal p)"

definition wait_is_over :: "process \<Rightarrow> bool" where
  "wait_is_over p \<longleftrightarrow> shutdown_event p \<noteq> Some False"

text \<open>The part before the \<open>yield\<close>, with the warning, and the part after it.\<close>

definition begin_lifespan :: "process \<Rightarrow> string option \<times> process" where
  "begin_lifespan p =
     ((if api_key_set (app_settings (app_gateway (application_of p))) = []
       then Some ''API_KEYS is empty - every caller that can reach this port may use the model'' else None),
      setup_signal_handlers p)"

definition end_lifespan ::
  "(nat \<Rightarrow> nat) \<Rightarrow> (nat \<Rightarrow> rat) \<Rightarrow> rat \<Rightarrow> application \<Rightarrow> (application \<times> bool) option" where
  "end_lifespan active clock start app =
     map_option
       (\<lambda>(rounds, gave_up). (app\<lparr>app_gateway := begin_shutdown (app_gateway app),
                                app_client := (app_client app)\<lparr>is_closed := True\<rparr>\<rparr>, gave_up))
       (drain active clock start 0)"

section \<open>What starting and stopping guarantee\<close>

text \<open>The pool of idle connections is smaller than the pool only when the pool is larger than ten.\<close>

lemma keepalive_fits_iff: "keepalive_limit (build_client s) < connection_limit (build_client s) \<longleftrightarrow> 10 < max_connections s"
proof -
  have "py_trunc (of_int n * 4 / 5) < n" if "10 < n" for n :: int
  proof -
    have "\<lfloor>(of_int n * 4 / 5 :: rat)\<rfloor> < n" using that by (simp add: floor_less_iff)
    with that show ?thesis by (simp add: py_trunc_def)
  qed
  then show ?thesis by (auto simp: build_client_def)
qed

text \<open>
  A gateway that starts in production mode, in a fresh process, has no key shorter than sixteen
  characters and no limit that admits nobody, and writes its log as JSON lines; and it starts
  with nothing in flight turned away.
\<close>

lemma validate_config_strict:
  assumes "validate_config show_number s = Inr ()" and "prod_mode s"
  shows "config_issues show_number s = []"
  using assms by (auto simp: validate_config_def Let_def split: if_splits)

theorem production_starts_hardened:
  assumes "create_app show_number s redis_ok reg col now logs = (Inr app, logs')"
    and "prod_mode s" and "log_format s = ''text''" and "\<not> is_configured logs"
  shows "config_issues show_number (app_settings (app_gateway app)) = [] \<and> root_handlers logs' = [Json_Formatter] \<and>
    \<not> shutting_down (app_gateway app) \<and> \<not> is_closed (app_client app)"
proof -
  let ?s = "production_defaults s"
  obtain limiter where l: "start_limiter show_number ?s redis_ok now = Inr limiter"
    and app: "app_settings (app_gateway app) = ?s" "\<not> shutting_down (app_gateway app)" "\<not> is_closed (app_client app)"
    and logs: "logs' = configure_logging (log_level ?s) (log_format ?s) logs"
    using assms(1)
    by (cases "start_limiter show_number ?s redis_ok now") (auto simp: create_app_def Let_def build_client_def)
  have "validate_config show_number ?s = Inr ()"
    using l by (auto simp: start_limiter_def split: sum.splits)
  moreover have "prod_mode ?s" "log_format ?s = ''json''" using assms(2,3) by (simp_all add: production_defaults_def)
  moreover have "py_lower ''json'' = ''json''" by code_simp
  ultimately show ?thesis
    using app logs assms(4) validate_config_strict[of show_number ?s] by (simp add: configure_logging_def Let_def)
qed

text \<open>
  Once the lifespan has begun, no signal stops the server: each only sets an event, which nobody
  waits for. Without the application's handlers the first one would.
\<close>

theorem signals_stop_nothing:
  "server_exits (fold deliver signals (snd (begin_lifespan p))) = server_exits p \<and>
   application_of (fold deliver signals (snd (begin_lifespan p))) = application_of p \<and>
   (signals \<noteq> [] \<longrightarrow> wait_is_over (fold deliver signals (snd (begin_lifespan p)))) \<and>
   (signals \<noteq> [] \<and> (\<forall>x. handlers p x = Server_Handler) \<longrightarrow> server_exits (fold deliver signals p))"
proof -
  have ours: "server_exits (fold deliver signals q) = server_exits q \<and> application_of (fold deliver signals q) = application_of q \<and>
      (signals \<noteq> [] \<longrightarrow> shutdown_event (fold deliver signals q) = Some True)"
    if "\<forall>x. handlers q x = Handle_Signal" "shutdown_event q \<noteq> None" for q
    using that
  proof (induction signals arbitrary: q)
    case (Cons x xs)
    have q: "deliver x q = q\<lparr>shutdown_event := Some True\<rparr>"
      using Cons.prems by (simp add: deliver_def handle_signal_def)
    have "shutdown_event (fold deliver xs (deliver x q)) = Some True" if "xs = []" using q that by simp
    with Cons.IH[of "deliver x q"] Cons.prems(1) q show ?case by (cases "xs = []") simp_all
  qed simp
  have theirs: "server_exits (fold deliver xs q)" if "\<forall>x. handlers q x = Server_Handler" "server_exits q" for xs q
    using that by (induction xs arbitrary: q) (simp_all add: deliver_def)
  have "\<forall>x. handlers (snd (begin_lifespan p)) x = Handle_Signal"
    by (simp add: begin_lifespan_def setup_signal_handlers_def) (metis sig.exhaust)
  from ours[OF this] show ?thesis
    using theirs by (cases signals) (auto simp: begin_lifespan_def setup_signal_handlers_def wait_is_over_def deliver_def)
qed


text \<open>With its own handlers in place an application is stopped by the first signal, with these by none.\<close>

definition fresh_process :: "application \<Rightarrow> process" where
  "fresh_process app =
     \<lparr>handlers = (\<lambda>x. Server_Handler), shutdown_event = None, server_exits = False, application_of = app\<rparr>"

theorem signals_stop_nothing_witness:
  "\<forall>app. server_exits (fold deliver [SIGTERM] (fresh_process app)) \<and>
     \<not> server_exits (fold deliver [SIGTERM, SIGINT, SIGTERM] (snd (begin_lifespan (fresh_process app))))"
proof
  fix app
  from signals_stop_nothing[of "[SIGTERM]" "fresh_process app"]
    signals_stop_nothing[of "[SIGTERM, SIGINT, SIGTERM]" "fresh_process app"]
  show "server_exits (fold deliver [SIGTERM] (fresh_process app)) \<and>
     \<not> server_exits (fold deliver [SIGTERM, SIGINT, SIGTERM] (snd (begin_lifespan (fresh_process app))))"
    by (simp add: fresh_process_def)
qed

theorem production_starts_hardened_witness:
  "\<exists>app logs'. create_app (\<lambda>x. []) (default_settings\<lparr>prod_mode := True\<rparr>) False [] new_collector 0
       \<lparr>root_level = 30, root_handlers = [], logger_levels = [], is_configured = False\<rparr> = (Inr app, logs') \<and>
     root_handlers logs' = [Json_Formatter] \<and> config_issues (\<lambda>x. []) (app_settings (app_gateway app)) = []"
proof -
  let ?r = "create_app (\<lambda>x. []) (default_settings\<lparr>prod_mode := True\<rparr>) False [] new_collector 0
       \<lparr>root_level = 30, root_handlers = [], logger_levels = [], is_configured = False\<rparr>"
  have "case ?r of (Inr app, logs') \<Rightarrow> True | _ \<Rightarrow> False" by code_simp
  then obtain app logs' where r: "?r = (Inr app, logs')" by (auto split: prod.splits sum.splits)
  have "prod_mode (default_settings\<lparr>prod_mode := True\<rparr>)" "log_format (default_settings\<lparr>prod_mode := True\<rparr>) = ''text''"
    by (simp_all add: default_settings_def)
  from production_starts_hardened[OF r this] r show ?thesis by auto
qed

end
