(* ===== verification/Store.thy ===== *)
theory Store
  imports Git Json_Codec
begin

text \<open>
  \<open>llm_assistant_agent/store.py\<close>: sessions on disk. The file system is that of \<open>Workspace\<close>.
  Parameters: \<open>realpath\<close> as there; \<open>scan\<close>, the names in a directory in the order the
  operating system gives them; SHA-256 of what a file holds; and how a time is written and
  read (\<open>datetime.isoformat\<close>, \<open>fromisoformat\<close>, whose result says whether it has a time
  zone). A directory counts as written at time 0.
\<close>

section \<open>Stored sessions\<close>

record store_env =
  realpath_of :: "path \<Rightarrow> path"
  scan :: "fs \<Rightarrow> path \<Rightarrow> string list"
  sha256_of :: "string \<times> bool \<Rightarrow> string"
  isoformat :: "rat \<Rightarrow> string"
  fromisoformat :: "string \<Rightarrow> (bool \<times> rat) option"

definition VERSION_ON_DISK :: int where "VERSION_ON_DISK = 1"
definition KEEP :: nat where "KEEP = 100"

text \<open>
  The expression \<open>^[A-Za-z0-9][A-Za-z0-9._-]{0,63}$\<close>, whose \<open>$\<close> also matches before a line
  feed that ends the text.
\<close>

definition ascii_alnum :: "char \<Rightarrow> bool" where
  "ascii_alnum c \<longleftrightarrow> (let n = code_point c in
     (48 \<le> n \<and> n \<le> 57) \<or> (65 \<le> n \<and> n \<le> 90) \<or> (97 \<le> n \<and> n \<le> 122))"

definition id_text :: "string \<Rightarrow> bool" where
  "id_text s \<longleftrightarrow>
     s \<noteq> [] \<and> ascii_alnum (hd s) \<and> list_all (\<lambda>c. ascii_alnum c \<or> c \<in> set ''._-'') (tl s) \<and> length s \<le> 64"

definition safe :: "string \<Rightarrow> bool" where
  "safe session_id \<longleftrightarrow>
     (id_text session_id \<or> (session_id \<noteq> [] \<and> last session_id = NL \<and> id_text (butlast session_id))) \<and>
     \<not> py_in ''..'' session_id"

text \<open>A \<open>Path\<close> made from a text: whether it is absolute, and its components.\<close>

definition posix_path :: "string \<Rightarrow> bool \<times> path" where
  "posix_path s = (s \<noteq> [] \<and> hd s = CHR ''/'', components s)"

definition posix_str :: "bool \<times> path \<Rightarrow> string" where
  "posix_str p = (if fst p then path_str (snd p) else if snd p = [] then ''.'' else py_join ''/'' (snd p))"

text \<open>The id is a text when it was read by the store, anything when it was imported.\<close>

record stored_session =
  stored_id :: json
  stored_workspace :: "bool \<times> path"
  stored_model :: string
  stored_updated :: "bool \<times> rat"
  stored_messages :: "json list"
  stored_seen :: "(json \<times> json) list"
  stored_head :: json

definition is_user_message :: "json \<Rightarrow> bool option" where
  "is_user_message m = (case m of JObj d \<Rightarrow> Some (dict_get d ''role'' = JStr ''user'') | _ \<Rightarrow> None)"

definition RULES_END :: string where
  "RULES_END = [NL, NL] @ ''---'' @ [NL, NL]"

text \<open>\<open>None\<close>: a message that is no object has no \<open>get\<close>.\<close>

fun session_summary_of :: "json list \<Rightarrow> string option" where
  "session_summary_of [] = Some ''(nothing asked yet)''"
| "session_summary_of (m # ms) =
     (case m of
        JObj d \<Rightarrow>
          (if dict_get d ''role'' \<noteq> JStr ''user'' then session_summary_of ms
           else
             (let content = dict_get d ''content'';
                  body = (if truthy content then json_str content else []);
                  question = py_after_last RULES_END body;
                  first = py_splitlines (py_strip (if question \<noteq> [] then question else body))
              in if first \<noteq> [] then Some (take 70 (hd first)) else session_summary_of ms))
      | _ \<Rightarrow> None)"

definition session_summary :: "stored_session \<Rightarrow> string option" where
  "session_summary stored = session_summary_of (stored_messages stored)"

definition session_turns :: "stored_session \<Rightarrow> nat option" where
  "session_turns stored =
     (if list_ex (\<lambda>m. is_user_message m = None) (stored_messages stored) then None
      else Some (length (filter (\<lambda>m. is_user_message m = Some True) (stored_messages stored))))"

section \<open>Paths and digests\<close>

definition session_path :: "path \<Rightarrow> string \<Rightarrow> path" where
  "session_path r session_id = join_path r (session_id @ ''.json'')"

text \<open>Where a name is created, renamed or removed: links are followed up to the last component.\<close>

definition entry_path :: "store_env \<Rightarrow> path \<Rightarrow> path" where
  "entry_path e p = (if p = [] then [] else realpath_of e (butlast p) @ [last p])"

definition digest_at :: "store_env \<Rightarrow> fs \<Rightarrow> path \<Rightarrow> string option" where
  "digest_at e fs p = (case fs p of Some (File text utf8 t) \<Rightarrow> Some (sha256_of e (text, utf8)) | _ \<Rightarrow> None)"

definition digests :: "store_env \<Rightarrow> workspace \<Rightarrow> fs \<Rightarrow> (string \<times> string) list" where
  "digests e ws fs =
     fold (\<lambda>target found.
         case digest_at e fs target of None \<Rightarrow> found | Some d \<Rightarrow> AList.update (relative ws target) d found)
       (sorted_list_of_set (seen ws)) []"

definition saved_files :: "store_env \<Rightarrow> path \<Rightarrow> fs \<Rightarrow> path list" where
  "saved_files e r fs = map (\<lambda>name. r @ [name]) (filter (suffix ''.json'') (scan e fs r))"

definition modified :: "fs \<Rightarrow> path \<Rightarrow> rat" where
  "modified fs p = (case fs p of Some (File text utf8 t) \<Rightarrow> t | _ \<Rightarrow> 0)"

text \<open>\<open>sort(key=f, reverse=True)\<close> keeps the order of equals.\<close>

definition sort_reverse :: "('a \<Rightarrow> 'k :: linorder) \<Rightarrow> 'a list \<Rightarrow> 'a list" where
  "sort_reverse f xs = rev (sort_key f (rev xs))"

section \<open>Writing\<close>

text \<open>Removing files until one cannot be removed, since it is a directory.\<close>

fun unlink_all :: "path list \<Rightarrow> fs \<Rightarrow> bool \<times> fs" where
  "unlink_all [] fs = (True, fs)"
| "unlink_all (p # ps) fs =
     (if fs p = Some Directory then (False, fs) else unlink_all ps (fs(p := None)))"

definition prune :: "store_env \<Rightarrow> path \<Rightarrow> fs \<Rightarrow> bool \<times> fs" where
  "prune e r fs = unlink_all (drop KEEP (sort_reverse (modified fs) (saved_files e r fs))) fs"

definition session_payload ::
  "store_env \<Rightarrow> rat \<Rightarrow> string \<Rightarrow> git \<Rightarrow> workspace \<Rightarrow> string \<Rightarrow> json list \<Rightarrow> fs \<Rightarrow> json" where
  "session_payload e now session_id git ws model messages fs =
     JObj [(''version'', JInt VERSION_ON_DISK), (''id'', JStr session_id), (''updated'', JStr (isoformat e now)),
       (''workspace'', JStr (path_str (root ws))), (''model'', JStr model),
       (''head'', (case git_head git of Some h \<Rightarrow> JStr h | None \<Rightarrow> JNull)),
       (''seen'', JObj (map (\<lambda>(k, d). (k, JStr d)) (digests e ws fs))), (''messages'', JArr messages)]"

definition save ::
  "store_env \<Rightarrow> rat \<Rightarrow> path \<Rightarrow> string \<Rightarrow> git \<Rightarrow> workspace \<Rightarrow> string \<Rightarrow> json list \<Rightarrow> fs \<Rightarrow>
     (workspace_error + path) \<times> fs" where
  "save e now r session_id git ws model messages fs =
     (let path = entry_path e (session_path r session_id);
          temporary = butlast path @ [last path @ ''.tmp''];
          text = json_dumps (session_payload e now session_id git ws model messages fs)
      in case write_text temporary text now fs of
           None \<Rightarrow> (Inl OSError, fs)
         | Some fs1 \<Rightarrow>
             (if fs1 path = Some Directory then (Inl OSError, fs1)
              else
                (let (all_gone, fs2) = prune e r (fs1(temporary := None, path \<mapsto> File text True now))
                 in (if all_gone then Inr path else Inl OSError, fs2))))"

section \<open>Reading\<close>

text \<open>\<open>list(x or [])\<close> and \<open>dict(x or {})\<close>: None stands for TypeError and ValueError. Keys count as
  equal when they are the same JSON value.\<close>

definition json_list :: "json \<Rightarrow> json list option" where
  "json_list j =
     (case j of
        JArr xs \<Rightarrow> Some xs
      | JStr s \<Rightarrow> Some (map (\<lambda>c. JStr [c]) s)
      | JObj d \<Rightarrow> Some (map (\<lambda>(k, v). JStr k) d)
      | _ \<Rightarrow> None)"

definition hashable :: "json \<Rightarrow> bool" where
  "hashable j \<longleftrightarrow> (case j of JArr _ \<Rightarrow> False | JObj _ \<Rightarrow> False | _ \<Rightarrow> True)"

fun pairs_into :: "json list \<Rightarrow> (json \<times> json) list \<Rightarrow> (json \<times> json) list option" where
  "pairs_into [] d = Some d"
| "pairs_into (x # xs) d =
     (case json_list x of
        Some [k, v] \<Rightarrow> if hashable k then pairs_into xs (AList.update k v d) else None
      | _ \<Rightarrow> None)"

definition json_mapping :: "json \<Rightarrow> (json \<times> json) list option" where
  "json_mapping j =
     (case j of
        JObj d \<Rightarrow> Some (map (\<lambda>(k, v). (JStr k, v)) d)
      | _ \<Rightarrow> (case json_list j of Some xs \<Rightarrow> pairs_into xs [] | None \<Rightarrow> None))"

definition or_empty :: "json \<Rightarrow> json \<Rightarrow> json" where
  "or_empty otherwise j = (if truthy j then j else otherwise)"

text \<open>\<open>x == 1\<close> holds of \<open>True\<close> and of \<open>1.0\<close>.\<close>

definition version_matches :: "json \<Rightarrow> bool" where
  "version_matches j \<longleftrightarrow>
     (case j of
        JInt i \<Rightarrow> i = VERSION_ON_DISK
      | JBool b \<Rightarrow> b
      | JFloat t \<Rightarrow> float_integer t = Some VERSION_ON_DISK
      | _ \<Rightarrow> False)"

text \<open>A file that is no UTF-8 raises: the exception is no \<open>JSONDecodeError\<close>.\<close>

datatype read_result = Raises | Absent | Found stored_session

definition session_from :: "store_env \<Rightarrow> dict \<Rightarrow> read_result" where
  "session_from e d =
     (if \<not> dict_has d ''id'' \<or> \<not> dict_has d ''workspace'' \<or> \<not> dict_has d ''updated'' then Absent
      else
        (case (fromisoformat e (json_str (dict_get d ''updated'')),
               json_list (or_empty (JArr []) (dict_get d ''messages'')),
               json_mapping (or_empty (JObj []) (dict_get d ''seen''))) of
           (Some updated, Some ms, Some sn) \<Rightarrow>
             Found \<lparr>stored_id = JStr (json_str (dict_get d ''id'')),
               stored_workspace = posix_path (json_str (dict_get d ''workspace'')),
               stored_model = (if dict_has d ''model'' then json_str (dict_get d ''model'') else []),
               stored_updated = updated, stored_messages = ms, stored_seen = sn, stored_head = dict_get d ''head''\<rparr>
         | _ \<Rightarrow> Absent))"

definition read_stored :: "store_env \<Rightarrow> path \<Rightarrow> fs \<Rightarrow> read_result" where
  "read_stored e p fs =
     (case fs (realpath_of e p) of
        Some (File text utf8 t) \<Rightarrow>
          (if \<not> utf8 then Raises
           else
             (case json_loads (universal_newlines text) of
                Inr (JObj d) \<Rightarrow> if version_matches (dict_get d ''version'') then session_from e d else Absent
              | _ \<Rightarrow> Absent))
      | _ \<Rightarrow> Absent)"

definition load :: "store_env \<Rightarrow> path \<Rightarrow> string \<Rightarrow> fs \<Rightarrow> read_result" where
  "load e r session_id fs =
     (if \<not> safe session_id then Absent else read_stored e (session_path r session_id) fs)"

fun found_in :: "read_result list \<Rightarrow> stored_session list option" where
  "found_in [] = Some []"
| "found_in (Raises # rs) = None"
| "found_in (Absent # rs) = found_in rs"
| "found_in (Found stored # rs) = map_option ((#) stored) (found_in rs)"

text \<open>Comparing a time with a zone and one without raises.\<close>

definition comparable :: "stored_session list \<Rightarrow> bool" where
  "comparable found \<longleftrightarrow> length (remdups (map (\<lambda>stored. fst (stored_updated stored)) found)) \<le> 1"

definition listing ::
  "store_env \<Rightarrow> path \<Rightarrow> path option \<Rightarrow> nat option \<Rightarrow> fs \<Rightarrow> stored_session list option" where
  "listing e r workspace limit fs =
     (case found_in (map (\<lambda>p. read_stored e p fs) (saved_files e r fs)) of
        None \<Rightarrow> None
      | Some all \<Rightarrow>
          (let found = filter (\<lambda>stored. case workspace of None \<Rightarrow> True
                 | Some w \<Rightarrow> stored_workspace stored = (True, w)) all;
               ordered = sort_reverse (\<lambda>stored. snd (stored_updated stored)) found
           in if \<not> comparable found then None
              else Some (case limit of None \<Rightarrow> ordered | Some n \<Rightarrow> take n ordered)))"

definition latest :: "store_env \<Rightarrow> path \<Rightarrow> path \<Rightarrow> fs \<Rightarrow> stored_session option option" where
  "latest e r workspace fs =
     map_option (\<lambda>found. if found = [] then None else Some (hd found)) (listing e r (Some workspace) (Some 1) fs)"

section \<open>Deleting\<close>

definition delete_session :: "store_env \<Rightarrow> path \<Rightarrow> string \<Rightarrow> fs \<Rightarrow> bool \<times> fs" where
  "delete_session e r session_id fs =
     (if \<not> safe session_id then (False, fs)
      else
        (let path = entry_path e (session_path r session_id) in
         case fs path of
           Some (File text utf8 t) \<Rightarrow> (True, fs(path := None))
         | _ \<Rightarrow> (False, fs)))"

fun delete_each :: "store_env \<Rightarrow> path \<Rightarrow> stored_session list \<Rightarrow> fs \<Rightarrow> string list \<times> fs" where
  "delete_each e r [] fs = ([], fs)"
| "delete_each e r (stored # rest) fs =
     (let (removed, fs) = delete_session e r (json_str (stored_id stored)) fs;
          (ids, fs) = delete_each e r rest fs
      in (if removed then json_str (stored_id stored) # ids else ids, fs))"

definition delete_all :: "store_env \<Rightarrow> path \<Rightarrow> path option \<Rightarrow> fs \<Rightarrow> (string list \<times> fs) option" where
  "delete_all e r workspace fs =
     map_option (\<lambda>found. delete_each e r found fs) (listing e r workspace None fs)"

section \<open>Read-before-edit\<close>

text \<open>\<open>root / relative\<close> raises on what is no text (None).\<close>

fun restore_from ::
  "store_env \<Rightarrow> fs \<Rightarrow> (json \<times> json) list \<Rightarrow> nat \<Rightarrow> nat \<Rightarrow> workspace \<Rightarrow> ((nat \<times> nat) \<times> workspace) option" where
  "restore_from e fs [] restored stale ws = Some ((restored, stale), ws)"
| "restore_from e fs ((JStr rel, digest) # rest) restored stale ws =
     (case resolve (realpath_of e) ws rel of
        Inl _ \<Rightarrow> restore_from e fs rest restored (stale + 1) ws
      | Inr target \<Rightarrow>
          (if is_file fs target \<and> map_option JStr (digest_at e fs target) = Some digest
           then restore_from e fs rest (restored + 1) stale (ws\<lparr>seen := insert target (seen ws)\<rparr>)
           else restore_from e fs rest restored (stale + 1) ws))"
| "restore_from e fs (_ # rest) restored stale ws = None"

definition restore_seen ::
  "store_env \<Rightarrow> stored_session \<Rightarrow> fs \<Rightarrow> workspace \<Rightarrow> ((nat \<times> nat) \<times> workspace) option" where
  "restore_seen e stored fs ws = restore_from e fs (stored_seen stored) 0 0 ws"

section \<open>Exchange\<close>

text \<open>\<open>json.dumps(x, indent=2)\<close>.\<close>

definition indentation :: "nat \<Rightarrow> string" where
  "indentation n = NL # replicate (2 * n) (CHR '' '')"

fun json_pretty :: "nat \<Rightarrow> json \<Rightarrow> string" where
  "json_pretty n (JArr xs) =
     (if xs = [] then ''[]''
      else ''['' @ indentation (n + 1) @ py_join ('','' @ indentation (n + 1)) (map (json_pretty (n + 1)) xs)
         @ indentation n @ '']'')"
| "json_pretty n (JObj d) =
     (if d = [] then ''{}''
      else ''{'' @ indentation (n + 1)
         @ py_join ('','' @ indentation (n + 1)) (map (\<lambda>(k, v). dumps_str k @ '': '' @ json_pretty (n + 1) v) d)
         @ indentation n @ ''}'')"
| "json_pretty n j = json_dumps j"

definition key_text :: "json \<Rightarrow> string" where
  "key_text k = (case k of JStr s \<Rightarrow> s | _ \<Rightarrow> json_dumps k)"

definition export_payload :: "store_env \<Rightarrow> rat \<Rightarrow> stored_session \<Rightarrow> json" where
  "export_payload e now stored =
     JObj [(''version'', JInt VERSION_ON_DISK), (''exported_at'', JStr (isoformat e now)),
       (''original_workspace'', JStr (posix_str (stored_workspace stored))), (''id'', stored_id stored),
       (''model'', JStr (stored_model stored)), (''head'', stored_head stored),
       (''seen'', JObj (map (\<lambda>(k, v). (key_text k, v)) (stored_seen stored))),
       (''messages'', JArr (stored_messages stored))]"

definition export_session :: "store_env \<Rightarrow> rat \<Rightarrow> stored_session \<Rightarrow> path \<Rightarrow> fs \<Rightarrow> bool \<times> fs" where
  "export_session e now stored output_path fs =
     (case write_text output_path (json_pretty 0 (export_payload e now stored)) now fs of
        None \<Rightarrow> (False, fs)
      | Some fs \<Rightarrow> (True, fs))"

text \<open>\<open>explain\<close> is the text of the exception, \<open>fresh\<close> what \<open>new_id\<close> gives.\<close>

datatype import_result = Imported stored_session | Import_error string | Import_raises

definition import_session ::
  "store_env \<Rightarrow> rat \<Rightarrow> string \<Rightarrow> string \<Rightarrow> path \<Rightarrow> workspace \<Rightarrow> fs \<Rightarrow> import_result" where
  "import_session e now fresh explain import_path ws fs =
     (case fs (realpath_of e import_path) of
        Some (File text utf8 t) \<Rightarrow>
          (if \<not> utf8 then Import_raises
           else
             (case json_loads (universal_newlines text) of
                Inl _ \<Rightarrow> Import_error (''Cannot read import file: '' @ explain)
              | Inr (JObj d) \<Rightarrow>
                  (if \<not> version_matches (dict_get d ''version'')
                   then Import_error ''Invalid or unsupported export format''
                   else
                     (case (json_list (or_empty (JArr []) (dict_get d ''messages'')),
                            json_mapping (or_empty (JObj []) (dict_get d ''seen''))) of
                        (Some ms, Some sn) \<Rightarrow>
                          Imported \<lparr>stored_id = (if dict_has d ''id'' then dict_get d ''id'' else JStr fresh),
                            stored_workspace = (True, root ws),
                            stored_model = (if dict_has d ''model'' then json_str (dict_get d ''model'') else []),
                            stored_updated = (True, now), stored_messages = ms, stored_seen = sn,
                            stored_head = dict_get d ''head''\<rparr>
                      | _ \<Rightarrow> Import_error (''Invalid session data: '' @ explain)))
              | Inr _ \<Rightarrow> Import_error ''Invalid or unsupported export format''))
      | _ \<Rightarrow> Import_error (''Cannot read import file: '' @ explain))"

definition new_id :: "string \<Rightarrow> string \<Rightarrow> string" where
  "new_id stamp token = stamp @ ''-'' @ token"

definition default_root :: "(string \<Rightarrow> string option) \<Rightarrow> (string \<Rightarrow> path) \<Rightarrow> path \<Rightarrow> path" where
  "default_root environ expanduser home =
     (case environ ''ASSIST_HOME'' of
        Some (c # cs) \<Rightarrow> expanduser (c # cs) @ [''sessions'']
      | _ \<Rightarrow> home @ [''.assist'', ''sessions''])"

section \<open>Names and texts\<close>

definition plain_path :: "path \<Rightarrow> bool" where
  "plain_path p \<longleftrightarrow> (\<forall>c \<in> set p. c \<noteq> [] \<and> c \<noteq> ''.'' \<and> c \<noteq> ''..'' \<and> CHR ''/'' \<notin> set c)"

lemma plain_path_append [simp]: "plain_path (p @ q) \<longleftrightarrow> plain_path p \<and> plain_path q"
  by (auto simp: plain_path_def)

lemma components_join: "plain_path p \<Longrightarrow> components (py_join ''/'' p) = p"
proof (cases "p = []")
  case False
  moreover assume "plain_path p"
  ultimately show ?thesis
    using py_split_join[of p "CHR ''/''"] by (auto simp: components_def plain_path_def filter_id_conv)
qed (simp add: components_def py_split_char)

lemma components_path_str: "plain_path p \<Longrightarrow> components (path_str p) = p"
  using components_join[of p] py_split_char(2)[of "CHR ''/''" "[]" "py_join ''/'' p"]
  by (simp add: path_str_def components_def)

lemma posix_path_str: "plain_path p \<Longrightarrow> posix_path (path_str p) = (True, p)"
proof -
  assume p: "plain_path p"
  have "path_str p \<noteq> [] \<and> hd (path_str p) = CHR ''/''" by (simp add: path_str_def)
  with components_path_str[OF p] show ?thesis by (simp add: posix_path_def)
qed

lemma hd_py_join:
  assumes "plain_path p" and "p \<noteq> []"
  shows "py_join ''/'' p \<noteq> [] \<and> hd (py_join ''/'' p) \<noteq> CHR ''/''"
proof -
  obtain c cs where p: "p = c # cs" using assms(2) by (cases p) simp_all
  then have "c \<noteq> []" "CHR ''/'' \<notin> set c" using assms(1) by (simp_all add: plain_path_def)
  then obtain d ds where c: "c = d # ds" "d \<noteq> CHR ''/''" by (cases c) auto
  show ?thesis by (cases cs) (simp_all add: p c)
qed

lemma prefix_parents: "prefix r p \<longleftrightarrow> p = r \<or> r \<in> set (parents p)"
proof
  assume "prefix r p"
  then have r: "r = take (length r) p" "length r \<le> length p" by (auto simp: prefix_def)
  show "p = r \<or> r \<in> set (parents p)"
  proof (cases "length r = length p")
    case False
    with r(2) have "length r \<in> set [0..<length p]" by simp
    with r(1) have "r \<in> (\<lambda>n. take n p) ` set [0..<length p]" by blast
    then show ?thesis by (simp add: parents_def)
  qed (use r(1) in simp)
qed (auto simp: parents_def take_is_prefix)

lemma join_relative:
  assumes "prefix (root ws) p" and "plain_path p"
  shows "join_path (root ws) (relative ws p) = p"
proof -
  obtain q where q: "p = root ws @ q" using assms(1) by (auto simp: prefix_def)
  with assms(2) have "plain_path q" by simp
  show ?thesis
  proof (cases "q = []")
    case True
    have "components ''.'' = []" by (simp add: components_def py_split_char)
    with True q show ?thesis by (simp add: relative_def join_path_def)
  next
    case False
    then show ?thesis
      using hd_py_join[OF \<open>plain_path q\<close>] components_join[OF \<open>plain_path q\<close>] q
      by (auto simp: relative_def join_path_def)
  qed
qed

lemma resolve_relative:
  assumes "prefix (root ws) p" and "plain_path p" and "realpath p = p"
  shows "resolve realpath ws (relative ws p) = Inr p"
  using assms prefix_parents[of "root ws" p] by (auto simp: resolve_def join_relative)

lemma relative_inj:
  assumes "prefix (root ws) p" "plain_path p" "prefix (root ws) q" "plain_path q" "relative ws p = relative ws q"
  shows "p = q"
proof -
  have "p = join_path (root ws) (relative ws p)" by (rule join_relative[OF assms(1,2), symmetric])
  also have "\<dots> = q" unfolding assms(5) by (rule join_relative[OF assms(3,4)])
  finally show ?thesis .
qed

text \<open>A safe id is one name.\<close>

lemma id_text_chars: "id_text s \<Longrightarrow> c \<in> set s \<Longrightarrow> ascii_alnum c \<or> c \<in> set ''._-''"
  by (cases s) (auto simp: id_text_def list_all_iff)

lemma safe_chars:
  assumes "safe s"
  shows "CHR ''/'' \<notin> set s" and "s \<noteq> []" and "ascii_alnum (hd s)"
proof -
  have slash: "CHR ''/'' \<notin> set s'" if "id_text s'" for s'
    using id_text_chars[OF that, of "CHR ''/''"] by (auto simp: ascii_alnum_def code_point_def)
  have cases: "id_text s \<or> (s \<noteq> [] \<and> last s = NL \<and> id_text (butlast s))" using assms by (simp add: safe_def)
  then show "CHR ''/'' \<notin> set s"
  proof
    assume s: "s \<noteq> [] \<and> last s = NL \<and> id_text (butlast s)"
    then have "s = butlast s @ [NL]" by (metis append_butlast_last_id)
    then have "set s = insert NL (set (butlast s))" by (metis Un_insert_right list.simps(15) set_append sup_bot_right empty_set)
    with slash[of "butlast s"] s show ?thesis by auto
  qed (rule slash)
  show "s \<noteq> []" using cases by (auto simp: id_text_def)
  show "ascii_alnum (hd s)" using cases by (auto simp: id_text_def butlast_conv_take hd_take)
qed

lemma safe_session_path:
  assumes "safe session_id"
  shows "session_path r session_id = r @ [session_id @ ''.json'']" and "plain_path [session_id @ ''.json'']"
proof -
  note c = safe_chars[OF assms]
  from c have hd: "hd (session_id @ ''.json'') \<noteq> CHR ''/''" "hd (session_id @ ''.json'') \<noteq> CHR ''.''"
    by (cases session_id; auto simp: ascii_alnum_def code_point_def)+
  have "session_id @ ''.json'' \<noteq> ''.''" "session_id @ ''.json'' \<noteq> ''..''"
    using c(2) by (cases session_id; auto)+
  with c(1) show plain: "plain_path [session_id @ ''.json'']" by (auto simp: plain_path_def)
  have "components (session_id @ ''.json'') = [session_id @ ''.json'']"
    using components_join[OF plain] by simp
  with hd c(2) show "session_path r session_id = r @ [session_id @ ''.json'']"
    by (simp add: session_path_def join_path_def)
qed

section \<open>Deleting\<close>

text \<open>
  Deleting by id stays in the store. For any text given as the id, at most one file goes:
  the one of that name directly in the sessions directory; and the id is then a single name,
  with no slash in it and not beginning with a dot.
\<close>

theorem delete_confined:
  assumes "delete_session e r session_id fs = (removed, fs')"
  shows "(removed \<longrightarrow> is_file fs (realpath_of e r @ [session_id @ ''.json'']) \<and>
       fs' = fs(realpath_of e r @ [session_id @ ''.json''] := None) \<and>
       CHR ''/'' \<notin> set session_id \<and> hd session_id \<noteq> CHR ''.'') \<and>
    (\<not> removed \<longrightarrow> fs' = fs)"
proof (cases "safe session_id")
  case True
  have "hd session_id \<noteq> CHR ''.''"
    using safe_chars(3)[OF True] by (auto simp: ascii_alnum_def code_point_def)
  with assms True safe_chars(1)[OF True] show ?thesis
    by (auto simp: delete_session_def entry_path_def safe_session_path(1) is_file_def Let_def
        split: option.splits node.splits)
next
  case False
  with assms show ?thesis by (simp add: delete_session_def)
qed

section \<open>Pruning\<close>

definition names_of :: "store_env \<Rightarrow> path \<Rightarrow> fs \<Rightarrow> bool" where
  "names_of e r fs \<longleftrightarrow> distinct (scan e fs r) \<and> set (scan e fs r) = {name. fs (r @ [name]) \<noteq> None}"

lemma unlink_all_effect:
  "unlink_all ps fs = (True, fs') \<Longrightarrow> fs' = (\<lambda>p. if p \<in> set ps then None else fs p) \<and>
     (\<forall>p \<in> set ps. fs p \<noteq> Some Directory)"
proof (induction ps arbitrary: fs)
  case (Cons p ps)
  then have "fs p \<noteq> Some Directory" "unlink_all ps (fs(p := None)) = (True, fs')" by (auto split: if_splits)
  from this(1) Cons.IH[OF this(2)] show ?case by (auto simp: fun_eq_iff split: if_splits)
qed simp

lemma set_sort_reverse [simp]: "set (sort_reverse f xs) = set xs" "length (sort_reverse f xs) = length xs"
  "distinct (sort_reverse f xs) = distinct xs"
  by (simp_all add: sort_reverse_def)

lemma sorted_sort_reverse: "sorted_wrt (\<lambda>x y. f y \<le> f x) (sort_reverse f xs)"
proof -
  have "sorted_wrt (\<lambda>x y. f x \<le> f y) (sort_key f (rev xs))"
    using sorted_sort_key[of f "rev xs"] by (simp only: sorted_map)
  then show ?thesis by (simp add: sort_reverse_def sorted_wrt_rev)
qed

lemma sort_reverse_split:
  assumes "x \<in> set (take n (sort_reverse f xs))" and "y \<in> set (drop n (sort_reverse f xs))"
  shows "f y \<le> f x"
proof -
  have "sorted_wrt (\<lambda>x y. f y \<le> f x) (take n (sort_reverse f xs) @ drop n (sort_reverse f xs))"
    by (simp only: append_take_drop_id sorted_sort_reverse)
  with assms show ?thesis by (simp only: sorted_wrt_append)
qed

text \<open>
  C26. Pruning leaves a hundred, or all there are if they are fewer. When it ends well exactly that
  many sessions are left, each of them as recent as any removed one and unchanged; and what is
  no session file is untouched.
\<close>

theorem prune_keeps_recent:
  assumes "prune e r fs = (True, fs')" and "names_of e r fs"
  shows "card {name. suffix ''.json'' name \<and> fs' (r @ [name]) \<noteq> None} =
      min 100 (card {name. suffix ''.json'' name \<and> fs (r @ [name]) \<noteq> None}) \<and>
    (\<forall>p q. fs' p \<noteq> fs p \<longrightarrow> q \<in> set (saved_files e r fs) \<longrightarrow> fs' q \<noteq> None \<longrightarrow> modified fs p \<le> modified fs q) \<and>
    (\<forall>p. fs' p = fs p \<or> fs' p = None \<and> p \<in> set (saved_files e r fs))"
proof -
  let ?files = "saved_files e r fs"
  let ?sorted = "sort_reverse (modified fs) ?files"
  have fs': "fs' = (\<lambda>p. if p \<in> set (drop KEEP ?sorted) then None else fs p)"
    using unlink_all_effect[of "drop KEEP ?sorted" fs fs'] assms(1) by (simp add: prune_def)
  have files: "set ?files = (\<lambda>name. r @ [name]) ` {name. suffix ''.json'' name \<and> fs (r @ [name]) \<noteq> None}" "distinct ?files"
    using assms(2) by (auto simp: saved_files_def names_of_def distinct_map inj_on_def)
  have split: "set ?files = set (take KEEP ?sorted) \<union> set (drop KEEP ?sorted)"
    by (metis append_take_drop_id set_append set_sort_reverse(1))
  have distinct: "distinct ?sorted" using files(2) by (simp add: sort_reverse_def)
  then have apart: "set (take KEEP ?sorted) \<inter> set (drop KEEP ?sorted) = {}"
    by (rule set_take_disj_set_drop_if_distinct) simp
  have left: "(\<lambda>name. r @ [name]) ` {name. suffix ''.json'' name \<and> fs' (r @ [name]) \<noteq> None} = set (take KEEP ?sorted)"
  proof (intro set_eqI iffI)
    fix p assume "p \<in> (\<lambda>name. r @ [name]) ` {name. suffix ''.json'' name \<and> fs' (r @ [name]) \<noteq> None}"
    then have "p \<in> set ?files" "p \<notin> set (drop KEEP ?sorted)" by (auto simp: fs' files(1) split: if_splits)
    with split show "p \<in> set (take KEEP ?sorted)" by blast
  next
    fix p assume "p \<in> set (take KEEP ?sorted)"
    then have "p \<in> set ?files" "p \<notin> set (drop KEEP ?sorted)" using split apart by blast+
    then show "p \<in> (\<lambda>name. r @ [name]) ` {name. suffix ''.json'' name \<and> fs' (r @ [name]) \<noteq> None}"
      by (auto simp: fs' files(1))
  qed
  have inj: "inj_on (\<lambda>name. r @ [name]) names" for names by (simp add: inj_on_def)
  have "card {name. suffix ''.json'' name \<and> fs' (r @ [name]) \<noteq> None} = card (set (take KEEP ?sorted))"
    using card_image[OF inj, of "{name. suffix ''.json'' name \<and> fs' (r @ [name]) \<noteq> None}"] by (simp only: left)
  also have "\<dots> = min 100 (length ?files)"
    using distinct by (simp add: distinct_card KEEP_def)
  also have "length ?files = card {name. suffix ''.json'' name \<and> fs (r @ [name]) \<noteq> None}"
    using distinct_card[OF files(2)] card_image[OF inj, of "{name. suffix ''.json'' name \<and> fs (r @ [name]) \<noteq> None}"]
    by (simp only: files(1))
  finally have "card {name. suffix ''.json'' name \<and> fs' (r @ [name]) \<noteq> None} =
      min 100 (card {name. suffix ''.json'' name \<and> fs (r @ [name]) \<noteq> None})" .
  moreover have "modified fs p \<le> modified fs q"
    if "fs' p \<noteq> fs p" "q \<in> set ?files" "fs' q \<noteq> None" for p q
    using that split sort_reverse_split[of q KEEP "modified fs" ?files p] by (auto simp: fs' split: if_splits)
  moreover have "fs' p = fs p \<or> fs' p = None \<and> p \<in> set ?files" for p
    using split by (auto simp: fs')
  ultimately show ?thesis by blast
qed

section \<open>What is saved comes back\<close>

text \<open>The session file can be written where it should be, and nothing in the store is newer.\<close>

definition storable :: "store_env \<Rightarrow> rat \<Rightarrow> path \<Rightarrow> string \<Rightarrow> fs \<Rightarrow> bool" where
  "storable e now r session_id fs \<longleftrightarrow>
     safe session_id \<and> realpath_of e r = r \<and> realpath_of e (session_path r session_id) = session_path r session_id \<and>
     fromisoformat e (isoformat e now) = Some (True, now) \<and>
     (\<forall>fs. distinct (scan e fs r)) \<and> 0 < now \<and> (\<forall>p. modified fs p < now)"

lemma sort_reverse_newest:
  assumes "distinct xs" and "\<forall>y \<in> set xs. y \<noteq> x \<longrightarrow> f y < f x"
  shows "x \<notin> set (drop (Suc n) (sort_reverse f xs))"
proof
  assume dropped: "x \<in> set (drop (Suc n) (sort_reverse f xs))"
  then obtain y ys where ys: "sort_reverse f xs = y # ys" by (cases "sort_reverse f xs") simp_all
  then have y: "y \<in> set (take (Suc n) (sort_reverse f xs))" by simp
  have "y \<in> set xs" using ys set_sort_reverse(1)[of f xs] by auto
  moreover have "f x \<le> f y" using y dropped by (rule sort_reverse_split)
  ultimately have "y = x" using assms(2) by force
  moreover have "distinct (sort_reverse f xs)" using assms(1) by simp
  ultimately show False using ys dropped set_drop_subset[of n ys] by auto
qed

lemma save_writes:
  assumes "save e now r session_id git ws model messages fs = (Inr path, fs')" and "storable e now r session_id fs"
  shows "path = session_path r session_id \<and>
    fs' path = Some (File (json_dumps (session_payload e now session_id git ws model messages fs)) True now)"
proof -
  let ?p = "session_path r session_id"
  let ?text = "json_dumps (session_payload e now session_id git ws model messages fs)"
  let ?tmp = "butlast ?p @ [last ?p @ ''.tmp'']"
  have s: "safe session_id" "realpath_of e r = r" "\<And>fs. distinct (scan e fs r)" "\<And>p. modified fs p < now" "0 < now"
    using assms(2) by (simp_all add: storable_def)
  note sp = safe_session_path(1)[OF s(1), of r]
  have entry: "entry_path e ?p = ?p" by (simp add: entry_path_def sp s(2))
  obtain fs1 where fs1: "write_text ?tmp ?text now fs = Some fs1" "fs1 ?p \<noteq> Some Directory"
    "prune e r (fs1(?tmp := None, ?p \<mapsto> File ?text True now)) = (True, fs')" "path = ?p"
    using assms(1) by (auto simp: save_def entry Let_def split: option.splits if_splits prod.splits)
  define fs2 where "fs2 = fs1(?tmp := None, ?p \<mapsto> File ?text True now)"
  have "modified fs2 q < now" if "q \<noteq> ?p" for q
  proof -
    have "fs2 q = None \<or> fs2 q = Some Directory \<or> fs2 q = fs q"
      using that fs1(1) by (auto simp: fs2_def write_text_def split: if_splits)
    then show ?thesis using s(4)[of q] s(5) by (auto simp: modified_def)
  qed
  then have newer: "\<forall>q \<in> set (saved_files e r fs2). q \<noteq> ?p \<longrightarrow> modified fs2 q < modified fs2 ?p"
    by (simp add: modified_def fs2_def)
  have "distinct (saved_files e r fs2)" using s(3) by (simp add: saved_files_def distinct_map inj_on_def)
  from sort_reverse_newest[OF this newer, of 99]
  have kept: "?p \<notin> set (drop KEEP (sort_reverse (modified fs2) (saved_files e r fs2)))" by (simp add: KEEP_def)
  have "unlink_all (drop KEEP (sort_reverse (modified fs2) (saved_files e r fs2))) fs2 = (True, fs')"
    using fs1(3) unfolding prune_def fs2_def .
  from conjunct1[OF unlink_all_effect[OF this]] kept have "fs' ?p = fs2 ?p" by simp
  then show ?thesis by (simp add: fs1(4) fs2_def)
qed

lemma text_mode_id: "CR \<notin> set s \<Longrightarrow> universal_newlines s = s"
  by (induction s) auto

text \<open>The digests, and that their keys are all different.\<close>

definition digest_list :: "store_env \<Rightarrow> workspace \<Rightarrow> fs \<Rightarrow> path list \<Rightarrow> (string \<times> string) list" where
  "digest_list e ws fs ps =
     concat (map (\<lambda>p. case digest_at e fs p of None \<Rightarrow> [] | Some d \<Rightarrow> [(relative ws p, d)]) ps)"

lemma update_new: "k \<notin> fst ` set d \<Longrightarrow> AList.update k v d = d @ [(k, v)]"
  by (induction d) auto

lemma digests_step:
  "distinct (map (relative ws) ps) \<Longrightarrow> relative ws ` set ps \<inter> fst ` set acc = {} \<Longrightarrow>
   fold (\<lambda>target found.
       case digest_at e fs target of None \<Rightarrow> found | Some d \<Rightarrow> AList.update (relative ws target) d found) ps acc
     = acc @ digest_list e ws fs ps"
proof (induction ps arbitrary: acc)
  case (Cons p ps)
  show ?case
  proof (cases "digest_at e fs p")
    case None
    with Cons show ?thesis by (simp add: digest_list_def)
  next
    case (Some d)
    have "relative ws p \<notin> fst ` set acc" using Cons.prems(2) by auto
    then have "AList.update (relative ws p) d acc = acc @ [(relative ws p, d)]" by (rule update_new)
    moreover have "relative ws ` set ps \<inter> fst ` set (acc @ [(relative ws p, d)]) = {}"
      using Cons.prems by auto
    ultimately show ?thesis using Cons Some by (simp add: digest_list_def)
  qed
qed (simp add: digest_list_def)

definition in_order :: "store_env \<Rightarrow> workspace \<Rightarrow> bool" where
  "in_order e ws \<longleftrightarrow>
     finite (seen ws) \<and> (\<forall>p \<in> seen ws. prefix (root ws) p \<and> plain_path p \<and> realpath_of e p = p)"

lemma digests_list:
  assumes "in_order e ws"
  shows "digests e ws fs = digest_list e ws fs (sorted_list_of_set (seen ws))"
proof -
  have "finite (seen ws)" "inj_on (relative ws) (seen ws)"
    using assms by (auto simp: in_order_def intro!: inj_onI relative_inj[where ws = ws])
  then show ?thesis
    using digests_step[of ws "sorted_list_of_set (seen ws)" "[]" e fs] by (simp add: digests_def distinct_map)
qed

lemma keys_update: "distinct (map fst d) \<Longrightarrow> distinct (map fst (AList.update k v d))"
  by (rule distinct_update)

lemma digests_distinct: "distinct (map fst (digests e ws fs))"
proof -
  have "distinct (map fst d) \<Longrightarrow> distinct (map fst (fold (\<lambda>target found.
       case digest_at e fs target of None \<Rightarrow> found | Some d \<Rightarrow> AList.update (relative ws target) d found) ps d))" for ps d
    by (induction ps arbitrary: d) (simp_all add: distinct_update split: option.split)
  then show ?thesis by (simp add: digests_def)
qed

lemma payload_ok: "list_all json_ok messages \<Longrightarrow> json_ok (session_payload e now session_id git ws model messages fs)"
  using digests_distinct[of e ws fs]
  by (auto simp: session_payload_def list_all_iff comp_def case_prod_beta split: option.split)

lemma session_from_payload:
  assumes "fromisoformat e (isoformat e now) = Some (True, now)" and "plain_path (root ws)"
    and "session_payload e now session_id git ws model messages fs = JObj d"
  shows "version_matches (dict_get d ''version'')"
    and "session_from e d = Found \<lparr>stored_id = JStr session_id, stored_workspace = (True, root ws),
      stored_model = model, stored_updated = (True, now), stored_messages = messages,
      stored_seen = map (\<lambda>(k, d). (JStr k, JStr d)) (digests e ws fs),
      stored_head = (case git_head git of Some h \<Rightarrow> JStr h | None \<Rightarrow> JNull)\<rparr>"
proof -
  have list: "json_list (or_empty (JArr []) (JArr messages)) = Some messages"
    by (simp add: or_empty_def json_list_def)
  have map: "json_mapping (or_empty (JObj []) (JObj xs)) = Some (map (\<lambda>(k, v). (JStr k, v)) xs)" for xs
    by (simp add: or_empty_def json_mapping_def)
  show "version_matches (dict_get d ''version'')"
    using assms(3) by (auto simp: session_payload_def version_matches_def dict_get_def)
  show "session_from e d = Found \<lparr>stored_id = JStr session_id, stored_workspace = (True, root ws),
      stored_model = model, stored_updated = (True, now), stored_messages = messages,
      stored_seen = map (\<lambda>(k, d). (JStr k, JStr d)) (digests e ws fs),
      stored_head = (case git_head git of Some h \<Rightarrow> JStr h | None \<Rightarrow> JNull)\<rparr>"
    using assms(3) assms(1) posix_path_str[OF assms(2)] list
    by (auto simp: session_payload_def session_from_def dict_get_def dict_has_def json_str_def map comp_def case_prod_beta)
qed

definition saved_session ::
  "store_env \<Rightarrow> rat \<Rightarrow> string \<Rightarrow> git \<Rightarrow> workspace \<Rightarrow> string \<Rightarrow> json list \<Rightarrow> fs \<Rightarrow> stored_session" where
  "saved_session e now session_id git ws model messages fs =
     \<lparr>stored_id = JStr session_id, stored_workspace = (True, root ws),
      stored_model = model, stored_updated = (True, now), stored_messages = messages,
      stored_seen = map (\<lambda>(k, d). (JStr k, JStr d)) (digests e ws fs),
      stored_head = (case git_head git of Some h \<Rightarrow> JStr h | None \<Rightarrow> JNull)\<rparr>"

lemma load_saved:
  assumes "save e now r session_id git ws model messages fs = (Inr path, fs')" and "storable e now r session_id fs"
    and "list_all json_ok messages" and "plain_path (root ws)" and "later path = fs' path"
  shows "load e r session_id later = Found (saved_session e now session_id git ws model messages fs)"
proof -
  let ?payload = "session_payload e now session_id git ws model messages fs"
  note written = save_writes[OF assms(1,2)]
  have "later (session_path r session_id) = fs' (session_path r session_id)"
    using assms(5) conjunct1[OF written] by simp
  then have on_disk: "later (session_path r session_id) = Some (File (json_dumps ?payload) True now)"
    using conjunct2[OF written] conjunct1[OF written] by simp
  have "universal_newlines (json_dumps ?payload) = json_dumps ?payload"
    by (rule text_mode_id[OF json_dumps_no_cr[OF payload_ok[OF assms(3)]]])
  moreover have "json_loads (json_dumps ?payload) = Inr ?payload"
    by (rule codec.loads_dumps[OF payload_ok[OF assms(3)]])
  moreover obtain d where d: "?payload = JObj d" by (simp add: session_payload_def)
  ultimately have loads: "json_loads (universal_newlines (json_dumps ?payload)) = Inr (JObj d)" by simp
  from assms(2) have s: "safe session_id" "realpath_of e (session_path r session_id) = session_path r session_id"
    "fromisoformat e (isoformat e now) = Some (True, now)" by (simp_all add: storable_def)
  show ?thesis
    using session_from_payload[OF s(3) assms(4) d]
    by (simp add: load_def s(1) read_stored_def s(2) on_disk loads saved_session_def)
qed

text \<open>
  C25. A saved session comes back as it was: loading its id finds the transcript message for
  message, under its id, model, time and workspace, with the digest of every file that was
  there to be seen. The text on disk goes through the JSON writer and reader and the text
  mode of the file; pruning never takes the session just saved.
\<close>

theorem saved_session_loads:
  assumes "save e now r session_id git ws model messages fs = (Inr path, fs')" and "storable e now r session_id fs"
    and "list_all json_ok messages" and "plain_path (root ws)"
  shows "\<exists>stored. load e r session_id fs' = Found stored \<and> stored_messages stored = messages \<and>
    stored_id stored = JStr session_id \<and> stored_model stored = model \<and> stored_updated stored = (True, now) \<and>
    stored_workspace stored = (True, root ws) \<and>
    stored_seen stored = map (\<lambda>(rel, d). (JStr rel, JStr d)) (digests e ws fs)"
  using load_saved[OF assms, where later = fs'] by (simp add: saved_session_def)

section \<open>What is granted again\<close>

lemma resolve_same_root: "root ws = root ws' \<Longrightarrow> resolve realpath ws rel = resolve realpath ws' rel"
  by (simp add: resolve_def Let_def)

definition granted :: "store_env \<Rightarrow> fs \<Rightarrow> path \<Rightarrow> (json \<times> json) list \<Rightarrow> path set" where
  "granted e fs r sn =
     {p. \<exists>rel d. (JStr rel, d) \<in> set sn \<and> resolve (realpath_of e) (new_workspace r []) rel = Inr p \<and>
         is_file fs p \<and> map_option JStr (digest_at e fs p) = Some d}"

lemma granted_simps [simp]:
  "granted e fs r [] = {}"
  "granted e fs r ((JStr rel, d) # sn) =
     (case resolve (realpath_of e) (new_workspace r []) rel of
        Inl _ \<Rightarrow> {}
      | Inr p \<Rightarrow> if is_file fs p \<and> map_option JStr (digest_at e fs p) = Some d then {p} else {}) \<union> granted e fs r sn"
  by (auto simp: granted_def split: sum.splits)

lemma restore_from_grants:
  "list_all (\<lambda>(k, d). \<exists>rel. k = JStr rel) sn \<Longrightarrow>
   \<exists>a' b'. restore_from e fs sn a b ws = Some ((a', b'), ws\<lparr>seen := seen ws \<union> granted e fs (root ws) sn\<rparr>) \<and>
     a' + b' = a + b + length sn"
proof (induction sn arbitrary: a b ws)
  case (Cons x sn)
  then obtain rel d where x: "x = (JStr rel, d)" by (cases x) auto
  have root: "resolve (realpath_of e) ws rel = resolve (realpath_of e) (new_workspace (root ws) []) rel"
    by (rule resolve_same_root) (simp add: new_workspace_def)
  show ?case
  proof (cases "resolve (realpath_of e) (new_workspace (root ws) []) rel")
    case (Inl err)
    with Cons x root show ?thesis using Cons.IH[of a "b + 1" ws] by auto
  next
    case (Inr p)
    show ?thesis
    proof (cases "is_file fs p \<and> map_option JStr (digest_at e fs p) = Some d")
      case True
      obtain a' b' where r: "restore_from e fs sn (a + 1) b (ws\<lparr>seen := insert p (seen ws)\<rparr>) =
          Some ((a', b'), ws\<lparr>seen := insert p (seen ws) \<union> granted e fs (root ws) sn\<rparr>)" "a' + b' = a + 1 + b + length sn"
        using Cons.IH[of "a + 1" b "ws\<lparr>seen := insert p (seen ws)\<rparr>"] Cons.prems by auto
      have "insert p (seen ws) \<union> granted e fs (root ws) sn = seen ws \<union> granted e fs (root ws) (x # sn)"
        using True by (auto simp: x Inr)
      with r True root show ?thesis by (simp add: x Inr)
    next
      case False
      with Inr x root Cons.prems show ?thesis using Cons.IH[of a "b + 1" ws] by auto
    qed
  qed
qed simp

lemma granted_digests:
  assumes "in_order e ws" and "root ws = r"
  shows "granted e fs' r (map (\<lambda>(rel, d). (JStr rel, JStr d)) (digests e ws fs)) =
    {p \<in> seen ws. digest_at e fs p \<noteq> None \<and> digest_at e fs' p = digest_at e fs p}"
proof -
  have digest: "digest_at e fs p = Some d \<Longrightarrow> is_file fs p" for fs p d
    by (auto simp: digest_at_def is_file_def split: option.splits node.splits)
  have set: "set (digests e ws fs) = {(relative ws p, d) |p d. p \<in> seen ws \<and> digest_at e fs p = Some d}"
    using assms(1) by (auto simp: digests_list digest_list_def in_order_def split: option.splits)
  have res: "resolve (realpath_of e) (new_workspace r []) (relative ws p) = Inr p" if "p \<in> seen ws" for p
  proof -
    have "resolve (realpath_of e) (new_workspace r []) (relative ws p) = resolve (realpath_of e) ws (relative ws p)"
      by (rule resolve_same_root) (simp add: new_workspace_def assms(2))
    with resolve_relative[of ws p "realpath_of e"] that assms(1) show ?thesis by (simp add: in_order_def)
  qed
  have mem: "(JStr rel, x) \<in> set (map (\<lambda>(rel, d). (JStr rel, JStr d)) (digests e ws fs)) \<longleftrightarrow>
      (\<exists>q d. q \<in> seen ws \<and> digest_at e fs q = Some d \<and> rel = relative ws q \<and> x = JStr d)" for rel x
    by (force simp: set)
  have "p \<in> granted e fs' r (map (\<lambda>(rel, d). (JStr rel, JStr d)) (digests e ws fs)) \<longleftrightarrow>
      (\<exists>q d. q \<in> seen ws \<and> digest_at e fs q = Some d \<and>
        resolve (realpath_of e) (new_workspace r []) (relative ws q) = Inr p \<and> is_file fs' p \<and> digest_at e fs' p = Some d)" for p
    unfolding granted_def mem by auto
  then show ?thesis using res digest by fastforce
qed

text \<open>
  C13. Resuming launders nothing. When a session is saved and later, with the files in any other
  state, loaded and resumed, the agent may again edit without reading exactly those files
  that it had seen and that hold now what they held when the session was saved; every other
  one it has to read again. The two numbers reported add up to the files recorded. What counts
  is the text a file held when the session was saved, not when it was read: see
  \<open>change_before_save_regranted\<close>.
\<close>

theorem resume_grants_unchanged:
  assumes "save e now r session_id git ws model messages fs = (Inr path, fs')" and "storable e now r session_id fs"
    and "list_all json_ok messages" and "plain_path (root ws)" and "in_order e ws" and "later path = fs' path"
  shows "\<exists>stored restored stale. load e r session_id later = Found stored \<and>
    restore_seen e stored later (new_workspace (root ws) baseline) = Some ((restored, stale),
      (new_workspace (root ws) baseline)\<lparr>seen :=
        {p \<in> seen ws. digest_at e fs p \<noteq> None \<and> digest_at e later p = digest_at e fs p}\<rparr>) \<and>
    restored + stale = length (stored_seen stored)"
proof -
  let ?stored = "saved_session e now session_id git ws model messages fs"
  have "list_all (\<lambda>(k, d). \<exists>rel. k = JStr rel) (stored_seen ?stored)"
    by (auto simp: saved_session_def list_all_iff)
  from restore_from_grants[OF this, of e later 0 0 "new_workspace (root ws) baseline"]
  obtain a b where ab: "restore_seen e ?stored later (new_workspace (root ws) baseline) =
      Some ((a, b), (new_workspace (root ws) baseline)\<lparr>seen := granted e later (root ws) (stored_seen ?stored)\<rparr>)"
    "a + b = length (stored_seen ?stored)"
    by (auto simp: restore_seen_def new_workspace_def)
  have "granted e later (root ws) (stored_seen ?stored) =
      {p \<in> seen ws. digest_at e fs p \<noteq> None \<and> digest_at e later p = digest_at e fs p}"
    using granted_digests[OF assms(5) refl, of later fs] by (simp add: saved_session_def)
  with ab load_saved[OF assms(1-4), where later = later] assms(6) show ?thesis by auto
qed

definition sample_env :: store_env where
  "sample_env =
     \<lparr>realpath_of = lexical, scan = (\<lambda>fs p. filter (\<lambda>n. fs (p @ [n]) \<noteq> None) [''s1.json'', ''s0.json'']),
      sha256_of = fst, isoformat = (\<lambda>_. ''2026-01-01T00:00:00+00:00''), fromisoformat = (\<lambda>_. Some (True, 9))\<rparr>"

definition sample_fs :: fs where
  "sample_fs p =
     (if p = [''repo'', ''a.py''] then Some (File ''x = 1'' True 2)
      else if p = [''repo'', ''b.py''] then Some (File ''y = 1'' True 2)
      else if p = [''home'', ''s0.json''] then Some (File ''{}'' True 1)
      else if p \<in> {[], [''repo''], [''home'']} then Some Directory else None)"

definition sample_workspace :: workspace where
  "sample_workspace = (new_workspace [''repo''] [])\<lparr>seen := {[''repo'', ''a.py''], [''repo'', ''b.py'']}\<rparr>"

definition sample_messages :: "json list" where
  "sample_messages = [JObj [(''role'', JStr ''user''), (''content'', JStr (''hello'' @ [CR, NL]))]]"

definition no_git :: git where
  "no_git args = \<lparr>returncode = 1, stdout = [], stderr = []\<rparr>"

definition sample_save :: "(workspace_error + path) \<times> fs" where
  "sample_save = save sample_env 9 [''home''] ''s1'' no_git sample_workspace ''m'' sample_messages sample_fs"

lemma sample_storable: "storable sample_env 9 [''home''] ''s1'' sample_fs"
proof -
  have "safe ''s1''" "lexical [''home''] = [''home'']"
    "lexical (session_path [''home''] ''s1'') = session_path [''home''] ''s1''" by code_simp+
  then show ?thesis by (simp add: storable_def sample_env_def modified_def sample_fs_def)
qed

lemma sample_in_order: "in_order sample_env sample_workspace"
proof -
  have "lexical [''repo'', ''a.py''] = [''repo'', ''a.py'']" "lexical [''repo'', ''b.py''] = [''repo'', ''b.py'']" by code_simp+
  then show ?thesis by (simp add: in_order_def sample_env_def sample_workspace_def new_workspace_def plain_path_def)
qed

lemma sample_saved: "sample_save = (Inr [''home'', ''s1.json''], snd sample_save)"
proof -
  have "fst sample_save = Inr [''home'', ''s1.json'']" by code_simp
  then show ?thesis by (metis prod.collapse)
qed

lemma sample_plain: "list_all json_ok sample_messages" "plain_path (root sample_workspace)"
  by (simp_all add: sample_messages_def sample_workspace_def new_workspace_def plain_path_def)

theorem saved_session_loads_witness:
  "\<exists>stored. load sample_env [''home''] ''s1'' (snd sample_save) = Found stored \<and> stored_messages stored = sample_messages"
  using saved_session_loads[OF sample_saved[unfolded sample_save_def] sample_storable sample_plain]
  by (auto simp: sample_save_def)

theorem resume_grants_unchanged_witness:
  "\<exists>stored restored stale ws. load sample_env [''home''] ''s1'' ((snd sample_save)([''repo'', ''b.py''] \<mapsto> File ''y = 2'' True 10)) = Found stored \<and>
     restore_seen sample_env stored ((snd sample_save)([''repo'', ''b.py''] \<mapsto> File ''y = 2'' True 10)) (new_workspace [''repo''] [])
       = Some ((restored, stale), ws) \<and> [''repo'', ''b.py''] \<notin> seen ws"
proof -
  let ?later = "(snd sample_save)([''repo'', ''b.py''] \<mapsto> File ''y = 2'' True 10)"
  have later: "?later [''home'', ''s1.json''] = snd sample_save [''home'', ''s1.json'']" by simp
  have root: "root sample_workspace = [''repo'']" by (simp add: sample_workspace_def new_workspace_def)
  have "digest_at sample_env ?later [''repo'', ''b.py''] \<noteq> digest_at sample_env sample_fs [''repo'', ''b.py'']"
    by (simp add: digest_at_def sample_env_def sample_fs_def)
  with resume_grants_unchanged[OF sample_saved[unfolded sample_save_def] sample_storable sample_plain sample_in_order,
      where later = ?later and baseline = "[]"] later
  show ?thesis unfolding root sample_save_def by fastforce
qed

text \<open>
  The comment on the digests says they are of the contents when the file was read. They are of
  the contents when the session is saved: a file that changed in between is granted again
  though nobody has read what it holds.
\<close>

definition change_before_save :: "fs \<times> workspace" where
  "change_before_save =
     (sample_fs([''repo'', ''b.py''] \<mapsto> File ''y = 2'' True 3),
      snd (read_file_text lexical sample_fs ''b.py'' False (new_workspace [''repo''] [])))"

theorem change_before_save_regranted:
  "let (fs, ws) = change_before_save;
       later = snd (save sample_env 9 [''home''] ''s1'' no_git ws ''m'' sample_messages fs)
   in fst (read_file_text lexical sample_fs ''b.py'' False (new_workspace [''repo''] [])) = Inr ''y = 1'' \<and>
     (case load sample_env [''home''] ''s1'' later of
        Found stored \<Rightarrow>
          (case restore_seen sample_env stored later (new_workspace [''repo''] []) of
             Some ((restored, stale), ws) \<Rightarrow> restored = 1 \<and> [''repo'', ''b.py''] \<in> seen ws \<and>
               later [''repo'', ''b.py''] = Some (File ''y = 2'' True 3)
           | None \<Rightarrow> False)
      | _ \<Rightarrow> False)"
  by code_simp

theorem delete_confined_witness:
  "delete_session sample_env [''home''] ''../repo/a'' sample_fs = (False, sample_fs) \<and>
   snd (delete_session sample_env [''home''] ''s0'' sample_fs) = sample_fs(lexical [''home''] @ [''s0.json''] := None)"
proof
  show "delete_session sample_env [''home''] ''../repo/a'' sample_fs = (False, sample_fs)"
  proof -
    have "\<not> safe ''../repo/a''" by code_simp
    then show ?thesis by (simp add: delete_session_def)
  qed
  have "fst (delete_session sample_env [''home''] ''s0'' sample_fs)" by code_simp
  then have "delete_session sample_env [''home''] ''s0'' sample_fs =
      (True, snd (delete_session sample_env [''home''] ''s0'' sample_fs))" by (metis prod.collapse)
  from delete_confined[OF this]
  show "snd (delete_session sample_env [''home''] ''s0'' sample_fs) = sample_fs(lexical [''home''] @ [''s0.json''] := None)"
    by (simp add: sample_env_def)
qed

theorem prune_keeps_recent_witness:
  "card {name. suffix ''.json'' name \<and> snd (prune sample_env [''home''] sample_fs) ([''home''] @ [name]) \<noteq> None} = 1"
proof -
  have "fst (prune sample_env [''home''] sample_fs)" by code_simp
  then have p: "prune sample_env [''home''] sample_fs = (True, snd (prune sample_env [''home''] sample_fs))" by (metis prod.collapse)
  have n: "names_of sample_env [''home''] sample_fs" by (auto simp: names_of_def sample_env_def sample_fs_def)
  have "suffix ''.json'' ''s0.json''" by code_simp
  then have "{name. suffix ''.json'' name \<and> sample_fs ([''home''] @ [name]) \<noteq> None} = {''s0.json''}"
    by (auto simp: sample_fs_def)
  with prune_keeps_recent[OF p n] show ?thesis by simp
qed

end
