(* ===== verification/Documents.thy ===== *)
theory Documents
  imports Tools Store
begin

text \<open>
  \<open>llm_assistant_agent/documents.py\<close>: the digest of a PDF, a delimited file or a workbook, and
  its text. Parameters are the two optional libraries with what they find in a file, the
  guess of \<open>csv.Sniffer\<close>, what decoding makes of bytes that are no UTF-8, and the exception
  of a file that cannot be read. The reader \<open>csv.reader\<close> is modelled state by state.
  Positions on a page are rationals; that a workbook is closed is left aside.
\<close>

section \<open>Bounds and failures\<close>

definition MAX_PAGES :: nat where "MAX_PAGES = 3"
definition MAX_ROWS :: nat where "MAX_ROWS = 3"
definition MAX_COLUMNS :: nat where "MAX_COLUMNS = 12"
definition MAX_CELL :: nat where "MAX_CELL = 40"
definition MAX_TEXT :: nat where "MAX_TEXT = 15000"
definition COLUMN_TOLERANCE :: int where "COLUMN_TOLERANCE = 3"
definition MIN_COLUMN_ROWS :: nat where "MIN_COLUMN_ROWS = 2"

text \<open>What is raised: the extra that is missing, or any exception, with its type and its text.\<close>

datatype doc_failure = Missing_Extra string | Exc string string

definition missing_message :: "string \<Rightarrow> string" where
  "missing_message kind =
     ''Reading '' @ kind @ '' files needs an optional dependency that is not installed. ''
     @ ''Ask the user to run: pip install '' @ [QUOTE] @ ''llm-assistant-api[documents]'' @ [QUOTE]"

text \<open>A library that may not be installed, and may raise on the file.\<close>

datatype 'a opened = Not_Installed | Raises string string | Opens 'a

definition import_open :: "string \<Rightarrow> 'a opened \<Rightarrow> doc_failure + 'a" where
  "import_open kind library =
     (case library of
        Not_Installed \<Rightarrow> Inl (Missing_Extra kind) | Raises t m \<Rightarrow> Inl (Exc t m) | Opens x \<Rightarrow> Inr x)"

text \<open>A comprehension or a loop whose body may raise.\<close>

fun collected :: "('a \<Rightarrow> doc_failure + 'b) \<Rightarrow> 'a list \<Rightarrow> doc_failure + 'b list" where
  "collected f [] = Inr []"
| "collected f (x # xs) =
     (case f x of
        Inl e \<Rightarrow> Inl e
      | Inr y \<Rightarrow> map_sum id (Cons y) (collected f xs))"

section \<open>What the libraries find\<close>

text \<open>
  A page: its words, each with the position its row starts at (None where that is no
  number), its tables, its text. Each is asked for on its own and may raise.
\<close>

record pdf_page =
  page_words :: "doc_failure + rat option list"
  page_tables :: "doc_failure + string option list list list"
  page_text :: "doc_failure + string"

text \<open>
  A sheet: its values as text (None for an empty cell) up to a given row, and its extent as
  Python prints it.
\<close>

record sheet =
  iter_rows :: "nat option \<Rightarrow> doc_failure + string option list list"
  max_row :: string
  max_column :: string

record doc_env =
  open_pdf :: "fs \<Rightarrow> path \<Rightarrow> pdf_page list opened"
  load_workbook :: "fs \<Rightarrow> path \<Rightarrow> (string \<times> sheet) list opened"
  sniff :: "string \<Rightarrow> char option"
  replacing :: "string \<Rightarrow> string"
  unreadable :: "fs \<Rightarrow> path \<Rightarrow> string \<times> string"

section \<open>Names, rows and cells\<close>

definition path_name :: "path \<Rightarrow> string" where
  "path_name p = (if p = [] then [] else last p)"

definition path_suffix :: "path \<Rightarrow> string" where
  "path_suffix p =
     (let name = path_name p; dots = py_positions name ''.'' in
      if dots \<noteq> [] \<and> 0 < last dots \<and> last dots < length name - 1 then drop (last dots) name else [])"

definition cell :: "string option \<Rightarrow> string" where
  "cell v = (case v of None \<Rightarrow> [] | Some t \<Rightarrow> t)"

definition row_text :: "string option list \<Rightarrow> string" where
  "row_text row =
     py_join '' | '' (map (\<lambda>c. take MAX_CELL (py_replace [NL] '' '' (cell c))) (take MAX_COLUMNS row))
     @ (if length row > MAX_COLUMNS then '' | ...'' else [])"

definition cap :: "string \<Rightarrow> string" where
  "cap text =
     (if length text \<le> MAX_TEXT then text
      else take MAX_TEXT text @ [NL] @ ''... '' @ str_nat (length text - MAX_TEXT) @ '' more characters not shown.'')"

text \<open>The header and sample rows of a table, each after its label.\<close>

definition row_labels :: "string list" where
  "row_labels = ''header'' # map (\<lambda>i. ''row '' @ str_nat i) [1..<Suc MAX_ROWS]"

definition labelled_rows :: "string option list list \<Rightarrow> string list" where
  "labelled_rows rows = map (\<lambda>(label, row). ''    '' @ label @ '': '' @ row_text row) (zip row_labels rows)"

section \<open>PDF\<close>

definition describe_table :: "nat \<Rightarrow> string option list list \<Rightarrow> string list" where
  "describe_table index table =
     (if table = [] then []
      else (''  table '' @ str_nat index @ '': '' @ str_nat (Max (set (map length table))) @ '' columns x ''
              @ str_nat (length table) @ '' rows'')
           # labelled_rows (take (MAX_ROWS + 1) table))"

text \<open>Python's \<open>round\<close>: the nearer integer, of two equally near the even one.\<close>

definition py_round :: "rat \<Rightarrow> int" where
  "py_round x =
     (let f = \<lfloor>x\<rfloor>; rest = x - of_int f in
      if rest < 1 / 2 then f else if 1 / 2 < rest then f + 1 else if even f then f else f + 1)"

definition column_of :: "rat \<Rightarrow> int" where
  "column_of x = py_round (x / of_int COLUMN_TOLERANCE) * COLUMN_TOLERANCE"

definition count_column :: "int \<Rightarrow> (int \<times> nat) list \<Rightarrow> (int \<times> nat) list" where
  "count_column x counts = AList.update x (case map_of counts x of None \<Rightarrow> 1 | Some n \<Rightarrow> Suc n) counts"

definition column_counts :: "rat option list \<Rightarrow> (int \<times> nat) list" where
  "column_counts found =
     fold (\<lambda>w counts. case w of None \<Rightarrow> counts | Some x \<Rightarrow> count_column (column_of x) counts) found []"

text \<open>The columns are distinct, so that sorting by position is sorting the pairs.\<close>

definition column_positions :: "rat option list \<Rightarrow> (int \<times> nat) list" where
  "column_positions found =
     (let candidates = filter (\<lambda>(x, n). n \<ge> MIN_COLUMN_ROWS) (column_counts found);
          best = take MAX_COLUMNS (sort_reverse snd candidates)
      in sort_key fst best)"

definition columns_line :: "(int \<times> nat) list \<Rightarrow> string list" where
  "columns_line columns =
     (if columns = [] then []
      else [''  text columns start at x: ''
              @ py_join '', '' (map (\<lambda>(x, n). str_int x @ '' ('' @ str_nat n @ '' rows)'') columns)])"

definition text_lines :: "string \<Rightarrow> string list" where
  "text_lines text =
     concat (map (\<lambda>line. if py_strip line \<noteq> [] then [''    '' @ take 120 line] else [])
       (take (MAX_ROWS + 2) (py_splitlines text)))"

definition describe_page :: "nat \<Rightarrow> pdf_page \<Rightarrow> doc_failure + string list" where
  "describe_page number page =
     (case page_words page of
        Inl e \<Rightarrow> Inl e
      | Inr found \<Rightarrow>
     (case page_tables page of
        Inl e \<Rightarrow> Inl e
      | Inr tables \<Rightarrow>
          let lines = [[NL] @ ''page '' @ str_nat number @ '': '' @ str_nat (length found) @ '' words'']
                @ concat (map (\<lambda>(index, table). describe_table index table) (zip [1..<Suc (length tables)] tables))
                @ columns_line (column_positions found)
          in if tables \<noteq> [] then Inr lines
             else map_sum id (\<lambda>text. lines @ text_lines text) (page_text page)))"

definition describe_pdf :: "doc_env \<Rightarrow> fs \<Rightarrow> path \<Rightarrow> doc_failure + string" where
  "describe_pdf D fs p =
     (case import_open ''PDF'' (open_pdf D fs p) of
        Inl e \<Rightarrow> Inl e
      | Inr pages \<Rightarrow>
          let heading = path_name p @ '' - PDF, '' @ str_nat (length pages) @ '' page'' @ plural (length pages);
              further = (if length pages > MAX_PAGES
                         then [[NL] @ ''... '' @ str_nat (length pages - MAX_PAGES) @ '' further pages not shown.''] else [])
          in map_sum id (\<lambda>described. py_join [NL] (heading # concat described @ further))
               (collected (\<lambda>(number, page). describe_page number page)
                  (zip [1..<Suc (length pages)] (take MAX_PAGES pages))))"

definition pdf_text :: "doc_env \<Rightarrow> fs \<Rightarrow> path \<Rightarrow> doc_failure + string" where
  "pdf_text D fs p =
     (case import_open ''PDF'' (open_pdf D fs p) of
        Inl e \<Rightarrow> Inl e
      | Inr pages \<Rightarrow> map_sum id (py_join [NL, NL]) (collected page_text pages))"


section \<open>csv.reader\<close>

text \<open>
  The states of CPython's reader, its quote the double quote, doubled inside quotes, and not
  strict. Its input are lines with their line feeds; None stands for the end of a line.
\<close>

abbreviation (input) DQ :: char where "DQ \<equiv> CHR 0x22"

datatype csv_state = Start_Record | Start_Field | In_Field | In_Quoted_Field | Quote_In_Quoted_Field | Eat_Crnl

record csv_machine =
  csv_at :: csv_state
  csv_fields :: "string list"
  csv_field :: string

definition FIELD_LIMIT :: nat where "FIELD_LIMIT = 131072"

definition csv_error :: "string \<Rightarrow> doc_failure" where
  "csv_error m = Exc ''Error'' m"

definition fresh_reader :: csv_machine where
  "fresh_reader = \<lparr>csv_at = Start_Record, csv_fields = [], csv_field = []\<rparr>"

definition save_field :: "csv_state \<Rightarrow> csv_machine \<Rightarrow> csv_machine" where
  "save_field next_state r = \<lparr>csv_at = next_state, csv_fields = csv_fields r @ [csv_field r], csv_field = []\<rparr>"

definition add_char :: "csv_state \<Rightarrow> char \<Rightarrow> csv_machine \<Rightarrow> doc_failure + csv_machine" where
  "add_char next_state c r =
     (if length (csv_field r) \<ge> FIELD_LIMIT
      then Inl (csv_error (''field larger than field limit ('' @ str_nat FIELD_LIMIT @ '')''))
      else Inr (r\<lparr>csv_at := next_state, csv_field := csv_field r @ [c]\<rparr>))"

definition ends_line :: "char option \<Rightarrow> bool" where
  "ends_line c \<longleftrightarrow> c \<in> {None, Some NL, Some CR}"

definition after_line :: "char option \<Rightarrow> csv_state" where
  "after_line c = (if c = None then Start_Record else Eat_Crnl)"

definition start_field :: "char \<Rightarrow> char option \<Rightarrow> csv_machine \<Rightarrow> doc_failure + csv_machine" where
  "start_field d c r =
     (if ends_line c then Inr (save_field (after_line c) r)
      else if c = Some DQ then Inr (r\<lparr>csv_at := In_Quoted_Field\<rparr>)
      else if c = Some d then Inr (save_field Start_Field r)
      else add_char In_Field (the c) r)"

definition process_char :: "char \<Rightarrow> char option \<Rightarrow> csv_machine \<Rightarrow> doc_failure + csv_machine" where
  "process_char d c r =
     (case csv_at r of
        Start_Record \<Rightarrow>
          if c = None then Inr r
          else if ends_line c then Inr (r\<lparr>csv_at := Eat_Crnl\<rparr>)
          else start_field d c r
      | Start_Field \<Rightarrow> start_field d c r
      | In_Field \<Rightarrow>
          if ends_line c then Inr (save_field (after_line c) r)
          else if c = Some d then Inr (save_field Start_Field r)
          else add_char In_Field (the c) r
      | In_Quoted_Field \<Rightarrow>
          if c = None then Inr r
          else if c = Some DQ then Inr (r\<lparr>csv_at := Quote_In_Quoted_Field\<rparr>)
          else add_char In_Quoted_Field (the c) r
      | Quote_In_Quoted_Field \<Rightarrow>
          if c = Some DQ then add_char In_Quoted_Field DQ r
          else if c = Some d then Inr (save_field Start_Field r)
          else if ends_line c then Inr (save_field (after_line c) r)
          else add_char In_Field (the c) r
      | Eat_Crnl \<Rightarrow>
          if c = None then Inr (r\<lparr>csv_at := Start_Record\<rparr>)
          else if ends_line c then Inr r
          else Inl (csv_error (''new-line character seen in unquoted field - ''
                 @ ''do you need to open the file with newline='' @ [QUOTE, QUOTE] @ ''?'')))"

fun process_line :: "char \<Rightarrow> char option list \<Rightarrow> csv_machine \<Rightarrow> doc_failure + csv_machine" where
  "process_line d [] r = Inr r"
| "process_line d (c # cs) r =
     (case process_char d c r of Inl e \<Rightarrow> Inl e | Inr r' \<Rightarrow> process_line d cs r')"

text \<open>Reading on until a row is complete, and what is left of a row when the lines end.\<close>

fun csv_rows :: "char \<Rightarrow> csv_machine \<Rightarrow> string list \<Rightarrow> doc_failure + string list list" where
  "csv_rows d r [] =
     Inr (if csv_field r \<noteq> [] \<or> csv_at r = In_Quoted_Field then [csv_fields r @ [csv_field r]] else [])"
| "csv_rows d r (line # lines) =
     (case process_line d (map Some line @ [None]) r of
        Inl e \<Rightarrow> Inl e
      | Inr r' \<Rightarrow>
          if csv_at r' = Start_Record then map_sum id (Cons (csv_fields r')) (csv_rows d fresh_reader lines)
          else csv_rows d r' lines)"

text \<open>The lines of an \<open>io.StringIO\<close>, which ends them at line feeds only.\<close>

fun kept_lines :: "string \<Rightarrow> string list" where
  "kept_lines [] = []"
| "kept_lines (c # cs) =
     (if c = NL then [NL] # kept_lines cs
      else (case kept_lines cs of [] \<Rightarrow> [[c]] | line # lines \<Rightarrow> (c # line) # lines))"

definition csv_reader :: "char \<Rightarrow> string \<Rightarrow> doc_failure + string list list" where
  "csv_reader d text = csv_rows d fresh_reader (kept_lines text)"

section \<open>Delimited text\<close>

text \<open>
  \<open>float(text)\<close> reads a text: underscores between digits, a sign, digits with a point and an
  exponent, or one of the names.
\<close>

fun ungrouped :: "char \<Rightarrow> string \<Rightarrow> string option" where
  "ungrouped before [] = (if before = CHR ''_'' then None else Some [])"
| "ungrouped before (c # cs) =
     (if c = CHR ''_'' then (if is_digit before then ungrouped c cs else None)
      else if before = CHR ''_'' \<and> \<not> is_digit c then None
      else map_option (Cons c) (ungrouped c cs))"

definition unsigned :: "string \<Rightarrow> string" where
  "unsigned s = (if s \<noteq> [] \<and> hd s \<in> set ''+-'' then tl s else s)"

definition exponent_text :: "string \<Rightarrow> bool" where
  "exponent_text s \<longleftrightarrow>
     s = [] \<or> (hd s \<in> set ''eE'' \<and> unsigned (tl s) \<noteq> [] \<and> list_all is_digit (unsigned (tl s)))"

definition decimal_text :: "string \<Rightarrow> bool" where
  "decimal_text s =
     (let whole = takeWhile is_digit s; rest = dropWhile is_digit s in
      if rest \<noteq> [] \<and> hd rest = CHR ''.''
      then (whole \<noteq> [] \<or> takeWhile is_digit (tl rest) \<noteq> []) \<and> exponent_text (dropWhile is_digit (tl rest))
      else whole \<noteq> [] \<and> exponent_text rest)"

definition reads_as_float :: "string \<Rightarrow> bool" where
  "reads_as_float text =
     (case ungrouped (CHR 0x00) (py_strip text) of
        None \<Rightarrow> False
      | Some t \<Rightarrow> py_lower (unsigned t) \<in> {''inf'', ''infinity'', ''nan''} \<or> decimal_text (unsigned t))"

definition POUND :: char where "POUND = CHR 0xA3"

definition numeric :: "string \<Rightarrow> bool" where
  "numeric v = reads_as_float (py_strip (py_replace ''$'' [] (py_replace [POUND] [] (py_replace '','' [] v))))"

text \<open>\<open>str.isdigit\<close>, superscripts included, and the separators of a date.\<close>

definition py_isdigit :: "char \<Rightarrow> bool" where
  "py_isdigit c \<longleftrightarrow> is_digit c \<or> code_point c \<in> {178, 179, 185}"

definition date_like :: "string \<Rightarrow> bool" where
  "date_like v \<longleftrightarrow>
     length (filter py_isdigit v) \<ge> 4 \<and> sum_list (map (\<lambda>c. py_count v [c]) ''/-.'') \<ge> 2"

definition kind_of :: "string list \<Rightarrow> string" where
  "kind_of vs =
     (if vs = [] then ''empty''
      else if list_all numeric vs then ''numeric''
      else if list_all date_like vs then ''date-like''
      else ''text'')"

definition column_values :: "string list list \<Rightarrow> nat \<Rightarrow> string list" where
  "column_values body index =
     map (\<lambda>row. row ! index)
       (filter (\<lambda>row. index < length row \<and> py_strip (row ! index) \<noteq> []) (take 50 body))"

definition column_line :: "string list list \<Rightarrow> nat \<Rightarrow> string \<Rightarrow> string" where
  "column_line body index name =
     (let vs = column_values body index; shown_name = take 30 name in
      ''    '' @ shown_name @ replicate (30 - length shown_name) (CHR '' '') @ '' ('' @ kind_of vs @ '')  e.g. ''
      @ py_join '', '' (map (take MAX_CELL) (take 2 vs)))"

definition delimited_digest :: "path \<Rightarrow> char \<Rightarrow> string list \<Rightarrow> string list list \<Rightarrow> string" where
  "delimited_digest p d header body =
     py_join [NL]
       ([path_name p @ '' - '' @ ascii_upper (dropWhile (\<lambda>c. c = CHR ''.'') (path_suffix p)) @ '', ''
           @ str_nat (length body) @ '' data rows, '' @ str_nat (length header) @ '' columns'',
         ''  delimiter: '' @ py_repr [d],
         ''  columns:'']
        @ map (\<lambda>(index, name). column_line body index name)
            (zip [0..<length (take MAX_COLUMNS header)] (take MAX_COLUMNS header))
        @ (if length header > MAX_COLUMNS
           then [''    ... and '' @ str_nat (length header - MAX_COLUMNS) @ '' more columns''] else [])
        @ map (\<lambda>(number, row). ''  row '' @ str_nat number @ '': '' @ row_text (map Some row))
            (zip [1..<Suc MAX_ROWS] (take MAX_ROWS body)))"

definition read_replacing :: "doc_env \<Rightarrow> fs \<Rightarrow> path \<Rightarrow> doc_failure + string" where
  "read_replacing D fs p =
     (case fs p of
        Some (File source utf8 t) \<Rightarrow> Inr (universal_newlines (if utf8 then source else replacing D source))
      | _ \<Rightarrow> Inl (Exc (fst (unreadable D fs p)) (snd (unreadable D fs p))))"

definition delimiter_of :: "doc_env \<Rightarrow> path \<Rightarrow> string \<Rightarrow> char" where
  "delimiter_of D p text =
     (case sniff D (take 8192 text) of
        Some d \<Rightarrow> d
      | None \<Rightarrow> if py_lower (path_suffix p) = ''.tsv'' then TAB else CHR '','')"

definition describe_delimited :: "doc_env \<Rightarrow> fs \<Rightarrow> path \<Rightarrow> doc_failure + string" where
  "describe_delimited D fs p =
     (case read_replacing D fs p of
        Inl e \<Rightarrow> Inl e
      | Inr text \<Rightarrow>
     (case csv_reader (delimiter_of D p text) text of
        Inl e \<Rightarrow> Inl e
      | Inr [] \<Rightarrow> Inr (path_name p @ '' - empty'')
      | Inr (header # body) \<Rightarrow> Inr (delimited_digest p (delimiter_of D p text) header body)))"

section \<open>Workbooks\<close>

definition describe_sheet :: "string \<times> sheet \<Rightarrow> doc_failure + string list" where
  "describe_sheet named =
     (let (name, s) = named in
      map_sum id
        (\<lambda>rows. ([NL] @ ''  sheet '' @ py_repr name @ '' - '' @ max_row s @ '' rows x '' @ max_column s @ '' columns'')
                # labelled_rows rows)
        (iter_rows s (Some (MAX_ROWS + 1))))"

definition describe_workbook :: "doc_env \<Rightarrow> fs \<Rightarrow> path \<Rightarrow> doc_failure + string" where
  "describe_workbook D fs p =
     (case import_open ''XLSX'' (load_workbook D fs p) of
        Inl e \<Rightarrow> Inl e
      | Inr book \<Rightarrow>
          map_sum id
            (\<lambda>described. py_join [NL]
               ((path_name p @ '' - XLSX, '' @ str_nat (length book) @ '' sheet(s)'') # concat described))
            (collected describe_sheet book))"

definition sheet_text :: "string \<times> sheet \<Rightarrow> doc_failure + string list" where
  "sheet_text named =
     (let (name, s) = named in
      map_sum id (\<lambda>rows. (''# '' @ name) # map (\<lambda>row. py_join [TAB] (map cell row)) rows) (iter_rows s None))"

definition workbook_text :: "doc_env \<Rightarrow> fs \<Rightarrow> path \<Rightarrow> doc_failure + string" where
  "workbook_text D fs p =
     (case import_open ''XLSX'' (load_workbook D fs p) of
        Inl e \<Rightarrow> Inl e
      | Inr book \<Rightarrow> map_sum id (\<lambda>texts. py_join [NL] (concat texts)) (collected sheet_text book))"

section \<open>What the tool calls\<close>

definition not_a_document :: "path \<Rightarrow> string" where
  "not_a_document p = path_name p @ '' is not a document this tool reads. Try read_file.''"

definition describe_any :: "doc_env \<Rightarrow> fs \<Rightarrow> path \<Rightarrow> doc_failure + string" where
  "describe_any D fs p =
     (let kind = py_lower (path_suffix p) in
      if kind = ''.pdf'' then describe_pdf D fs p
      else if kind \<in> {''.csv'', ''.tsv''} then describe_delimited D fs p
      else if kind \<in> {''.xlsx'', ''.xlsm''} then describe_workbook D fs p
      else Inr (not_a_document p))"

definition extract_any :: "doc_env \<Rightarrow> fs \<Rightarrow> path \<Rightarrow> doc_failure + string" where
  "extract_any D fs p =
     (let kind = py_lower (path_suffix p) in
      if kind = ''.pdf'' then map_sum id cap (pdf_text D fs p)
      else if kind \<in> {''.csv'', ''.tsv''} then map_sum id cap (read_replacing D fs p)
      else if kind \<in> {''.xlsx'', ''.xlsm''} then map_sum id cap (workbook_text D fs p)
      else Inr (not_a_document p))"

definition guard :: "path \<Rightarrow> doc_failure + string \<Rightarrow> string" where
  "guard p result =
     (case result of
        Inr text \<Rightarrow> text
      | Inl (Missing_Extra kind) \<Rightarrow> missing_message kind
      | Inl (Exc t m) \<Rightarrow> path_name p @ '' could not be read: '' @ t @ '': '' @ m)"

definition describe :: "doc_env \<Rightarrow> fs \<Rightarrow> path \<Rightarrow> string" where
  "describe D fs p = guard p (describe_any D fs p)"

definition extract_text :: "doc_env \<Rightarrow> fs \<Rightarrow> path \<Rightarrow> string" where
  "extract_text D fs p = guard p (extract_any D fs p)"

text \<open>The tools, with these readers.\<close>

definition with_documents :: "doc_env \<Rightarrow> tool_env \<Rightarrow> tool_env" where
  "with_documents D E = E\<lparr>env_describe := describe D, env_extract_text := extract_text D\<rparr>"


section \<open>Reading a table back\<close>

text \<open>The reader a character at a time: a line feed, or the end of the text, ends a line.\<close>

fun csv_chars :: "char \<Rightarrow> csv_machine \<Rightarrow> string \<Rightarrow> doc_failure + string list list" where
  "csv_chars d r [] = csv_rows d r []"
| "csv_chars d r (c # cs) =
     (case process_char d (Some c) r of
        Inl e \<Rightarrow> Inl e
      | Inr r' \<Rightarrow>
          if c = NL \<or> cs = []
          then (case process_char d None r' of
                  Inl e \<Rightarrow> Inl e
                | Inr q \<Rightarrow> if csv_at q = Start_Record then map_sum id (Cons (csv_fields q)) (csv_chars d fresh_reader cs)
                           else csv_chars d q cs)
          else csv_chars d r' cs)"

lemma kept_lines_Nil [simp]: "kept_lines cs = [] \<longleftrightarrow> cs = []"
  by (cases cs) (auto split: list.splits)

lemma csv_rows_chars: "csv_rows d r (kept_lines s) = csv_chars d r s"
proof (induction s arbitrary: r)
  case (Cons c cs)
  show ?case
  proof (cases "c = NL \<or> cs = []")
    case True
    then show ?thesis using Cons.IH by (auto split: sum.splits)
  next
    case False
    then obtain line lines where cs: "kept_lines cs = line # lines" by (cases "kept_lines cs") auto
    have "csv_rows d r (kept_lines (c # cs)) =
        (case process_char d (Some c) r of Inl e \<Rightarrow> Inl e | Inr r' \<Rightarrow> csv_rows d r' (kept_lines cs))"
      using False by (simp add: cs split: sum.split)
    with False show ?thesis by (simp add: Cons.IH split: sum.split)
  qed
qed simp

text \<open>A table as it is written with every cell in quotes, the quotes in it doubled.\<close>

definition doubled :: "string \<Rightarrow> string" where
  "doubled c = concat (map (\<lambda>x. if x = DQ then [DQ, DQ] else [x]) c)"

definition quoted_row :: "char \<Rightarrow> string list \<Rightarrow> string" where
  "quoted_row d row = py_join [d] (map (\<lambda>c. [DQ] @ doubled c @ [DQ]) row) @ [NL]"

definition quoted_table :: "char \<Rightarrow> string list list \<Rightarrow> string" where
  "quoted_table d rows = concat (map (quoted_row d) rows)"

lemmas reader_defs = process_char_def start_field_def save_field_def add_char_def ends_line_def after_line_def

lemma set_py_join_subset: "set (py_join sep parts) \<subseteq> set sep \<union> (\<Union>x \<in> set parts. set x)"
  by (induction sep parts rule: py_join.induct) auto

lemma csv_chars_doubled:
  assumes "rest \<noteq> []" and "length (csv_field r) + length c \<le> FIELD_LIMIT" and "csv_at r = In_Quoted_Field"
  shows "csv_chars d r (doubled c @ DQ # rest) =
    csv_chars d (r\<lparr>csv_at := Quote_In_Quoted_Field, csv_field := csv_field r @ c\<rparr>) rest"
  using assms(2,3)
proof (induction c arbitrary: r)
  case Nil
  with assms(1) show ?case by (simp add: doubled_def reader_defs)
next
  case (Cons x c)
  let ?r = "r\<lparr>csv_at := In_Quoted_Field, csv_field := csv_field r @ [x]\<rparr>"
  have "csv_chars d r (doubled (x # c) @ DQ # rest) = csv_chars d ?r (doubled c @ DQ # rest)"
    using Cons.prems by (simp add: doubled_def reader_defs)
  with Cons.IH[of ?r] Cons.prems show ?case by simp
qed

lemma csv_chars_quoted:
  assumes "rest \<noteq> []" and "length c \<le> FIELD_LIMIT" and "q \<in> {Start_Record, Start_Field}"
  shows "csv_chars d \<lparr>csv_at = q, csv_fields = fs, csv_field = []\<rparr> (DQ # doubled c @ DQ # rest) =
    csv_chars d \<lparr>csv_at = Quote_In_Quoted_Field, csv_fields = fs, csv_field = c\<rparr> rest"
proof -
  have "process_char d (Some DQ) \<lparr>csv_at = q, csv_fields = fs, csv_field = []\<rparr> =
      Inr \<lparr>csv_at = In_Quoted_Field, csv_fields = fs, csv_field = []\<rparr>"
    using assms(3) by (elim insertE) (simp_all add: reader_defs)
  then show ?thesis
    using assms(1,2) csv_chars_doubled[of rest "\<lparr>csv_at = In_Quoted_Field, csv_fields = fs, csv_field = []\<rparr>" c d]
    by simp
qed

lemma csv_chars_row:
  assumes "row \<noteq> []" and "d \<notin> {DQ, NL}" and "\<forall>c \<in> set row. length c \<le> FIELD_LIMIT"
    and "q \<in> {Start_Record, Start_Field}"
  shows "csv_chars d \<lparr>csv_at = q, csv_fields = fs, csv_field = []\<rparr> (quoted_row d row @ rest) =
    map_sum id (Cons (fs @ row)) (csv_chars d fresh_reader rest)"
  using assms(1,3,4)
proof (induction row arbitrary: fs q rule: list_nonempty_induct)
  case (single c)
  have "csv_chars d \<lparr>csv_at = q, csv_fields = fs, csv_field = []\<rparr> (quoted_row d [c] @ rest) =
      csv_chars d \<lparr>csv_at = Quote_In_Quoted_Field, csv_fields = fs, csv_field = c\<rparr> (NL # rest)"
    using single csv_chars_quoted[of "NL # rest" c q d fs] by (simp add: quoted_row_def del: csv_chars.simps)
  also have "\<dots> = map_sum id (Cons (fs @ [c])) (csv_chars d fresh_reader rest)"
    using assms(2) by (auto simp: reader_defs)
  finally show ?case .
next
  case (cons c row)
  have "csv_chars d \<lparr>csv_at = q, csv_fields = fs, csv_field = []\<rparr> (quoted_row d (c # row) @ rest) =
      csv_chars d \<lparr>csv_at = Quote_In_Quoted_Field, csv_fields = fs, csv_field = c\<rparr> (d # quoted_row d row @ rest)"
    using cons csv_chars_quoted[of "d # quoted_row d row @ rest" c q d fs]
    by (cases row) (simp_all add: quoted_row_def del: csv_chars.simps)
  also have "\<dots> = csv_chars d \<lparr>csv_at = Start_Field, csv_fields = fs @ [c], csv_field = []\<rparr> (quoted_row d row @ rest)"
    using assms(2) by (auto simp: reader_defs quoted_row_def)
  also have "\<dots> = map_sum id (Cons (fs @ c # row)) (csv_chars d fresh_reader rest)"
    using cons.IH[of Start_Field "fs @ [c]"] cons.prems by (simp add: id_def)
  finally show ?case .
qed

lemma csv_reader_quoted:
  assumes "d \<notin> {DQ, NL}" and "\<forall>row \<in> set rows. \<forall>c \<in> set row. length c \<le> FIELD_LIMIT"
  shows "csv_reader d (quoted_table d rows) = Inr rows"
proof -
  have "csv_chars d fresh_reader (quoted_table d rows) = Inr rows"
    using assms(2)
  proof (induction rows)
    case Nil
    then show ?case by (simp add: quoted_table_def fresh_reader_def)
  next
    case (Cons row rows)
    have "csv_chars d fresh_reader (quoted_row d row @ quoted_table d rows) =
        map_sum id (Cons row) (csv_chars d fresh_reader (quoted_table d rows))"
    proof (cases "row = []")
      case True
      then show ?thesis by (simp add: quoted_row_def fresh_reader_def reader_defs)
    next
      case False
      with csv_chars_row[OF False assms(1), of Start_Record "[]"] Cons.prems
      show ?thesis by (simp add: fresh_reader_def)
    qed
    with Cons show ?case by (simp add: quoted_table_def)
  qed
  then show ?thesis by (simp add: csv_reader_def csv_rows_chars)
qed


text \<open>
  C34. A delimited file in which every cell is quoted is read whole, whatever separators, quotes
  and line feeds stand in its cells: the digest counts exactly the rows and columns that were
  written, and its columns and sample rows are theirs.
\<close>

theorem quoted_file_digest:
  assumes "py_lower (path_suffix p) \<in> {''.csv'', ''.tsv''}"
    and "fs p = Some (File (quoted_table d (header # body)) True t)"
    and "delimiter_of D p (quoted_table d (header # body)) = d"
    and "d \<notin> {DQ, NL, CR}"
    and "\<forall>row \<in> set (header # body). \<forall>c \<in> set row. CR \<notin> set c \<and> length c \<le> FIELD_LIMIT"
  shows "describe D fs p = delimited_digest p d header body"
proof -
  have doubled: "set (doubled c) = set c" for c by (auto simp: doubled_def split: if_splits)
  have row: "CR \<notin> set (quoted_row d row)" if "\<forall>c \<in> set row. CR \<notin> set c" for row
    using that assms(4) set_py_join_subset[of "[d]" "map (\<lambda>c. [DQ] @ doubled c @ [DQ]) row"]
    by (auto simp: quoted_row_def doubled split: if_splits)
  have "CR \<notin> set (quoted_table d (header # body))"
    using assms(5) row by (auto simp: quoted_table_def)
  then have "read_replacing D fs p = Inr (quoted_table d (header # body))"
    using assms(2) by (simp add: read_replacing_def universal_newlines_id)
  moreover have "csv_reader d (quoted_table d (header # body)) = Inr (header # body)"
    using assms(4,5) by (intro csv_reader_quoted) auto
  moreover have "describe_any D fs p = describe_delimited D fs p"
    using assms(1) by (auto simp: describe_any_def Let_def)
  ultimately show ?thesis by (simp add: describe_def guard_def describe_delimited_def assms(3))
qed

section \<open>The columns of a page\<close>

lemma in_set_dropI: "y \<in> set xs \<Longrightarrow> y \<notin> set (take n xs) \<Longrightarrow> y \<in> set (drop n xs)"
  by (metis Un_iff append_take_drop_id set_append)

text \<open>How many words start in a column.\<close>

definition words_in :: "int \<Rightarrow> rat option list \<Rightarrow> nat" where
  "words_in x found = length (filter (\<lambda>w. map_option column_of w = Some x) found)"

lemma map_of_counts_fold:
  "map_of (fold (\<lambda>w counts. case w of None \<Rightarrow> counts | Some x \<Rightarrow> count_column (column_of x) counts) found counts) x =
     (if words_in x found = 0 then map_of counts x
      else Some (words_in x found + (case map_of counts x of None \<Rightarrow> 0 | Some n \<Rightarrow> n)))"
proof (induction found arbitrary: counts)
  case (Cons w found)
  then show ?case
    by (cases w) (auto simp: words_in_def count_column_def update_conv' split: option.split)
qed (simp add: words_in_def)

lemma column_counts_exact:
  "(x, n) \<in> set (column_counts found) \<longleftrightarrow> n = words_in x found \<and> n \<noteq> 0"
  "distinct (map fst (column_counts found))"
proof -
  have "distinct (map fst counts) \<Longrightarrow> distinct (map fst (fold
      (\<lambda>w counts. case w of None \<Rightarrow> counts | Some x \<Rightarrow> count_column (column_of x) counts) found counts))" for counts
    by (induction found arbitrary: counts) (auto simp: count_column_def distinct_update split: option.split)
  then show d: "distinct (map fst (column_counts found))" by (simp add: column_counts_def)
  show "(x, n) \<in> set (column_counts found) \<longleftrightarrow> n = words_in x found \<and> n \<noteq> 0"
    using map_of_counts_fold[of found "[]" x] Some_eq_map_of_iff[OF d, of n x]
    by (auto simp: column_counts_def split: if_splits)
qed

text \<open>
  C35. The columns reported for a page are the busiest ones: ascending, at most twelve, each with
  exactly the number of words that start in it, which is at least two; and a column with two
  words or more is left out only when twelve others have at least as many.
\<close>

theorem columns_are_the_busiest:
  "sorted (map fst (column_positions found)) \<and> distinct (map fst (column_positions found)) \<and>
   length (column_positions found) \<le> 12 \<and>
   (\<forall>(x, n) \<in> set (column_positions found). n = words_in x found \<and> 2 \<le> n) \<and>
   (\<forall>x. 2 \<le> words_in x found \<and> x \<notin> fst ` set (column_positions found) \<longrightarrow>
      length (column_positions found) = 12 \<and> (\<forall>(y, n) \<in> set (column_positions found). words_in x found \<le> n))"
proof -
  let ?candidates = "filter (\<lambda>(x, n). n \<ge> MIN_COLUMN_ROWS) (column_counts found)"
  let ?sorted = "sort_reverse snd ?candidates"
  have candidate: "(x, n) \<in> set ?candidates \<longleftrightarrow> n = words_in x found \<and> 2 \<le> n" for x n
    by (auto simp: column_counts_exact MIN_COLUMN_ROWS_def)
  have keys: "distinct (map fst ?sorted)"
    using distinct_map_filter[OF column_counts_exact(2)] by (simp add: distinct_map inj_on_def)
  have columns: "set (column_positions found) = set (take 12 ?sorted)" "length (column_positions found) = length (take 12 ?sorted)"
    by (simp_all add: column_positions_def Let_def MAX_COLUMNS_def del: set_take_subset)
  have "distinct (map fst (take 12 ?sorted))" using keys by (simp add: take_map[symmetric])
  then have "distinct (map fst (column_positions found))"
    by (simp add: column_positions_def Let_def MAX_COLUMNS_def distinct_map)
  moreover have "\<forall>(x, n) \<in> set (column_positions found). n = words_in x found \<and> 2 \<le> n"
    using candidate by (auto simp: columns dest!: in_set_takeD)
  moreover have "length (column_positions found) = 12 \<and> (\<forall>(y, n) \<in> set (column_positions found). words_in x found \<le> n)"
    if "2 \<le> words_in x found" "x \<notin> fst ` set (column_positions found)" for x
  proof -
    have "(x, words_in x found) \<in> set ?sorted" using candidate[of x] that(1) by simp
    moreover have "(x, words_in x found) \<notin> set (take 12 ?sorted)"
    proof
      assume "(x, words_in x found) \<in> set (take 12 ?sorted)"
      then have "fst (x, words_in x found) \<in> fst ` set (column_positions found)"
        unfolding columns(1) by (rule imageI)
      with that(2) show False by simp
    qed
    ultimately have dropped: "(x, words_in x found) \<in> set (drop 12 ?sorted)" by (rule in_set_dropI)
    then have "12 < length ?sorted" by (cases "12 < length ?sorted") simp_all
    moreover have "words_in x found \<le> snd q" if "q \<in> set (take 12 ?sorted)" for q
      using sort_reverse_split[OF that dropped] by simp
    ultimately show ?thesis by (auto simp: columns)
  qed
  moreover have "sorted (map fst (column_positions found))"
    by (simp add: column_positions_def Let_def)
  moreover have "length (column_positions found) \<le> 12" by (simp add: columns(2))
  ultimately show ?thesis by (intro conjI allI impI) blast+
qed


text \<open>A page of thirteen columns with two words each: the last is left out.\<close>

definition crowded_page :: "rat option list" where
  "crowded_page = concat (map (\<lambda>x. [Some x, Some x])
     [0, 30, 60, 90, 120, 150, 180, 210, 240, 270, 300, 330, 360])"

theorem columns_are_the_busiest_witness:
  "words_in 360 crowded_page = 2 \<and> 360 \<notin> fst ` set (column_positions crowded_page) \<and>
   length (column_positions crowded_page) = 12"
proof -
  have two: "words_in 360 crowded_page = 2" and out: "360 \<notin> fst ` set (column_positions crowded_page)"
    by code_simp+
  then have "2 \<le> words_in 360 crowded_page" by simp
  with out have "length (column_positions crowded_page) = 12"
    using columns_are_the_busiest[of crowded_page] by blast
  with two out show ?thesis by simp
qed

text \<open>
  Positions within the tolerance need not count as one column, since the bands are fixed: at
  55.4 and 55.6 stand two columns of one word each, and so none, at 55.6 and 58.4 stands one.
\<close>

theorem close_positions_apart:
  "column_positions [Some (554 / 10), Some (556 / 10)] = [] \<and>
   column_positions [Some (556 / 10), Some (584 / 10)] = [(57, 2)]"
  by code_simp

theorem quoted_file_digest_witness:
  "let table = [[''Date'', ''Note''], [''1/9/2026'', ''a, '' @ [DQ] @ ''b'' @ [DQ, NL] @ ''c'']];
       D = \<lparr>open_pdf = (\<lambda>fs p. Not_Installed), load_workbook = (\<lambda>fs p. Not_Installed), sniff = (\<lambda>s. None),
            replacing = id, unreadable = (\<lambda>fs p. ([], []))\<rparr>;
       fs = [[''x.csv''] \<mapsto> File (quoted_table (CHR '','') table) True 0]
   in describe D fs [''x.csv''] = delimited_digest [''x.csv''] (CHR '','') (hd table) (tl table)"
proof -
  let ?table = "[[''Date'', ''Note''], [''1/9/2026'', ''a, '' @ [DQ] @ ''b'' @ [DQ, NL] @ ''c'']]"
  let ?D = "\<lparr>open_pdf = (\<lambda>fs p. Not_Installed), load_workbook = (\<lambda>fs p. Not_Installed), sniff = (\<lambda>s. None),
            replacing = id, unreadable = (\<lambda>fs p. ([], []))\<rparr>"
  have "path_suffix [''x.csv''] = ''.csv''" by code_simp
  then have "delimiter_of ?D [''x.csv''] t = CHR '',''" "py_lower (path_suffix [''x.csv'']) = ''.csv''" for t
    by (simp_all add: delimiter_of_def, code_simp+)
  then show ?thesis
    using quoted_file_digest[of "[''x.csv'']" "[[''x.csv''] \<mapsto> File (quoted_table (CHR '','') ?table) True 0]"
        "CHR '',''" "hd ?table" "tl ?table" 0 ?D]
    by (simp add: FIELD_LIMIT_def)
qed

end
