(* ===== verification/Profiles.thy ===== *)
theory Profiles
  imports Store
begin

text \<open>
  \<open>llm_assistant_agent/profiles.py\<close>: named sets of options in YAML files. The YAML reader is a
  parameter, \<open>yaml_load\<close>; so are the environment, the home directory and what \<open>expanduser\<close>
  makes of a path. None stands for an exception nobody handles.
\<close>

section \<open>Profiles\<close>

datatype yaml = Y_Scalar json | Y_List "yaml list" | Y_Map "(json \<times> yaml) list"

fun yaml_truthy :: "yaml \<Rightarrow> bool" where
  "yaml_truthy (Y_Scalar v) = truthy v"
| "yaml_truthy (Y_List xs) = (xs \<noteq> [])"
| "yaml_truthy (Y_Map m) = (m \<noteq> [])"

type_synonym options = "(string \<times> yaml) list"

record profile =
  profile_name :: json
  profile_config :: "(json \<times> yaml) list"
  profile_source :: path

type_synonym profiles = "(json \<times> profile) list"

definition CHECK :: string where "CHECK = ''check''"
definition NO_CHECK :: string where "NO_CHECK = ''no_check''"

text \<open>One item of the configuration: a list of checks is appended, \<open>no-check\<close> is only ever set.\<close>

definition apply_item :: "json \<times> yaml \<Rightarrow> options \<Rightarrow> options option" where
  "apply_item item args =
     (case fst item of
        JStr key \<Rightarrow>
          (let arg_key = py_replace key ''-'' ''_'' in
           case snd item of
             Y_List value \<Rightarrow>
               (if arg_key = CHECK then
                  (case map_of args CHECK of
                     Some (Y_List existing) \<Rightarrow> Some (AList.update CHECK (Y_List (existing @ value)) args)
                   | Some existing \<Rightarrow>
                       (if yaml_truthy existing then None else Some (AList.update CHECK (Y_List value) args))
                   | None \<Rightarrow> Some (AList.update CHECK (Y_List value) args))
                else if arg_key = NO_CHECK then
                  Some (if value \<noteq> [] then AList.update NO_CHECK (Y_Scalar (JBool True)) args else args)
                else Some (AList.update arg_key (Y_List value) args))
           | value \<Rightarrow>
               (if arg_key = NO_CHECK then
                  Some (if yaml_truthy value then AList.update NO_CHECK (Y_Scalar (JBool True)) args else args)
                else Some (AList.update arg_key value args)))
      | _ \<Rightarrow> None)"

fun apply_items :: "(json \<times> yaml) list \<Rightarrow> options \<Rightarrow> options option" where
  "apply_items [] args = Some args"
| "apply_items (item # rest) args =
     (case apply_item item args of None \<Rightarrow> None | Some args \<Rightarrow> apply_items rest args)"

definition apply_to_args :: "profile \<Rightarrow> options \<Rightarrow> options option" where
  "apply_to_args p args = apply_items (profile_config p) args"

section \<open>Finding them\<close>

datatype yaml_document = Yaml_Error | Document yaml

record profile_env =
  profile_realpath :: "path \<Rightarrow> path"
  yaml_load :: "string \<Rightarrow> yaml_document"
  profile_environ :: "string \<Rightarrow> string option"
  profile_expanduser :: "string \<Rightarrow> path"
  profile_home :: path

definition is_file_at :: "profile_env \<Rightarrow> fs \<Rightarrow> path \<Rightarrow> bool" where
  "is_file_at e fs p = is_file fs (profile_realpath e p)"

definition env_paths :: "(string \<Rightarrow> string option) \<Rightarrow> (string \<Rightarrow> path) \<Rightarrow> string \<Rightarrow> path list" where
  "env_paths environ expanduser name =
     (case environ name of
        None \<Rightarrow> []
      | Some listed \<Rightarrow> map (\<lambda>s. expanduser (py_strip s)) (filter (\<lambda>s. py_strip s \<noteq> []) (py_split '':'' listed)))"

definition PROFILES_FILE :: path where "PROFILES_FILE = [''.assist'', ''profiles.yaml'']"

definition profile_paths :: "profile_env \<Rightarrow> fs \<Rightarrow> path option \<Rightarrow> path list" where
  "profile_paths e fs workspace_root =
     env_paths (profile_environ e) (profile_expanduser e) ''ASSIST_PROFILES''
     @ filter (is_file_at e fs) [profile_home e @ PROFILES_FILE]
     @ (case workspace_root of None \<Rightarrow> [] | Some r \<Rightarrow> filter (is_file_at e fs) [r @ PROFILES_FILE])"

text \<open>What a file defines: nothing when it is missing, broken or no mapping; None when it is no UTF-8.\<close>

definition profiles_in :: "profile_env \<Rightarrow> fs \<Rightarrow> path \<Rightarrow> profiles option" where
  "profiles_in e fs p =
     (case fs (profile_realpath e p) of
        Some (File text utf8 t) \<Rightarrow>
          (if \<not> utf8 then None
           else
             (case yaml_load e (universal_newlines text) of
                Document (Y_Map data) \<Rightarrow>
                  Some (List.map_filter (\<lambda>(name, config). case config of
                      Y_Map m \<Rightarrow> Some (name, \<lparr>profile_name = name, profile_config = m, profile_source = p\<rparr>)
                    | _ \<Rightarrow> None) data)
              | _ \<Rightarrow> Some []))
      | _ \<Rightarrow> Some [])"

definition load_profiles :: "profile_env \<Rightarrow> fs \<Rightarrow> path \<Rightarrow> profiles \<Rightarrow> profiles option" where
  "load_profiles e fs p ps =
     map_option (\<lambda>defined. fold (\<lambda>(name, profile). AList.update name profile) defined ps) (profiles_in e fs p)"

fun load_all_profiles :: "profile_env \<Rightarrow> fs \<Rightarrow> path list \<Rightarrow> profiles \<Rightarrow> profiles option" where
  "load_all_profiles e fs [] ps = Some ps"
| "load_all_profiles e fs (p # rest) ps =
     (case load_profiles e fs p ps of None \<Rightarrow> None | Some ps \<Rightarrow> load_all_profiles e fs rest ps)"

definition discover_profiles :: "profile_env \<Rightarrow> fs \<Rightarrow> path option \<Rightarrow> profiles option" where
  "discover_profiles e fs workspace_root = load_all_profiles e fs (profile_paths e fs workspace_root) []"

definition get_profile :: "profiles \<Rightarrow> string \<Rightarrow> profile option" where
  "get_profile ps name = map_of ps (JStr name)"

datatype applied = Not_Found string | Applied "options option"

definition apply_profile :: "profiles \<Rightarrow> string \<Rightarrow> options \<Rightarrow> applied" where
  "apply_profile ps name args =
     (case get_profile ps name of
        None \<Rightarrow> Not_Found (''Profile '' @ py_repr name @ '' not found'')
      | Some p \<Rightarrow> Applied (apply_to_args p args))"

section \<open>Which definition counts\<close>

lemma fold_update_map_of:
  "map_of (fold (\<lambda>(k, v). AList.update k v) xs d) = map_of d ++ map_of (rev xs)"
proof (induction xs arbitrary: d)
  case (Cons x xs)
  obtain k v where x: "x = (k, v)" by (cases x)
  have "map_of (AList.update k v d) ++ map_of (rev xs) = map_of d ++ (map_of [(k, v)] ++ map_of (rev xs))"
    by (simp add: update_conv' map_add_upd_left fun_eq_iff map_add_def split: option.split)
  with Cons[of "AList.update k v d"] show ?case by (simp add: x)
qed simp

lemma load_all_map_of:
  "load_all_profiles e fs paths d = Some ps \<Longrightarrow>
   (\<forall>p \<in> set paths. profiles_in e fs p \<noteq> None) \<and>
   map_of ps = map_of d ++ map_of (rev (concat (map (\<lambda>p. the (profiles_in e fs p)) paths)))"
proof (induction paths arbitrary: d)
  case (Cons p paths)
  then obtain defined where defined: "profiles_in e fs p = Some defined"
      "load_all_profiles e fs paths (fold (\<lambda>(name, profile). AList.update name profile) defined d) = Some ps"
    by (auto simp: load_profiles_def split: option.splits)
  from Cons.IH[OF defined(2)] show ?case by (simp add: defined(1) fold_update_map_of)
qed simp

text \<open>
  The profile found under a name is the last one defined: files are read in the order
  environment, home, workspace, and a later definition replaces an earlier one as a whole. A
  file that is missing, broken or no mapping defines nothing; a name nobody defines is not there.
\<close>

theorem last_profile_counts:
  assumes "discover_profiles e fs workspace_root = Some ps"
  shows "get_profile ps name =
    map_of (rev (concat (map (\<lambda>p. the (profiles_in e fs p)) (profile_paths e fs workspace_root)))) (JStr name)"
  using load_all_map_of[OF assms[unfolded discover_profiles_def]] by (simp add: get_profile_def)

section \<open>What a profile does to the options\<close>

text \<open>The profile takes precedence for all options but two.\<close>

lemma apply_items_append:
  "apply_items (xs @ ys) args = (case apply_items xs args of None \<Rightarrow> None | Some args \<Rightarrow> apply_items ys args)"
  by (induction xs arbitrary: args) (simp_all split: option.split)

lemma apply_item_other:
  assumes "apply_item (k, v) args = Some args'" and "\<nexists>key. k = JStr key \<and> py_replace key ''-'' ''_'' = name"
  shows "map_of args' name = map_of args name"
  using assms by (auto simp: apply_item_def update_conv' Let_def split: json.splits yaml.splits if_splits option.splits)

lemma apply_items_other:
  "apply_items items args = Some args' \<Longrightarrow>
   \<forall>(k, v) \<in> set items. \<nexists>key. k = JStr key \<and> py_replace key ''-'' ''_'' = name \<Longrightarrow>
   map_of args' name = map_of args name"
proof (induction items arbitrary: args)
  case (Cons item items)
  obtain k v where item: "item = (k, v)" by (cases item)
  from Cons.prems(1) obtain args1 where args1: "apply_item (k, v) args = Some args1" "apply_items items args1 = Some args'"
    by (auto simp: item split: option.splits)
  have "map_of args1 name = map_of args name"
    using Cons.prems(2) by (intro apply_item_other[OF args1(1)]) (simp add: item)
  with Cons.IH[OF args1(2)] Cons.prems(2) show ?case by simp
qed simp

theorem profile_takes_precedence:
  assumes "apply_to_args p args = Some args'" and "profile_config p = before @ (JStr key, v) # later"
    and "py_replace key ''-'' ''_'' = name" and "name \<noteq> CHECK" and "name \<noteq> NO_CHECK"
    and "\<forall>(k, v) \<in> set later. \<nexists>key. k = JStr key \<and> py_replace key ''-'' ''_'' = name"
  shows "map_of args' name = Some v"
proof -
  from assms(1,2) obtain args1 args2 where "apply_item (JStr key, v) args1 = Some args2"
    and later: "apply_items later args2 = Some args'"
    by (auto simp: apply_to_args_def apply_items_append split: option.splits)
  then have "map_of args2 name = Some v"
    using assms(3-5) by (auto simp: apply_item_def Let_def update_conv' split: yaml.splits if_splits)
  with apply_items_other[OF later assms(6)] show ?thesis by simp
qed

definition sample_profiles :: profile_env where
  "sample_profiles = \<lparr>profile_realpath = (\<lambda>p. p),
     yaml_load = (\<lambda>s. if s = ''home'' then Document (Y_Map [(JStr ''fast'', Y_Map [(JStr ''top-p'', Y_Scalar (JFloat ''0.5''))])])
       else if s = ''here'' then Document (Y_Map [(JStr ''fast'', Y_Map [(JStr ''no-check'', Y_Scalar (JBool True))]),
         (JStr ''odd'', Y_List [])])
       else Yaml_Error),
     profile_environ = (\<lambda>_. None), profile_expanduser = components, profile_home = [''h'']\<rparr>"

definition profile_files :: fs where
  "profile_files = [[''h'', ''.assist'', ''profiles.yaml''] \<mapsto> File ''home'' True 1,
     [''w'', ''.assist'', ''profiles.yaml''] \<mapsto> File ''here'' True 1]"

lemma last_profile_counts_witness:
  "\<exists>ps. discover_profiles sample_profiles profile_files (Some [''w'']) = Some ps \<and>
     map_option profile_source (get_profile ps ''fast'') = Some [''w'', ''.assist'', ''profiles.yaml''] \<and>
     get_profile ps ''odd'' = None"
proof -
  have "discover_profiles sample_profiles profile_files (Some [''w'']) \<noteq> None" by code_simp
  then obtain ps where ps: "discover_profiles sample_profiles profile_files (Some [''w'']) = Some ps" by blast
  let ?last = "map_of (rev (concat (map (\<lambda>p. the (profiles_in sample_profiles profile_files p))
      (profile_paths sample_profiles profile_files (Some [''w''])))))"
  have "map_option profile_source (?last (JStr ''fast'')) = Some [''w'', ''.assist'', ''profiles.yaml'']"
    by code_simp
  moreover have "map_option profile_source (?last (JStr ''odd'')) = None" by code_simp
  ultimately show ?thesis
    using last_profile_counts[OF ps, of "''fast''"] last_profile_counts[OF ps, of "''odd''"] ps by simp
qed

end
