(* ===== verification/Plugins.thy ===== *)
theory Plugins
  imports Profiles
begin

text \<open>
  \<open>llm_assistant_agent/plugins.py\<close>: Python files loaded into the agent. What a module does when
  it is executed is a parameter, \<open>exec_module\<close>, which may change anything: it acts on a state
  \<open>'w\<close> that holds the files (\<open>disk_of\<close>) and whatever else there is.
\<close>

section \<open>Modules\<close>

text \<open>A method answers or raises; \<open>Exits\<close> is an exception that is no \<open>Exception\<close>, such as \<open>SystemExit\<close>.\<close>

type_synonym 'w toolbox_methods = "string \<Rightarrow> (dict \<Rightarrow> 'w \<Rightarrow> (string + string) \<times> 'w) option"

record 'w module =
  module_schemas :: "json list"
  module_toolbox :: "('w \<Rightarrow> 'w toolbox_methods option \<times> 'w) option"
  module_setup :: "('w \<Rightarrow> bool \<times> 'w) option"
  module_teardown :: "('w \<Rightarrow> bool \<times> 'w) option"

datatype 'm execution = Executed 'm | Failed | Exits

record 'w plugin =
  plugin_name :: string
  plugin_path :: path
  plugin_module :: "'w module"

record 'w plugin_env =
  plugin_store :: store_env
  disk_of :: "'w \<Rightarrow> fs"
  exec_module :: "path \<Rightarrow> 'w \<Rightarrow> 'w module execution \<times> 'w"
  plugin_environ :: "string \<Rightarrow> string option"
  plugin_expanduser :: "string \<Rightarrow> path"
  plugin_home :: path

definition is_directory :: "'w plugin_env \<Rightarrow> 'w \<Rightarrow> path \<Rightarrow> bool" where
  "is_directory e w p \<longleftrightarrow> disk_of e w (realpath_of (plugin_store e) p) = Some Directory"

definition PLUGINS_DIRECTORY :: path where "PLUGINS_DIRECTORY = [''.assist'', ''plugins'']"

definition plugin_paths :: "'w plugin_env \<Rightarrow> 'w \<Rightarrow> path option \<Rightarrow> path list" where
  "plugin_paths e w workspace_root =
     env_paths (plugin_environ e) (plugin_expanduser e) ''ASSIST_PLUGINS''
     @ filter (is_directory e w) [plugin_home e @ PLUGINS_DIRECTORY]
     @ (case workspace_root of None \<Rightarrow> [] | Some r \<Rightarrow> filter (is_directory e w) [r @ PLUGINS_DIRECTORY])"

section \<open>Loading\<close>

definition stem :: "string \<Rightarrow> string" where
  "stem name = (if name = ''.py'' then name else take (length name - 3) name)"

text \<open>\<open>contextlib.suppress(Exception)\<close>: the hook says whether it let the program go on.\<close>

definition run_hook :: "('w \<Rightarrow> bool \<times> 'w) option \<Rightarrow> 'w \<Rightarrow> bool \<times> 'w" where
  "run_hook hook w = (case hook of None \<Rightarrow> (True, w) | Some h \<Rightarrow> h w)"

datatype 'p loading = Skipped | Loaded 'p | Stops

definition load_plugin :: "'w plugin_env \<Rightarrow> path \<Rightarrow> 'w \<Rightarrow> 'w plugin loading \<times> 'w" where
  "load_plugin e p w =
     (case exec_module e p w of
        (Exits, w) \<Rightarrow> (Stops, w)
      | (Failed, w) \<Rightarrow> (Skipped, w)
      | (Executed m, w) \<Rightarrow>
          (case run_hook (module_setup m) w of
             (False, w) \<Rightarrow> (Stops, w)
           | (True, w) \<Rightarrow> (Loaded \<lparr>plugin_name = stem (last p), plugin_path = p, plugin_module = m\<rparr>, w)))"

definition plugin_files :: "'w plugin_env \<Rightarrow> path \<Rightarrow> 'w \<Rightarrow> path list" where
  "plugin_files e directory w =
     (if \<not> is_directory e w directory then []
      else map (\<lambda>name. directory @ [name])
        (filter (\<lambda>name. suffix ''.py'' name \<and> \<not> prefix ''_'' name) (scan (plugin_store e) (disk_of e w) directory)))"

fun load_files :: "'w plugin_env \<Rightarrow> path list \<Rightarrow> 'w plugin list \<times> 'w \<Rightarrow> ('w plugin list \<times> 'w) option" where
  "load_files e [] (plugins, w) = Some (plugins, w)"
| "load_files e (p # ps) (plugins, w) =
     (if p \<in> set (map plugin_path plugins) then load_files e ps (plugins, w)
      else
        (case load_plugin e p w of
           (Stops, w) \<Rightarrow> None
         | (Skipped, w) \<Rightarrow> load_files e ps (plugins, w)
         | (Loaded plugin, w) \<Rightarrow> load_files e ps (plugins @ [plugin], w)))"

fun load_directories :: "'w plugin_env \<Rightarrow> path list \<Rightarrow> 'w plugin list \<times> 'w \<Rightarrow> ('w plugin list \<times> 'w) option" where
  "load_directories e [] st = Some st"
| "load_directories e (d # ds) (plugins, w) =
     (case load_files e (plugin_files e d w) (plugins, w) of
        None \<Rightarrow> None
      | Some st \<Rightarrow> load_directories e ds st)"

definition discover_plugins :: "'w plugin_env \<Rightarrow> path option \<Rightarrow> 'w \<Rightarrow> ('w plugin list \<times> 'w) option" where
  "discover_plugins e workspace_root w = load_directories e (plugin_paths e w workspace_root) ([], w)"

section \<open>Using them\<close>

definition tool_schemas_of :: "'w plugin list \<Rightarrow> json list" where
  "tool_schemas_of plugins = concat (map (\<lambda>p. module_schemas (plugin_module p)) plugins)"

text \<open>\<open>CombinedPluginToolBox\<close>: None when building a tool box raises.\<close>

fun toolbox_instances :: "'w plugin list \<Rightarrow> 'w \<Rightarrow> ('w toolbox_methods list \<times> 'w) option" where
  "toolbox_instances [] w = Some ([], w)"
| "toolbox_instances (p # ps) w =
     (case module_toolbox (plugin_module p) of
        None \<Rightarrow> toolbox_instances ps w
      | Some new_toolbox \<Rightarrow>
          (case new_toolbox w of
             (None, w) \<Rightarrow> None
           | (Some methods, w) \<Rightarrow> map_option (apfst ((#) methods)) (toolbox_instances ps w)))"

fun plugin_invoke :: "'w toolbox_methods list \<Rightarrow> string \<Rightarrow> dict \<Rightarrow> 'w \<Rightarrow> string \<times> 'w" where
  "plugin_invoke [] name args w = (''Unknown plugin tool: '' @ name, w)"
| "plugin_invoke (methods # rest) name args w =
     (case methods name of
        None \<Rightarrow> plugin_invoke rest name args w
      | Some method \<Rightarrow>
          (case method args w of
             (Inr result, w) \<Rightarrow> (result, w)
           | (Inl e, w) \<Rightarrow> (''Error in '' @ name @ '': '' @ e, w)))"

fun teardown_plugins :: "'w plugin list \<Rightarrow> 'w \<Rightarrow> 'w option" where
  "teardown_plugins [] w = Some w"
| "teardown_plugins (p # ps) w =
     (case run_hook (module_teardown (plugin_module p)) w of
        (True, w) \<Rightarrow> teardown_plugins ps w
      | (False, w) \<Rightarrow> None)"

section \<open>What is loaded\<close>

definition loaded_from :: "path list \<Rightarrow> 'w plugin list \<Rightarrow> bool" where
  "loaded_from directories plugins \<longleftrightarrow>
     distinct (map plugin_path plugins) \<and>
     (\<forall>p \<in> set plugins. \<exists>d name. d \<in> set directories \<and> plugin_path p = d @ [name] \<and> suffix ''.py'' name \<and> \<not> prefix ''_'' name)"

lemma load_plugin_path: "load_plugin e p w = (Loaded plugin, w1) \<Longrightarrow> plugin_path plugin = p"
  by (auto simp: load_plugin_def split: execution.splits prod.splits bool.splits)

lemma load_files_from:
  "load_files e ps (plugins, w) = Some (plugins', w') \<Longrightarrow> loaded_from directories plugins \<Longrightarrow>
   \<forall>p \<in> set ps. \<exists>d name. d \<in> set directories \<and> p = d @ [name] \<and> suffix ''.py'' name \<and> \<not> prefix ''_'' name \<Longrightarrow>
   loaded_from directories plugins'"
proof (induction e ps "(plugins, w)" arbitrary: plugins w rule: load_files.induct)
  case (2 e p ps plugins w)
  show ?case
  proof (cases "p \<in> set (map plugin_path plugins)")
    case True
    with 2 show ?thesis by simp
  next
    case new: False
    obtain r w1 where r: "load_plugin e p w = (r, w1)" by fastforce
    show ?thesis
    proof (cases r)
      case Skipped
      with new r have "load_files e ps (plugins, w1) = Some (plugins', w')" using 2(4) by simp
      with 2(2)[OF new r[symmetric] Skipped] 2(5,6) show ?thesis by simp
    next
      case (Loaded plugin)
      with new r have rest: "load_files e ps (plugins @ [plugin], w1) = Some (plugins', w')" using 2(4) by simp
      have "plugin_path plugin = p" using load_plugin_path r Loaded by simp
      then have "loaded_from directories (plugins @ [plugin])"
        using new 2(5,6) by (auto simp: loaded_from_def)
      with 2(3)[OF new r[symmetric] Loaded] rest 2(6) show ?thesis by simp
    next
      case Stops
      with new r show ?thesis using 2(4) by simp
    qed
  qed
qed simp

lemma load_directories_from:
  "load_directories e ds (plugins, w) = Some (plugins', w') \<Longrightarrow> loaded_from directories plugins \<Longrightarrow>
   set ds \<subseteq> set directories \<Longrightarrow> loaded_from directories plugins'"
proof (induction e ds "(plugins, w)" arbitrary: plugins w rule: load_directories.induct)
  case (2 e d ds plugins w)
  then obtain plugins1 w1 where 1: "load_files e (plugin_files e d w) (plugins, w) = Some (plugins1, w1)"
      "load_directories e ds (plugins1, w1) = Some (plugins', w')"
    by (auto split: option.splits)
  have "loaded_from directories plugins1"
    using 2(4) by (intro load_files_from[OF 1(1) 2(3)]) (auto simp: plugin_files_def)
  with 2(1)[OF 1(1)] 1(2) 2(4) show ?case by simp
qed simp

text \<open>
  A plugin file is loaded at most once however the search paths overlap, and only Python
  files standing directly in a directory of the search, none whose name starts with an
  underscore.
\<close>

theorem plugins_loaded_once:
  assumes "discover_plugins e workspace_root w = Some (plugins, w')"
  shows "loaded_from (plugin_paths e w workspace_root) plugins"
  by (rule load_directories_from[OF assms[unfolded discover_plugins_def]]) (simp_all add: loaded_from_def)

text \<open>A workspace with a plugin, listed twice by the environment.\<close>

definition blank_module :: "'w module" where
  "blank_module = \<lparr>module_schemas = [], module_toolbox = None, module_setup = None, module_teardown = None\<rparr>"

definition plugin_files_sample :: fs where
  "plugin_files_sample = [[''w'', ''.assist'', ''plugins''] \<mapsto> Directory]"

definition sample_plugins :: "fs plugin_env" where
  "sample_plugins = \<lparr>plugin_store = \<lparr>realpath_of = (\<lambda>p. p), scan = (\<lambda>fs p. [''a.py'', ''_b.py'', ''c.txt'']),
       sha256_of = fst, isoformat = (\<lambda>t. []), fromisoformat = (\<lambda>s. None)\<rparr>,
     disk_of = id, exec_module = (\<lambda>p w. (Executed blank_module, w)),
     plugin_environ = (\<lambda>_. Some ''/w/.assist/plugins:/w/.assist/plugins''), plugin_expanduser = components,
     plugin_home = [''h'']\<rparr>"

lemma plugins_loaded_once_witness:
  "\<exists>plugins w'. discover_plugins sample_plugins (Some [''w'']) plugin_files_sample = Some (plugins, w') \<and>
     map plugin_path plugins = [[''w'', ''.assist'', ''plugins'', ''a.py'']] \<and>
     loaded_from (plugin_paths sample_plugins plugin_files_sample (Some [''w''])) plugins"
proof -
  have "map_option (map plugin_path \<circ> fst) (discover_plugins sample_plugins (Some [''w'']) plugin_files_sample)
      = Some [[''w'', ''.assist'', ''plugins'', ''a.py'']]"
    by code_simp
  then obtain plugins w' where found: "discover_plugins sample_plugins (Some [''w'']) plugin_files_sample = Some (plugins, w')"
      "map plugin_path plugins = [[''w'', ''.assist'', ''plugins'', ''a.py'']]" by auto
  with plugins_loaded_once[OF found(1)] show ?thesis by (intro exI conjI)
qed

end
