(* ===== verification/Example_Plugin.thy ===== *)
theory Example_Plugin
  imports Plugins Payload Session
begin

text \<open>
  \<open>examples/example_plugin.py\<close>, the plugin that shows how to write one, as a module for
  \<open>Plugins\<close>. Parameters: the environment variables, fetching a URL, running a Python program
  and printing. The attributes every Python object has are left aside.
\<close>

section \<open>Outside the plugin\<close>

datatype fetched = Fetch_Timeout | Fetch_Error string | Fetched string
datatype ran = Run_Timeout | Run_Error string | Ran string string int

record 'w outside =
  environ_of :: "'w \<Rightarrow> (string \<times> string) list"
  urlopen :: "string \<Rightarrow> json \<Rightarrow> 'w \<Rightarrow> fetched \<times> 'w"
  run_code :: "json \<Rightarrow> json \<Rightarrow> 'w \<Rightarrow> ran \<times> 'w"
  printed_on :: "string \<Rightarrow> 'w \<Rightarrow> 'w"

section \<open>The tools it offers\<close>

definition described :: "string \<Rightarrow> string \<Rightarrow> (string \<times> json) list \<Rightarrow> json" where
  "described kind about extras = JObj ([(''type'', JStr kind), (''description'', JStr about)] @ extras)"

definition tool_schema :: "string \<Rightarrow> string \<Rightarrow> (string \<times> json) list \<Rightarrow> (string \<times> json) list \<Rightarrow> json" where
  "tool_schema name about properties extras =
     JObj [(''type'', JStr ''function''),
       (''function'', JObj [(''name'', JStr name), (''description'', JStr about),
          (''parameters'', JObj ([(''type'', JStr ''object''), (''properties'', JObj properties)] @ extras))])]"

definition EXAMPLE_SCHEMAS :: "json list" where
  "EXAMPLE_SCHEMAS =
     [tool_schema ''fetch_url'' ''Fetch content from a URL. Use for API calls or downloading files.''
        [(''url'', described ''string'' ''URL to fetch (http/https only)'' []),
         (''max_bytes'', described ''integer'' ''Max bytes to read'' [(''default'', JInt 10000)])]
        [(''required'', JArr [JStr ''url''])],
      tool_schema ''run_python'' ''Execute a Python code snippet. Use for quick calculations or data processing.''
        [(''code'', described ''string'' ''Python code to execute'' []),
         (''timeout'', described ''integer'' ''Timeout in seconds (default 10)'' [(''default'', JInt 10)])]
        [(''required'', JArr [JStr ''code''])],
      tool_schema ''get_env'' ''Get environment variables. Use to check configuration.''
        [(''names'', JObj [(''type'', JStr ''array''), (''items'', JObj [(''type'', JStr ''string'')]),
                           (''description'', JStr ''Variable names to retrieve'')]),
         (''prefix'', described ''string'' ''Filter variables by prefix'' [])]
        []]"

section \<open>Its methods\<close>

text \<open>\<open>text[:stop]\<close>: None when \<open>stop\<close> is neither an integer nor None.\<close>

definition slice_to :: "json \<Rightarrow> string \<Rightarrow> string option" where
  "slice_to stop s =
     (case stop of
        JNull \<Rightarrow> Some s
      | JBool b \<Rightarrow> Some (take (if b then 1 else 0) s)
      | JInt i \<Rightarrow> Some (take (if i < 0 then length s - nat (- i) else nat i) s)
      | _ \<Rightarrow> None)"

definition SLICE_ERROR :: string where
  "SLICE_ERROR = ''slice indices must be integers or None or have an __index__ method''"

definition fetch_url :: "'w outside \<Rightarrow> dict \<Rightarrow> 'w \<Rightarrow> (string + string) \<times> 'w" where
  "fetch_url out args w =
     (let url = get_or args ''url'' (JStr []); max_bytes = get_or args ''max_bytes'' (JInt 10000) in
      case url of
        JStr address \<Rightarrow>
          if \<not> (prefix ''http://'' address \<or> prefix ''https://'' address)
          then (Inr ''Error: URL must start with http:// or https://'', w)
          else
            (case urlopen out address max_bytes w of
               (Fetch_Timeout, w) \<Rightarrow> (Inr (''Error: Timeout fetching '' @ address), w)
             | (Fetch_Error e, w) \<Rightarrow> (Inr (''Error fetching '' @ address @ '': '' @ e), w)
             | (Fetched body, w) \<Rightarrow>
                 (Inr (case slice_to max_bytes body of
                         Some t \<Rightarrow> t
                       | None \<Rightarrow> ''Error fetching '' @ address @ '': '' @ SLICE_ERROR), w))
      | _ \<Rightarrow> (Inl ([QUOTE] @ type_name url @ [QUOTE] @ '' object has no attribute '' @ [QUOTE] @ ''startswith'' @ [QUOTE]), w))"

definition run_python :: "'w outside \<Rightarrow> dict \<Rightarrow> 'w \<Rightarrow> (string + string) \<times> 'w" where
  "run_python out args w =
     (let code = get_or args ''code'' (JStr []); timeout = get_or args ''timeout'' (JInt 10) in
      if \<not> truthy code then (Inr ''Error: No code provided'', w)
      else
        (case run_code out code timeout w of
           (Run_Timeout, w) \<Rightarrow> (Inr (''Error: Code execution timed out after '' @ json_str timeout @ ''s''), w)
         | (Run_Error e, w) \<Rightarrow> (Inr (''Error executing code: '' @ e), w)
         | (Ran printed errors exit_code, w) \<Rightarrow>
             (let output = printed @ errors in
              Inr (if exit_code \<noteq> 0 then ''Exit code '' @ str_int exit_code @ [NL] @ output
                   else if output \<noteq> [] then output else ''(no output)''), w)))"


text \<open>Iterating over a JSON value, and looking a variable up; the left is the text of the TypeError.\<close>

definition iterated :: "json \<Rightarrow> string + json list" where
  "iterated v =
     (case v of
        JStr s \<Rightarrow> Inr (map (\<lambda>c. JStr [c]) s)
      | JArr xs \<Rightarrow> Inr xs
      | JObj d \<Rightarrow> Inr (map (JStr \<circ> fst) d)
      | _ \<Rightarrow> Inl ([QUOTE] @ type_name v @ [QUOTE] @ '' object is not iterable''))"

fun named_variables :: "(string \<times> string) list \<Rightarrow> json list \<Rightarrow> string + string list" where
  "named_variables env [] = Inr []"
| "named_variables env (JStr name # rest) =
     map_sum id (Cons (name @ ''='' @ (case map_of env name of Some v \<Rightarrow> v | None \<Rightarrow> ''(not set)''))) (named_variables env rest)"
| "named_variables env (v # rest) = Inl (''str expected, not '' @ type_name v)"

definition prefixed_variables :: "(string \<times> string) list \<Rightarrow> json \<Rightarrow> string + string list" where
  "prefixed_variables env p =
     (case p of
        JStr pre \<Rightarrow> Inr (map (\<lambda>(name, v). name @ ''='' @ take 100 v @ ''...'')
                        (filter (\<lambda>(name, v). prefix pre name) (sort_key fst env)))
      | _ \<Rightarrow> if env = [] then Inr []
            else Inl (''startswith first arg must be str or a tuple of str, not '' @ type_name p))"

definition get_env :: "'w outside \<Rightarrow> dict \<Rightarrow> 'w \<Rightarrow> (string + string) \<times> 'w" where
  "get_env out args w =
     (let wanted = get_or args ''names'' (JArr []); pre = get_or args ''prefix'' (JStr []); env = environ_of out w;
          named = (if truthy wanted then (case iterated wanted of Inl e \<Rightarrow> Inl e | Inr xs \<Rightarrow> named_variables env xs) else Inr []);
          prefixed = (if truthy pre then prefixed_variables env pre else Inr [])
      in ((case (named, prefixed) of
             (Inl e, _) \<Rightarrow> Inl e
           | (_, Inl e) \<Rightarrow> Inl e
           | (Inr xs, Inr ys) \<Rightarrow> Inr (if xs @ ys = [] then ''No variables found'' else py_join [NL] (xs @ ys))), w))"

section \<open>The module\<close>

definition example_methods :: "'w outside \<Rightarrow> 'w toolbox_methods" where
  "example_methods out name =
     map_of [(''fetch_url'', fetch_url out), (''run_python'', run_python out), (''get_env'', get_env out)] name"

definition example_setup :: "'w outside \<Rightarrow> 'w \<Rightarrow> bool \<times> 'w" where
  "example_setup out w =
     (True, printed_on out ''Example plugin loaded - fetch_url, run_python, get_env tools available'' w)"

definition example_teardown :: "'w \<Rightarrow> bool \<times> 'w" where
  "example_teardown w = (True, w)"

definition example_module :: "'w outside \<Rightarrow> 'w module" where
  "example_module out =
     \<lparr>module_schemas = EXAMPLE_SCHEMAS, module_toolbox = Some (\<lambda>w. (Some (example_methods out), w)),
      module_setup = Some (example_setup out), module_teardown = Some example_teardown\<rparr>"

section \<open>What it keeps\<close>

text \<open>A tool the plugin declares is there when it is called, whatever other plugins come after it.\<close>

definition declared_name :: "json \<Rightarrow> json" where
  "declared_name schema =
     (case schema of JObj d \<Rightarrow> (case dict_get d ''function'' of JObj f \<Rightarrow> dict_get f ''name'' | _ \<Rightarrow> JNull) | _ \<Rightarrow> JNull)"

lemma declared_names: "map declared_name EXAMPLE_SCHEMAS = [JStr ''fetch_url'', JStr ''run_python'', JStr ''get_env'']"
  by (simp add: EXAMPLE_SCHEMAS_def declared_name_def tool_schema_def dict_get_def)

text \<open>
  Loaded first, the plugin answers each of its tools itself, whatever plugins come after it; looking
  variables up changes nothing, and only addresses of the web are opened.
\<close>

theorem example_answers_its_tools:
  assumes "JStr name \<in> declared_name ` set EXAMPLE_SCHEMAS"
  shows "plugin_invoke (example_methods out # rest) name args w = plugin_invoke [example_methods out] name args w \<and>
    snd (get_env out args w) = w \<and>
    (snd (fetch_url out args w) \<noteq> w \<longrightarrow>
      (\<exists>address. get_or args ''url'' (JStr []) = JStr address \<and> (prefix ''http://'' address \<or> prefix ''https://'' address)))"
proof -
  have "name \<in> {''fetch_url'', ''run_python'', ''get_env''}"
    using assms declared_names by (auto simp flip: set_map)
  then have "example_methods out name \<noteq> None" by (auto simp: example_methods_def)
  then show ?thesis by (auto simp: get_env_def fetch_url_def Let_def split: json.splits if_splits)
qed

theorem example_answers_its_tools_witness:
  "plugin_invoke [example_methods out, (\<lambda>name. None)] ''get_env'' [] w = plugin_invoke [example_methods out] ''get_env'' [] w"
  using example_answers_its_tools[of "''get_env''" out "[\<lambda>name. None]"]
  by (simp add: EXAMPLE_SCHEMAS_def declared_name_def tool_schema_def dict_get_def)

end
