(* ===== verification/Render.thy ===== *)
theory Render
  imports Session
begin

text \<open>
  \<open>llm_assistant_agent/render.py\<close>, and \<open>_Stream\<close> and the labels of \<open>session.py\<close>: what is written
  to the terminal, and the answer to an approval. Glyphs outside Latin-1 are fields of the
  renderer, so is whether output is coloured or animated. The clock, the rounding of seconds
  and the lines the user types are arguments.
\<close>

section \<open>The renderer\<close>

record renderer =
  coloured :: bool
  shows_diffs :: bool
  animate :: bool
  prompt_glyph :: string
  tool_glyph :: string
  cross_glyph :: string
  line_glyph :: string
  spinner_frames :: "string list"

abbreviation (input) ESC :: char where "ESC \<equiv> CHR 0x1B"

definition MAX_APPROVAL_LINES :: nat where "MAX_APPROVAL_LINES = 40"
definition MAX_ERROR_LINES :: nat where "MAX_ERROR_LINES = 12"

definition sgr :: "renderer \<Rightarrow> nat \<Rightarrow> string" where
  "sgr r n = (if coloured r then [ESC] @ ''['' @ str_nat n @ ''m'' else [])"

definition reset :: "renderer \<Rightarrow> string" where "reset r = sgr r 0"
definition bold :: "renderer \<Rightarrow> string" where "bold r = sgr r 1"
definition dim :: "renderer \<Rightarrow> string" where "dim r = sgr r 2"
definition red :: "renderer \<Rightarrow> string" where "red r = sgr r 31"
definition green :: "renderer \<Rightarrow> string" where "green r = sgr r 32"
definition yellow :: "renderer \<Rightarrow> string" where "yellow r = sgr r 33"
definition blue :: "renderer \<Rightarrow> string" where "blue r = sgr r 34"

definition looks_like_diff :: "string list \<Rightarrow> bool" where
  "looks_like_diff ls \<longleftrightarrow> list_ex (prefix ''@@'') ls"

definition show_prompt :: "renderer \<Rightarrow> string" where
  "show_prompt r = blue r @ prompt_glyph r @ reset r @ '' ''"

definition show_tool_call :: "renderer \<Rightarrow> string \<Rightarrow> string \<Rightarrow> string" where
  "show_tool_call r name about =
     blue r @ tool_glyph r @ reset r @ '' '' @ bold r @ name @ reset r @ ''  '' @ about @ [NL]"

definition show_tool_error :: "renderer \<Rightarrow> string \<Rightarrow> string" where
  "show_tool_error r message =
     (let ls = (if py_splitlines message = [] then [[]] else py_splitlines message)
      in ''  '' @ red r @ cross_glyph r @ reset r @ '' '' @ hd ls @ [NL]
         @ concat (map (\<lambda>l. ''    '' @ dim r @ py_strip l @ reset r @ [NL]) (drop 1 (take MAX_ERROR_LINES ls)))
         @ (if length ls > MAX_ERROR_LINES
            then ''    '' @ dim r @ ''... '' @ str_nat (length ls - MAX_ERROR_LINES) @ '' more lines'' @ reset r @ [NL]
            else []))"

definition show_note :: "renderer \<Rightarrow> string \<Rightarrow> string" where
  "show_note r message = ''  '' @ dim r @ message @ reset r @ [NL]"

definition show_warn :: "renderer \<Rightarrow> string \<Rightarrow> string" where
  "show_warn r message = yellow r @ ''!'' @ reset r @ '' '' @ message @ [NL]"

definition show_error :: "renderer \<Rightarrow> string \<Rightarrow> string" where
  "show_error r message = red r @ ''error:'' @ reset r @ '' '' @ message @ [NL]"

definition show_rule :: "renderer \<Rightarrow> nat \<Rightarrow> string" where
  "show_rule r columns = dim r @ concat (replicate (min columns 80) (line_glyph r)) @ reset r @ [NL]"

definition diff_line :: "renderer \<Rightarrow> string \<Rightarrow> string" where
  "diff_line r line =
     (if prefix ''+++'' line \<or> prefix ''---'' line then dim r @ line @ reset r
      else if prefix ''+'' line then green r @ line @ reset r
      else if prefix ''-'' line then red r @ line @ reset r
      else if prefix ''@@'' line then blue r @ line @ reset r
      else line)"

definition show_diff :: "renderer \<Rightarrow> string \<Rightarrow> string" where
  "show_diff r t =
     (if \<not> shows_diffs r \<or> t = [] then []
      else concat (map (\<lambda>line. ''  '' @ diff_line r line @ [NL]) (py_splitlines t)))"

definition show_turn_summary :: "renderer \<Rightarrow> string \<Rightarrow> int \<Rightarrow> int \<Rightarrow> string" where
  "show_turn_summary r stat used budget =
     (if stat = [] then []
      else [NL] @ concat (map (\<lambda>line. ''  '' @ dim r @ py_strip line @ reset r @ [NL]) (py_splitlines stat)))
     @ (if budget > 0 then
          ''  '' @ (if used * 4 > budget * 3 then yellow r else dim r) @ ''ctx ~'' @ str_int (used div 1000) @ ''k / ''
          @ str_int (budget div 1000) @ ''k'' @ reset r @ [NL]
        else [])"

section \<open>Approval\<close>

text \<open>The lines typed before the question is on screen, and those typed after it.\<close>

record terminal =
  on_terminal :: bool
  pending :: "string list"
  upcoming :: "string list"

definition shown_detail :: "renderer \<Rightarrow> string \<Rightarrow> string" where
  "shown_detail r detail =
     (let ls = py_splitlines detail; shown = take MAX_APPROVAL_LINES ls
      in concat (map (\<lambda>line. ''    '' @ (if looks_like_diff ls then diff_line r line else line) @ [NL]) shown)
         @ (if length ls > length shown
            then ''    '' @ dim r @ ''... '' @ str_nat (length ls - length shown) @ '' more lines'' @ reset r @ [NL] else []))"

definition show_approval :: "renderer \<Rightarrow> string \<Rightarrow> string \<Rightarrow> string" where
  "show_approval r description detail =
     [NL] @ yellow r @ ''?'' @ reset r @ '' '' @ bold r @ description @ reset r @ [NL] @ shown_detail r detail"

definition discard_pending :: "terminal \<Rightarrow> terminal" where
  "discard_pending t = (if on_terminal t then t\<lparr>pending := []\<rparr> else t)"

definition read_line :: "terminal \<Rightarrow> string option \<times> terminal" where
  "read_line t =
     (case pending t of
        l # ls \<Rightarrow> (Some l, t\<lparr>pending := ls\<rparr>)
      | [] \<Rightarrow> (case upcoming t of l # ls \<Rightarrow> (Some l, t\<lparr>upcoming := ls\<rparr>) | [] \<Rightarrow> (None, t)))"

definition approval_question :: "renderer \<Rightarrow> string \<Rightarrow> string \<Rightarrow> terminal \<Rightarrow> string \<times> approval \<times> terminal" where
  "approval_question r description detail t =
     (case read_line (discard_pending t) of
        (None, t) \<Rightarrow> (show_approval r description detail @ ''  Proceed? [y/N] '', Unavailable, t)
      | (Some line, t) \<Rightarrow>
          (show_approval r description detail @ ''  Proceed? [y/N] '',
           (if py_lower (py_strip line) \<in> {''y'', ''yes''} then Approved else Declined), t))"

section \<open>The spinner\<close>

datatype writing = Printed string | Frame string | Erase

definition written_text :: "writing \<Rightarrow> string" where
  "written_text w =
     (case w of Printed s \<Rightarrow> s | Frame s \<Rightarrow> [CR, ESC] @ ''[2K  '' @ s | Erase \<Rightarrow> [CR, ESC] @ ''[2K'')"

record progress =
  label :: string
  spinning :: bool
  drawn :: bool
  started_at :: rat

definition new_progress :: "string \<Rightarrow> progress" where
  "new_progress name = \<lparr>label = name, spinning = False, drawn = False, started_at = 0\<rparr>"

definition start_progress :: "renderer \<Rightarrow> rat \<Rightarrow> progress \<Rightarrow> progress" where
  "start_progress r now p =
     (if spinning p \<or> \<not> animate r then p else p\<lparr>started_at := now, spinning := True\<rparr>)"

definition erase :: "progress \<Rightarrow> writing list \<times> progress" where
  "erase p = (if drawn p then ([Erase], p\<lparr>drawn := False\<rparr>) else ([], p))"

definition stop_progress :: "progress \<Rightarrow> writing list \<times> progress" where
  "stop_progress p = erase (p\<lparr>spinning := False\<rparr>)"

definition draw_frame :: "renderer \<Rightarrow> (rat \<Rightarrow> string) \<Rightarrow> rat \<Rightarrow> string \<Rightarrow> progress \<Rightarrow> writing list \<times> progress" where
  "draw_frame r rounded now frame p =
     (let elapsed = now - started_at p;
          since = (if elapsed \<ge> 3 then '' '' @ rounded elapsed @ ''s'' else [])
      in ([Frame (blue r @ frame @ reset r @ '' '' @ dim r @ label p @ since @ reset r)], p\<lparr>drawn := True\<rparr>))"

text \<open>A step of the animating task: it is there from \<open>start\<close> to the \<open>stop\<close> that cancels it.\<close>

definition spin :: "renderer \<Rightarrow> (rat \<Rightarrow> string) \<Rightarrow> nat \<Rightarrow> rat \<Rightarrow> progress \<Rightarrow> writing list \<times> progress" where
  "spin r rounded tick now p =
     (if \<not> spinning p then ([], p)
      else draw_frame r rounded now (spinner_frames r ! (tick mod length (spinner_frames r))) p)"

section \<open>A streamed turn\<close>

record stream =
  waiting :: progress
  wrote :: bool
  resumed :: bool

definition new_stream :: "progress \<Rightarrow> stream" where
  "new_stream p = \<lparr>waiting = p, wrote = False, resumed = False\<rparr>"

datatype stream_event = Chunk string | Tool_Fragment | Tick nat

definition stream_chunk :: "string \<Rightarrow> stream \<Rightarrow> writing list \<times> stream" where
  "stream_chunk s st =
     (let (out, p) = stop_progress (waiting st) in (out @ [Printed s], st\<lparr>waiting := p, wrote := True\<rparr>))"

definition stream_tool_delta :: "renderer \<Rightarrow> rat \<Rightarrow> stream \<Rightarrow> writing list \<times> stream" where
  "stream_tool_delta r now st =
     (if \<not> wrote st \<or> resumed st then ([], st)
      else ([Printed [NL]], st\<lparr>resumed := True, waiting := start_progress r now (waiting st)\<rparr>))"

definition stream_step :: "renderer \<Rightarrow> (rat \<Rightarrow> string) \<Rightarrow> rat \<times> stream_event \<Rightarrow> stream \<Rightarrow> writing list \<times> stream" where
  "stream_step r rounded event st =
     (case snd event of
        Chunk s \<Rightarrow> stream_chunk s st
      | Tool_Fragment \<Rightarrow> stream_tool_delta r (fst event) st
      | Tick n \<Rightarrow> (let (out, p) = spin r rounded n (fst event) (waiting st) in (out, st\<lparr>waiting := p\<rparr>)))"

fun stream_run :: "renderer \<Rightarrow> (rat \<Rightarrow> string) \<Rightarrow> (rat \<times> stream_event) list \<Rightarrow> stream \<Rightarrow> writing list \<times> stream" where
  "stream_run r rounded [] st = ([], st)"
| "stream_run r rounded (e # es) st =
     (let (out, st) = stream_step r rounded e st; (more, st) = stream_run r rounded es st in (out @ more, st))"

text \<open>The wait for a reply: the spinner runs from the start, is stopped at the end, and a line of prose is ended.\<close>

definition show_reply :: "renderer \<Rightarrow> (rat \<Rightarrow> string) \<Rightarrow> rat \<Rightarrow> (rat \<times> stream_event) list \<Rightarrow> writing list" where
  "show_reply r rounded now events =
     (let (out, st) = stream_run r rounded events (new_stream (start_progress r now (new_progress ''thinking'')));
          (last_words, p) = stop_progress (waiting st)
      in out @ last_words @ (if wrote st \<and> \<not> resumed st then [Printed [NL]] else []))"

section \<open>Labels\<close>

definition working_label :: "string \<Rightarrow> string" where
  "working_label name =
     (if name = ''edit_file'' \<or> name = ''write_file'' then ''checking''
      else (case map_of [(''run'', ''running''), (''grep'', ''searching''), (''list_files'', ''listing files''),
              (''read_document'', ''reading document''), (''git_diff'', ''diffing'')] name of
              Some working \<Rightarrow> working | None \<Rightarrow> ''working''))"

definition summarise_arguments :: "string \<Rightarrow> dict \<Rightarrow> string" where
  "summarise_arguments name args =
     (if name \<in> {''read_file'', ''edit_file'', ''write_file''} then json_str (get_or args ''path'' (JStr []))
      else if name = ''read_document'' then
        json_str (get_or args ''path'' (JStr [])) @ (if truthy (dict_get args ''full'') then '' (full text)'' else [])
      else if name = ''grep'' then
        json_str (get_or args ''pattern'' (JStr []))
        @ (if truthy (dict_get args ''glob'') then ''  in '' @ json_str (dict_get args ''glob'') else [])
      else if name = ''list_files'' then
        (let pattern = get_or args ''pattern'' (JStr []) in
         json_str (if truthy pattern then pattern else JStr ''(all)''))
      else if name = ''run'' then json_str (get_or args ''command'' (JStr []))
      else if name = ''git_diff'' then
        (if truthy (dict_get args ''path'') then json_str (dict_get args ''path'')
         else if truthy (dict_get args ''summary'') then ''summary'' else ''(all)'')
      else [])"

section \<open>Prose and spinner\<close>

text \<open>Scanning what was written, with whether a frame is on the line: prose may only come when none is.\<close>

fun apart :: "bool \<Rightarrow> writing list \<Rightarrow> bool option" where
  "apart up [] = Some up"
| "apart up (Printed s # ws) = (if up then None else apart False ws)"
| "apart up (Frame s # ws) = apart True ws"
| "apart up (Erase # ws) = apart False ws"

lemma apart_append: "apart up (xs @ ys) = (case apart up xs of None \<Rightarrow> None | Some up \<Rightarrow> apart up ys)"
  by (induction up xs rule: apart.induct) (simp_all)

definition stream_inv :: "stream \<Rightarrow> bool" where
  "stream_inv st \<longleftrightarrow>
     (drawn (waiting st) \<longrightarrow> spinning (waiting st)) \<and> (wrote st \<and> \<not> resumed st \<longrightarrow> \<not> spinning (waiting st))"

lemma stop_progress_apart:
  "stop_progress p = (out, p') \<Longrightarrow> apart (drawn p) out = Some False \<and> \<not> drawn p' \<and> \<not> spinning p'"
  by (auto simp: stop_progress_def erase_def split: if_splits)

lemma stream_step_apart:
  assumes "stream_step r rounded e st = (out, st')" and "stream_inv st"
  shows "apart (drawn (waiting st)) out = Some (drawn (waiting st')) \<and> stream_inv st'"
proof (cases "snd e")
  case (Chunk s)
  then show ?thesis
    using assms stop_progress_apart[of "waiting st"]
    by (auto simp: stream_step_def stream_chunk_def stream_inv_def apart_append split: prod.splits)
qed (use assms in \<open>auto simp: stream_step_def stream_tool_delta_def stream_inv_def start_progress_def spin_def
       draw_frame_def Let_def split: prod.splits if_splits\<close>)

lemma stream_run_apart:
  "stream_run r rounded es st = (out, st') \<Longrightarrow> stream_inv st \<Longrightarrow>
   apart (drawn (waiting st)) out = Some (drawn (waiting st')) \<and> stream_inv st'"
proof (induction es arbitrary: st out)
  case (Cons e es)
  obtain o1 st1 where step: "stream_step r rounded e st = (o1, st1)" by fastforce
  obtain o2 where rest: "stream_run r rounded es st1 = (o2, st')" "out = o1 @ o2"
    using Cons.prems(1) by (auto simp: step split: prod.splits)
  from stream_step_apart[OF step Cons.prems(2)] Cons.IH[OF rest(1)] show ?case
    by (simp add: rest(2) apart_append)
qed simp

lemma stream_run_still:
  "\<not> animate r \<Longrightarrow> stream_run r rounded es st = (out, st') \<Longrightarrow>
   \<not> spinning (waiting st) \<and> \<not> drawn (waiting st) \<Longrightarrow>
   list_all (\<lambda>w. \<exists>s. w = Printed s) out \<and> \<not> drawn (waiting st')"
proof (induction es arbitrary: st out)
  case (Cons e es)
  obtain o1 st1 where step: "stream_step r rounded e st = (o1, st1)" by fastforce
  have "list_all (\<lambda>w. \<exists>s. w = Printed s) o1 \<and> \<not> spinning (waiting st1) \<and> \<not> drawn (waiting st1)"
    using step Cons.prems(1,3)
    by (auto simp: stream_step_def stream_chunk_def stream_tool_delta_def start_progress_def spin_def
        stop_progress_def erase_def split: stream_event.splits if_splits)
  with Cons step show ?case by (auto split: prod.splits)
qed simp

text \<open>
  C31. Prose and spinner never share a line: whatever order fragments and ticks arrive in, the
  spinner is erased before the next word is printed, none is left behind when the reply is over,
  and nothing but prose is written when the output is no terminal.
\<close>

theorem prose_and_spinner_apart:
  "apart False (show_reply r rounded now events) = Some False \<and>
   (animate r \<or> list_all (\<lambda>w. \<exists>s. w = Printed s) (show_reply r rounded now events))"
proof -
  let ?start = "new_stream (start_progress r now (new_progress ''thinking''))"
  obtain out st where run: "stream_run r rounded events ?start = (out, st)" by fastforce
  obtain last p where stop: "stop_progress (waiting st) = (last, p)" by fastforce
  have "stream_inv ?start" by (simp add: stream_inv_def new_stream_def start_progress_def new_progress_def)
  from stream_run_apart[OF run this]
  have "apart False out = Some (drawn (waiting st))"
    by (simp add: new_stream_def start_progress_def new_progress_def split: if_splits)
  with stop_progress_apart[OF stop] have "apart False (show_reply r rounded now events) = Some False"
    by (simp add: show_reply_def run stop apart_append)
  moreover have "list_all (\<lambda>w. \<exists>s. w = Printed s) (show_reply r rounded now events)" if "\<not> animate r"
  proof -
    have "\<not> spinning (waiting ?start) \<and> \<not> drawn (waiting ?start)"
      using that by (simp add: new_stream_def start_progress_def new_progress_def)
    from stream_run_still[OF that run this] stop show ?thesis
      by (auto simp: show_reply_def run stop_progress_def erase_def)
  qed
  ultimately show ?thesis by blast
qed

text \<open>What was typed ahead, on a terminal, neither approves nor refuses.\<close>

lemma typed_ahead_never_answers:
  "on_terminal t \<Longrightarrow>
   fst (snd (approval_question r description detail t)) =
     (case upcoming t of
        [] \<Rightarrow> Unavailable
      | line # _ \<Rightarrow> if py_lower (py_strip line) \<in> {''y'', ''yes''} then Approved else Declined)"
  by (simp add: approval_question_def discard_pending_def read_line_def split: list.split)

end
