(* ===== verification/Reports.thy ===== *)
theory Reports
  imports Render
begin

text \<open>
  What \<open>session.py\<close> tells the user while tool calls run: \<open>_report\<close>, the output of \<open>_execute\<close> and
  \<open>_finish_turn\<close>, over the renderer. The broken checkers are what \<open>checks.broken\<close> holds in a state
  of the world; how many of them were reported is the length of \<open>_reported_broken\<close>. The spinner
  runs and stops between these outputs, so its frames are left out.
\<close>

section \<open>Reporting one call\<close>

definition report :: "renderer \<Rightarrow> string list \<Rightarrow> nat \<Rightarrow> string \<Rightarrow> tool_outcome \<Rightarrow> bool \<Rightarrow> string \<times> nat" where
  "report r broken reported name outcome repeat_diff =
     (if outcome_is_error outcome then (show_tool_error r (outcome_content outcome), reported)
      else
        (let shown = (case outcome_diff outcome of
                        Some d \<Rightarrow> if d \<noteq> [] \<and> repeat_diff then Some (show_diff r d) else None
                      | None \<Rightarrow> None);
             body = (case shown of
                       Some out \<Rightarrow> out
                     | None \<Rightarrow> if name = ''run''
                               then concat (map (show_note r) (take 20 (py_splitlines (outcome_content outcome)))) else []);
             findings = (case outcome_findings outcome of
                           Some f \<Rightarrow> concat (map (show_tool_error r) (py_splitlines f)) | None \<Rightarrow> [])
         in (body @ findings @ concat (map (show_warn r) (drop reported broken)), max reported (length broken))))"

definition finish_turn :: "renderer \<Rightarrow> git \<Rightarrow> session \<Rightarrow> string" where
  "finish_turn r git s =
     show_turn_summary r (if is_git_repo git then diff_stat git else []) (estimate_tokens (messages s)) (context_window s)"

section \<open>Running the calls of a turn, with what is shown\<close>

text \<open>A call that was cleared: it runs, is reported and recorded.\<close>

definition shown_call ::
  "renderer \<Rightarrow> ('w \<Rightarrow> string list) \<Rightarrow> 'w world \<Rightarrow> bool \<Rightarrow> tool_call \<Rightarrow> nat \<Rightarrow> session \<times> 'w \<Rightarrow>
   (string \<times> nat \<times> bool \<times> session \<times> 'w) option" where
  "shown_call r broken W seen_diff c reported st =
     (let (s, w) = st in
      case invoke W (call_name c) (call_arguments c) w of
        None \<Rightarrow> None
      | Some (outcome, w1) \<Rightarrow>
          (let (out, reported) = report r (broken w1) reported (call_name c) outcome (\<not> seen_diff);
               ((escalation, give_up), s1) = repetition c outcome s;
               s2 = record_result c (outcome_content outcome @ escalation) s1
           in Some (out @ (if give_up
                           then show_warn r (call_name c @ '' failed the same way '' @ str_nat REPEAT_ABORT
                                  @ '' times running - stopping so you can take a look.'') else []),
                    reported, \<not> give_up, s2, w1)))"

text \<open>\<open>unavailable\<close> is the text of the exception that says nobody could be asked.\<close>

fun show_execute ::
  "renderer \<Rightarrow> string \<Rightarrow> ('w \<Rightarrow> string list) \<Rightarrow> 'w world \<Rightarrow> tool_call list \<Rightarrow> nat \<Rightarrow> session \<times> 'w \<Rightarrow>
   (string \<times> nat \<times> bool \<times> session \<times> 'w) option" where
  "show_execute r unavailable broken W [] reported (s, w) = Some ([], reported, True, s, w)"
| "show_execute r unavailable broken W (c # cs) reported (s, w) =
     (let head = show_tool_call r (call_name c) (summarise_arguments (call_name c) (call_arguments c));
          go_on = (\<lambda>out reported st. map_option (\<lambda>(more, rest). (head @ out @ more, rest))
                     (show_execute r unavailable broken W cs reported st));
          cleared = (\<lambda>seen_diff w. case shown_call r broken W seen_diff c reported (s, w) of
                         None \<Rightarrow> None
                       | Some (out, reported, True, st) \<Rightarrow> go_on out reported st
                       | Some (out, reported, False, st) \<Rightarrow> Some (head @ out, reported, False, st))
      in case approval_for W (call_name c) (call_arguments c) w of
           None \<Rightarrow> cleared False w
         | Some request \<Rightarrow>
             (case approve W s request w of
                (Unavailable, w) \<Rightarrow>
                  Some (head @ show_error r (''cannot ask for approval: '' @ unavailable), reported, False,
                        record_result c ''The user could not be asked, so this did not run.'' s, w)
              | (Declined, w) \<Rightarrow>
                  go_on (show_tool_error r ''declined by the user'') reported (record_result c DECLINED s, w)
              | (Approved, w) \<Rightarrow> cleared (\<not> auto_approve s \<and> NL \<in> set (snd request)) w))"

section \<open>Showing changes nothing\<close>

lemma shown_call_runs:
  "map_option (\<lambda>(out, reported, rest). rest) (shown_call r broken W seen_diff c reported (s, w)) = run_call W c (s, w)"
  by (auto simp: shown_call_def run_call_def split: option.splits prod.splits)

lemma shown_call_cases:
  assumes "shown_call r broken W seen_diff c reported (s, w) = Some (out, n, go, s1, w1)"
  shows "run_call W c (s, w) = Some (go, s1, w1)" and "reported \<le> n"
  using shown_call_runs[of r broken W seen_diff c reported s w] assms
  by (auto simp: shown_call_def report_def Let_def split: option.splits prod.splits if_splits)

text \<open>
  Showing changes nothing: with the output left out, running the calls of a turn under the
  renderer is running them, whatever is reported of them.
\<close>

theorem shown_calls_run:
  "map_option (\<lambda>(out, reported, rest). rest) (show_execute r unavailable broken W cs reported (s, w)) = execute W cs (s, w)"
proof (induction cs arbitrary: reported s w)
  case (Cons c cs)
  have cleared: "map_option (\<lambda>(out, reported, rest). rest)
      (case shown_call r broken W seen_diff c reported (s, w1) of
         None \<Rightarrow> None
       | Some (out, reported, True, st) \<Rightarrow> map_option (\<lambda>(more, rest). (h @ out @ more, rest))
            (show_execute r unavailable broken W cs reported st)
       | Some (out, reported, False, st) \<Rightarrow> Some (h @ out, reported, False, st)) =
      (case run_call W c (s, w1) of
         None \<Rightarrow> None
       | Some (go_on, s1, w1) \<Rightarrow> if go_on then execute W cs (s1, w1) else Some (False, s1, w1))" for seen_diff h w1
  proof (cases "shown_call r broken W seen_diff c reported (s, w1)")
    case None
    with shown_call_runs[of r broken W seen_diff c reported s w1] show ?thesis by simp
  next
    case (Some x)
    obtain out n go s1 w2 where x: "x = (out, n, go, s1, w2)" by (cases x) auto
    with Some shown_call_cases(1)[of r broken W seen_diff c reported s w1] show ?thesis
      using Cons.IH[of n s1 w2] by (cases go) (auto simp: option.map_comp comp_def split_beta)
  qed
  have go_on: "map_option (\<lambda>(out, reported, rest). rest) (map_option (\<lambda>(more, rest). (h @ out @ more, rest))
      (show_execute r unavailable broken W cs n (s1, w1))) = execute W cs (s1, w1)" for h out n s1 w1
    using Cons.IH[of n s1 w1] by (simp add: option.map_comp comp_def split_beta)
  show ?case
  proof (cases "approval_for W (call_name c) (call_arguments c) w")
    case None
    then show ?thesis by (simp add: Let_def cleared)
  next
    case (Some request)
    obtain a w1 where a: "approve W s request w = (a, w1)" by fastforce
    show ?thesis by (cases a) (simp_all add: Let_def Some a cleared go_on)
  qed
qed simp

end
