(* ===== verification/Cache.thy ===== *)
theory Cache
  imports Session Store
begin

text \<open>
  \<open>llm_assistant_agent/cache.py\<close>: answers of the model on disk, one file per request. The
  file system, the digest and the two readings of a time are those of \<open>Store\<close>; \<open>rglob\<close>
  is a parameter: the entries under a directory whose names end in \<open>.json\<close>, in the order the
  operating system gives them. No other program touches the directory while an operation runs.
\<close>

section \<open>Requests and answers\<close>

record model_request =
  request_model :: string
  request_messages :: "json list"
  request_tools :: "json list option"
  request_temperature :: json
  request_top_p :: json
  request_max_tokens :: int

record cached_response =
  cached_created :: "bool \<times> rat"
  cached_model :: json
  cached_hash :: json
  cached_content :: json
  cached_calls :: json
  cached_finish :: json

record cache_stats =
  hits :: nat
  misses :: nat
  size_bytes :: nat
  entry_count :: nat
  oldest_entry :: "rat option"
  newest_entry :: "rat option"

definition no_stats :: cache_stats where
  "no_stats = \<lparr>hits = 0, misses = 0, size_bytes = 0, entry_count = 0, oldest_entry = None, newest_entry = None\<rparr>"

definition hit_rate :: "cache_stats \<Rightarrow> rat" where
  "hit_rate s = (let held = hits s + misses s in if held > 0 then of_nat (hits s) / of_nat held * 100 else 0)"

record response_cache =
  cache_root :: path
  max_age :: rat
  max_size_bytes :: int
  cache_enabled :: bool
  cache_stats_of :: cache_stats

type_synonym rglob = "fs \<Rightarrow> path \<Rightarrow> path list"

text \<open>\<open>mkdir(parents=True, exist_ok=True)\<close> of a directory: None when a file is in the way.\<close>

definition make_directory :: "path \<Rightarrow> fs \<Rightarrow> fs option" where
  "make_directory p fs =
     (if list_ex (is_file fs) (parents p @ [p]) then None
      else Some (\<lambda>q. if (q = p \<or> q \<in> set (parents p)) \<and> fs q = None then Some Directory else fs q))"

definition DAY :: rat where "DAY = 86400"

definition open_cache :: "path \<Rightarrow> int \<Rightarrow> int \<Rightarrow> bool \<Rightarrow> fs \<Rightarrow> (response_cache \<times> fs) option" where
  "open_cache r max_age_days max_size_mb enabled fs =
     map_option (Pair \<lparr>cache_root = r, max_age = of_int max_age_days * DAY,
         max_size_bytes = max_size_mb * 1024 * 1024, cache_enabled = enabled, cache_stats_of = no_stats\<rparr>)
       (make_directory r fs)"

definition cache_default_root :: "(string \<Rightarrow> string option) \<Rightarrow> (string \<Rightarrow> path) \<Rightarrow> path \<Rightarrow> path" where
  "cache_default_root environ expanduser home =
     (case environ ''ASSIST_HOME'' of
        Some (c # cs) \<Rightarrow> expanduser (c # cs) @ [''cache'']
      | _ \<Rightarrow> home @ [''.assist'', ''cache''])"

section \<open>Keys\<close>

definition key_data :: "model_request \<Rightarrow> json" where
  "key_data q =
     JObj [(''model'', JStr (request_model q)), (''messages'', JArr (request_messages q)),
       (''tools'', JArr (case request_tools q of Some tools \<Rightarrow> tools | None \<Rightarrow> [])),
       (''temperature'', request_temperature q), (''top_p'', request_top_p q),
       (''max_tokens'', JInt (request_max_tokens q))]"

definition hash_key :: "store_env \<Rightarrow> model_request \<Rightarrow> string" where
  "hash_key e q = sha256_of e (json_dumps (sort_keys (key_data q)), True)"

definition cache_path :: "response_cache \<Rightarrow> string \<Rightarrow> path" where
  "cache_path c key = cache_root c @ [take 2 key, key @ ''.json'']"

section \<open>Reading\<close>

definition cached_dict :: "store_env \<Rightarrow> rat \<Rightarrow> model_request \<Rightarrow> json \<Rightarrow> json \<Rightarrow> json \<Rightarrow> json" where
  "cached_dict e now q said calls finish =
     JObj [(''created'', JStr (isoformat e now)), (''model'', JStr (request_model q)),
       (''messages_hash'', JStr (hash_key e q)), (''content'', said), (''tool_calls'', calls),
       (''finish_reason'', finish)]"

text \<open>\<open>CachedResponse.from_dict\<close>: a missing key is a \<open>KeyError\<close>, which the caller handles, a time
  that is no time a \<open>ValueError\<close> or \<open>TypeError\<close>, which nobody handles.\<close>

datatype parsed_entry = Entry cached_response | Key_Error | Other_Error

definition cached_from_dict :: "store_env \<Rightarrow> json \<Rightarrow> parsed_entry" where
  "cached_from_dict e data =
     (case data of
        JObj d \<Rightarrow>
          (if \<not> dict_has d ''created'' then Key_Error
           else
             (case dict_get d ''created'' of
                JStr created \<Rightarrow>
                  (case fromisoformat e created of
                     None \<Rightarrow> Other_Error
                   | Some t \<Rightarrow>
                       (if \<not> dict_has d ''model'' \<or> \<not> dict_has d ''messages_hash'' \<or> \<not> dict_has d ''content''
                        then Key_Error
                        else Entry \<lparr>cached_created = t, cached_model = dict_get d ''model'',
                          cached_hash = dict_get d ''messages_hash'', cached_content = dict_get d ''content'',
                          cached_calls = dict_get d ''tool_calls'', cached_finish = dict_get d ''finish_reason''\<rparr>))
              | _ \<Rightarrow> Other_Error))
      | _ \<Rightarrow> Other_Error)"

definition missed :: "response_cache \<Rightarrow> response_cache" where
  "missed c = c\<lparr>cache_stats_of := (cache_stats_of c)\<lparr>misses := misses (cache_stats_of c) + 1\<rparr>\<rparr>"

definition hit :: "response_cache \<Rightarrow> response_cache" where
  "hit c = c\<lparr>cache_stats_of := (cache_stats_of c)\<lparr>hits := hits (cache_stats_of c) + 1\<rparr>\<rparr>"

definition forget :: "store_env \<Rightarrow> path \<Rightarrow> fs \<Rightarrow> fs" where
  "forget e p fs = fs(entry_path e p := None)"

text \<open>\<open>get\<close>: the answer if there is one, the cache and the files; None for an exception.\<close>

definition cache_lookup ::
  "store_env \<Rightarrow> rat \<Rightarrow> model_request \<Rightarrow> response_cache \<times> fs \<Rightarrow>
     ((json \<times> json \<times> json) option \<times> response_cache \<times> fs) option" where
  "cache_lookup e now q = (\<lambda>(c, fs).
     if \<not> cache_enabled c then Some (None, c, fs)
     else
       (let path = cache_path c (hash_key e q) in
        case fs (realpath_of e path) of
          Some (File text utf8 t) \<Rightarrow>
            (if \<not> utf8 then None
             else
               (case json_loads (universal_newlines text) of
                  Inl _ \<Rightarrow> Some (None, missed c, forget e path fs)
                | Inr data \<Rightarrow>
                    (case cached_from_dict e data of
                       Other_Error \<Rightarrow> None
                     | Key_Error \<Rightarrow> Some (None, missed c, forget e path fs)
                     | Entry cached \<Rightarrow>
                         (if \<not> fst (cached_created cached) then None
                          else if now - snd (cached_created cached) > max_age c
                          then Some (None, missed c, forget e path fs)
                          else Some (Some (cached_content cached, cached_calls cached, cached_finish cached),
                                 hit c, fs)))))
        | _ \<Rightarrow> Some (None, missed c, fs)))"

section \<open>Writing\<close>

definition stat_size :: "store_env \<Rightarrow> fs \<Rightarrow> path \<Rightarrow> nat" where
  "stat_size e fs p = (case fs (realpath_of e p) of Some n \<Rightarrow> byte_size n | None \<Rightarrow> 0)"

definition entry_files :: "store_env \<Rightarrow> rglob \<Rightarrow> response_cache \<Rightarrow> fs \<Rightarrow> path list" where
  "entry_files e rglob c fs = filter (\<lambda>p. is_file fs (realpath_of e p)) (rglob fs (cache_root c))"

definition total_size :: "store_env \<Rightarrow> rglob \<Rightarrow> response_cache \<Rightarrow> fs \<Rightarrow> nat" where
  "total_size e rglob c fs = sum_list (map (stat_size e fs) (entry_files e rglob c fs))"

text \<open>\<open>p.stat()\<close> raises for a link that leads nowhere, \<open>unlink\<close> for a directory; either ends it.\<close>

fun evict_until :: "store_env \<Rightarrow> int \<Rightarrow> path list \<Rightarrow> int \<Rightarrow> fs \<Rightarrow> fs" where
  "evict_until e limit [] held fs = fs"
| "evict_until e limit (p # ps) held fs =
     (if held \<le> limit then fs
      else if fs (realpath_of e p) = None \<or> fs (entry_path e p) = Some Directory then fs
      else evict_until e limit ps (held - int (stat_size e fs p)) (forget e p fs))"

definition by_age :: "store_env \<Rightarrow> rglob \<Rightarrow> response_cache \<Rightarrow> fs \<Rightarrow> path list option" where
  "by_age e rglob c fs =
     (let found = rglob fs (cache_root c) in
      if list_ex (\<lambda>p. fs (realpath_of e p) = None) found then None
      else Some (sort_key (\<lambda>p. modified fs (realpath_of e p)) found))"

definition enforce_size_limit :: "store_env \<Rightarrow> rglob \<Rightarrow> response_cache \<Rightarrow> fs \<Rightarrow> fs" where
  "enforce_size_limit e rglob c fs =
     (let held = int (total_size e rglob c fs) in
      if held \<le> max_size_bytes c then fs
      else
        (case by_age e rglob c fs of
           None \<Rightarrow> fs
         | Some files \<Rightarrow> evict_until e (max_size_bytes c) files held fs))"

definition cache_store ::
  "store_env \<Rightarrow> rglob \<Rightarrow> rat \<Rightarrow> model_request \<Rightarrow> json \<Rightarrow> json \<Rightarrow> json \<Rightarrow> response_cache \<Rightarrow> fs \<Rightarrow> fs" where
  "cache_store e rglob now q said calls finish c fs =
     (if \<not> cache_enabled c then fs
      else
        (let path = cache_path c (hash_key e q) in
         case write_text (realpath_of e path) (json_dumps (cached_dict e now q said calls finish)) now fs of
           None \<Rightarrow> fs
         | Some fs \<Rightarrow> enforce_size_limit e rglob c fs))"

section \<open>Looking after it\<close>

definition clear_cache :: "store_env \<Rightarrow> rglob \<Rightarrow> response_cache \<Rightarrow> fs \<Rightarrow> nat \<times> fs" where
  "clear_cache e rglob c fs =
     fold (\<lambda>p (count, fs). if is_file fs (realpath_of e p) then (count + 1, forget e p fs) else (count, fs))
       (rglob fs (cache_root c)) (0, fs)"

definition refresh_stats :: "store_env \<Rightarrow> rglob \<Rightarrow> fs \<Rightarrow> response_cache \<Rightarrow> cache_stats \<times> response_cache" where
  "refresh_stats e rglob fs c =
     (let files = entry_files e rglob c fs;
          s = (cache_stats_of c)\<lparr>size_bytes := total_size e rglob c fs, entry_count := length files\<rparr>;
          times = map (\<lambda>p. modified fs (realpath_of e p)) files;
          s = (if files = [] then s
               else s\<lparr>oldest_entry := Some (Min (set times)), newest_entry := Some (Max (set times))\<rparr>)
      in (s, c\<lparr>cache_stats_of := s\<rparr>))"

text \<open>None: an entry that is no UTF-8, or no object.\<close>

fun describe_entries :: "store_env \<Rightarrow> fs \<Rightarrow> path list \<Rightarrow> (json \<times> json \<times> nat) list option" where
  "describe_entries e fs [] = Some []"
| "describe_entries e fs (p # ps) =
     (case fs (realpath_of e p) of
        Some (File text utf8 t) \<Rightarrow>
          (if \<not> utf8 then None
           else
             (case json_loads (universal_newlines text) of
                Inl _ \<Rightarrow> describe_entries e fs ps
              | Inr (JObj d) \<Rightarrow>
                  map_option ((#) (get_or d ''model'' (JStr ''unknown''), get_or d ''created'' (JStr []),
                      stat_size e fs p)) (describe_entries e fs ps)
              | Inr _ \<Rightarrow> None))
      | _ \<Rightarrow> describe_entries e fs ps)"

definition list_entries ::
  "store_env \<Rightarrow> rglob \<Rightarrow> nat \<Rightarrow> response_cache \<Rightarrow> fs \<Rightarrow> (json \<times> json \<times> nat) list option" where
  "list_entries e rglob limit c fs =
     (let found = rglob fs (cache_root c) in
      if list_ex (\<lambda>p. fs (realpath_of e p) = None) found then Some []
      else describe_entries e fs (take limit (sort_reverse (\<lambda>p. modified fs (realpath_of e p)) found)))"

section \<open>Which request an answer is for\<close>

lemma sort_keys_ok: "json_ok v \<Longrightarrow> json_ok (sort_keys v)"
proof (induction v rule: sort_keys.induct)
  case (1 xs)
  then show ?case by (auto simp: list_all_iff)
next
  case (2 d)
  let ?d = "map (\<lambda>(k, v). (k, sort_keys v)) d"
  have "distinct (map fst ?d)" using 2(2) by (simp add: comp_def case_prod_beta)
  then have "distinct (map fst (sort_key fst ?d))" by (simp only: distinct_map distinct_sort set_sort)
  moreover have "list_all (\<lambda>(k, v). json_ok v) (sort_key fst (map (\<lambda>(k, v). (k, sort_keys v)) d))"
    using 2 by (force simp: list_all_iff)
  ultimately show ?case by simp
qed simp_all

text \<open>Two requests are the same when they agree up to the order of the keys of their objects.\<close>

definition same_request :: "model_request \<Rightarrow> model_request \<Rightarrow> bool" where
  "same_request q q' \<longleftrightarrow>
     request_model q = request_model q' \<and>
     map sort_keys (request_messages q) = map sort_keys (request_messages q') \<and>
     map sort_keys (case request_tools q of Some tools \<Rightarrow> tools | None \<Rightarrow> [])
       = map sort_keys (case request_tools q' of Some tools \<Rightarrow> tools | None \<Rightarrow> []) \<and>
     sort_keys (request_temperature q) = sort_keys (request_temperature q') \<and>
     sort_keys (request_top_p q) = sort_keys (request_top_p q') \<and>
     request_max_tokens q = request_max_tokens q'"

lemma key_data_exact: "sort_keys (key_data q) = sort_keys (key_data q') \<longleftrightarrow> same_request q q'"
proof
  let ?fields = "\<lambda>q. map (\<lambda>(k, v). (k, sort_keys v)) (case key_data q of JObj d \<Rightarrow> d | _ \<Rightarrow> [])"
  assume "sort_keys (key_data q) = sort_keys (key_data q')"
  then have "sort_key fst (?fields q) = sort_key fst (?fields q')" by (simp add: key_data_def)
  then have "set (?fields q) = set (?fields q')" by (metis set_sort)
  then have "x \<in> set (?fields q')" if "x \<in> set (?fields q)" for x using that by simp
  from this[of "(''model'', JStr (request_model q))"] this[of "(''messages'', JArr (map sort_keys (request_messages q)))"]
    this[of "(''tools'', JArr (map sort_keys (case request_tools q of Some tools \<Rightarrow> tools | None \<Rightarrow> [])))"]
    this[of "(''temperature'', sort_keys (request_temperature q))"] this[of "(''top_p'', sort_keys (request_top_p q))"]
    this[of "(''max_tokens'', JInt (request_max_tokens q))"]
  show "same_request q q'" by (simp add: same_request_def key_data_def)
next
  assume "same_request q q'"
  then show "sort_keys (key_data q) = sort_keys (key_data q')" by (simp add: same_request_def key_data_def)
qed

lemma same_request_hash: "same_request q q' \<Longrightarrow> hash_key e q = hash_key e q'"
  by (simp add: hash_key_def key_data_exact[symmetric])

lemma same_request_text:
  assumes "json_ok (key_data q)" and "json_ok (key_data q')"
  shows "json_dumps (sort_keys (key_data q)) = json_dumps (sort_keys (key_data q')) \<longleftrightarrow> same_request q q'"
  using codec.dumps_inject[OF sort_keys_ok[OF assms(1)] sort_keys_ok[OF assms(2)]] by (auto simp: key_data_exact)

lemma cache_path_exact: "cache_path c k = cache_path c k' \<longleftrightarrow> k = k'"
  by (auto simp: cache_path_def)

section \<open>Eviction\<close>

lemma evict_until_effect:
  assumes "\<forall>p \<in> set ps. is_file fs p \<and> realpath_of e p = p \<and> entry_path e p = p" and "distinct ps"
  shows "\<exists>n. evict_until e limit ps held fs = (\<lambda>q. if q \<in> set (take n ps) then None else fs q) \<and>
    (held - int (sum_list (map (stat_size e fs) (take n ps))) \<le> limit \<or> n = length ps) \<and> n \<le> length ps"
  using assms
proof (induction ps arbitrary: held fs)
  case (Cons p ps)
  show ?case
  proof (cases "held \<le> limit")
    case True
    then show ?thesis by (intro exI[of _ 0]) simp
  next
    case False
    let ?fs = "fs(p := None)"
    have p: "fs p \<noteq> None" "fs p \<noteq> Some Directory" "realpath_of e p = p" "entry_path e p = p"
      using Cons.prems(1) by (auto simp: is_file_def split: option.splits)
    have rest: "\<forall>q \<in> set ps. is_file ?fs q \<and> realpath_of e q = q \<and> entry_path e q = q" "distinct ps"
      using Cons.prems by (auto simp: is_file_def)
    have sizes: "map (stat_size e ?fs) (take n ps) = map (stat_size e fs) (take n ps)" for n
      using Cons.prems by (auto simp: stat_size_def dest: in_set_takeD)
    from Cons.IH[OF rest, of "held - int (stat_size e fs p)"] obtain n where n:
      "evict_until e limit ps (held - int (stat_size e fs p)) ?fs = (\<lambda>q. if q \<in> set (take n ps) then None else ?fs q)"
      "held - int (stat_size e fs p) - int (sum_list (map (stat_size e ?fs) (take n ps))) \<le> limit \<or> n = length ps"
      "n \<le> length ps" by blast
    show ?thesis
      using False p n by (intro exI[of _ "Suc n"]) (auto simp: forget_def sizes fun_eq_iff)
  qed
qed simp

text \<open>The entries are plain files under their own names, and the listing shows just the entries.\<close>

definition tidy :: "store_env \<Rightarrow> rglob \<Rightarrow> response_cache \<Rightarrow> fs \<Rightarrow> bool" where
  "tidy e rglob c fs \<longleftrightarrow>
     (\<forall>p \<in> set (rglob fs (cache_root c)). is_file fs p \<and> realpath_of e p = p \<and> entry_path e p = p) \<and>
     (\<forall>fs'. fs' \<subseteq>\<^sub>m fs \<longrightarrow> distinct (rglob fs' (cache_root c)) \<and>
        set (rglob fs' (cache_root c)) = {p \<in> set (rglob fs (cache_root c)). fs' p \<noteq> None})"

lemma tidyD: "tidy e rglob c fs \<Longrightarrow> p \<in> set (rglob fs (cache_root c)) \<Longrightarrow>
    is_file fs p \<and> realpath_of e p = p \<and> entry_path e p = p"
  unfolding tidy_def by blast

lemma total_size_sum:
  assumes "tidy e rglob c fs" and "fs' \<subseteq>\<^sub>m fs"
  shows "total_size e rglob c fs' = (\<Sum>p | p \<in> set (rglob fs (cache_root c)) \<and> fs' p \<noteq> None. stat_size e fs p)"
proof -
  let ?ps = "rglob fs' (cache_root c)"
  have ps: "distinct ?ps" "set ?ps = {p \<in> set (rglob fs (cache_root c)). fs' p \<noteq> None}"
    using assms unfolding tidy_def by blast+
  have same: "fs' p = fs p" "is_file fs p" "realpath_of e p = p" if "p \<in> set ?ps" for p
  proof -
    have "p \<in> set (rglob fs (cache_root c))" "p \<in> dom fs'" using that ps(2) by auto
    then show "fs' p = fs p" "is_file fs p" "realpath_of e p = p"
      using tidyD[OF assms(1)] assms(2)[unfolded map_le_def] by simp_all
  qed
  have "entry_files e rglob c fs' = ?ps"
    using same by (simp add: entry_files_def filter_id_conv is_file_def)
  then have "total_size e rglob c fs' = (\<Sum>p \<in> set ?ps. stat_size e fs' p)"
    using ps(1) by (simp add: total_size_def sum_list_distinct_conv_sum_set)
  also have "\<dots> = (\<Sum>p \<in> set ?ps. stat_size e fs p)"
    using same by (intro sum.cong) (simp_all add: stat_size_def)
  finally show ?thesis by (simp only: ps(2))
qed

lemma insort_key_agree: "\<forall>y \<in> insert x (set ys). f y = g y \<Longrightarrow> insort_key f x ys = insort_key g x ys"
  by (induction ys) simp_all

lemma sort_key_agree: "\<forall>x \<in> set xs. f x = g x \<Longrightarrow> sort_key f xs = sort_key g xs"
  by (induction xs) (simp_all add: insort_key_agree)

lemma by_age_tidy:
  assumes "tidy e rglob c fs"
  shows "by_age e rglob c fs = Some (sort_key (modified fs) (rglob fs (cache_root c)))"
proof -
  let ?ps = "rglob fs (cache_root c)"
  have plain: "is_file fs p" "realpath_of e p = p" if "p \<in> set ?ps" for p
    using that tidyD[OF assms] by simp_all
  have found: "\<forall>p \<in> set ?ps. fs (realpath_of e p) \<noteq> None \<and> modified fs (realpath_of e p) = modified fs p"
    using plain by (force simp: is_file_def split: option.splits)
  then have "sort_key (\<lambda>p. modified fs (realpath_of e p)) ?ps = sort_key (modified fs) ?ps"
    by (intro sort_key_agree) blast
  with found show ?thesis by (auto simp: by_age_def list_ex_iff Let_def)
qed

text \<open>
  The cache never keeps more than it may. After the check that follows every write, what is
  left fits the limit; the entries removed are the oldest, no entry removed is younger than one
  kept; nothing but entries is touched; and a cache within its limit is left alone.
\<close>

theorem cache_stays_bounded:
  assumes tidy: "tidy e rglob c fs" and "0 \<le> max_size_bytes c"
  shows "let fs' = enforce_size_limit e rglob c fs; entries = set (rglob fs (cache_root c)) in
     int (total_size e rglob c fs') \<le> max_size_bytes c \<and>
     (\<forall>p \<in> entries. \<forall>q \<in> entries. fs' p = None \<longrightarrow> fs' q \<noteq> None \<longrightarrow> modified fs p \<le> modified fs q) \<and>
     (\<forall>p. fs' p = fs p \<or> p \<in> entries) \<and>
     (int (total_size e rglob c fs) \<le> max_size_bytes c \<longrightarrow> fs' = fs)"
proof (cases "int (total_size e rglob c fs) \<le> max_size_bytes c")
  case True
  then have "enforce_size_limit e rglob c fs = fs" by (simp add: enforce_size_limit_def)
  moreover have "fs p \<noteq> None" if "p \<in> set (rglob fs (cache_root c))" for p
    using tidyD[OF tidy that] by (auto simp: is_file_def split: option.splits)
  ultimately show ?thesis using True by (fastforce simp: Let_def)
next
  case False
  define ps where "ps = sort_key (modified fs) (rglob fs (cache_root c))"
  have set_ps: "set ps = set (rglob fs (cache_root c))" by (simp add: ps_def)
  have "distinct (rglob fs (cache_root c))"
    using conjunct2[OF tidy[unfolded tidy_def], rule_format, OF map_le_refl] by (rule conjunct1)
  then have distinct: "distinct ps" by (simp add: ps_def)
  have plain: "\<forall>p \<in> set ps. is_file fs p \<and> realpath_of e p = p \<and> entry_path e p = p"
    using tidyD[OF tidy] by (simp add: set_ps)
  define fs' where "fs' = enforce_size_limit e rglob c fs"
  have "fs' = evict_until e (max_size_bytes c) ps (int (total_size e rglob c fs)) fs"
    using False by (simp add: fs'_def enforce_size_limit_def by_age_tidy[OF tidy] ps_def)
  with evict_until_effect[OF plain distinct, of "max_size_bytes c" "int (total_size e rglob c fs)"]
  obtain n where fs': "fs' = (\<lambda>q. if q \<in> set (take n ps) then None else fs q)"
    and n: "int (total_size e rglob c fs) - int (sum_list (map (stat_size e fs) (take n ps))) \<le> max_size_bytes c
      \<or> n = length ps" by auto
  have there: "p \<in> set ps \<Longrightarrow> fs p \<noteq> None" for p
    using plain by (auto simp: is_file_def split: option.splits)
  have split: "p \<in> set ps \<Longrightarrow> fs' p = None \<longleftrightarrow> p \<in> set (take n ps)" for p
    using there by (auto simp: fs')
  have parts: "set ps = set (take n ps) \<union> set (drop n ps)" "set (take n ps) \<inter> set (drop n ps) = {}"
    using distinct set_append[of "take n ps" "drop n ps"] distinct_append[of "take n ps" "drop n ps"] by simp_all
  have left: "{p \<in> set (rglob fs (cache_root c)). fs' p \<noteq> None} = set (drop n ps)"
  proof -
    have "{p \<in> set ps. fs' p \<noteq> None} = {p \<in> set ps. p \<notin> set (take n ps)}"
      by (rule Collect_cong) (simp add: split cong: conj_cong)
    also have "\<dots> = set (drop n ps)" unfolding parts(1) using parts(2) by (simp add: set_eq_iff) blast
    finally show ?thesis by (simp only: set_ps)
  qed
  have less: "fs' \<subseteq>\<^sub>m fs" by (auto simp: fs' map_le_def dom_def)
  have total': "total_size e rglob c fs' = sum_list (map (stat_size e fs) (drop n ps))"
    using distinct unfolding total_size_sum[OF tidy less] left by (simp add: sum_list_distinct_conv_sum_set)
  have "{p \<in> set (rglob fs (cache_root c)). fs p \<noteq> None} = set ps"
    using there by (auto simp: set_ps[symmetric])
  then have "total_size e rglob c fs = sum_list (map (stat_size e fs) ps)"
    using distinct unfolding total_size_sum[OF tidy map_le_refl] by (simp add: sum_list_distinct_conv_sum_set)
  also have "\<dots> = sum_list (map (stat_size e fs) (take n ps)) + total_size e rglob c fs'"
    by (simp only: total' sum_list_append[symmetric] map_append[symmetric] append_take_drop_id)
  finally have bounded: "int (total_size e rglob c fs') \<le> max_size_bytes c"
    using n assms(2) total' by auto
  have "sorted (map (modified fs) (take n ps @ drop n ps))" by (simp add: ps_def)
  then have older: "modified fs p \<le> modified fs q" if "p \<in> set (take n ps)" "q \<in> set (drop n ps)" for p q
    using that by (simp only: map_append sorted_append set_map) blast
  show ?thesis
    unfolding Let_def fs'_def[symmetric]
  proof (intro conjI ballI allI impI)
    fix p q
    assume "p \<in> set (rglob fs (cache_root c))" "q \<in> set (rglob fs (cache_root c))" "fs' p = None" "fs' q \<noteq> None"
    then have "p \<in> set (take n ps)" "q \<in> set (drop n ps)" using split parts by (auto simp: set_ps[symmetric])
    then show "modified fs p \<le> modified fs q" by (rule older)
  next
    show "fs' p = fs p \<or> p \<in> set (rglob fs (cache_root c))" for p
      using parts(1) by (auto simp: fs' set_ps[symmetric])
  qed (use bounded False in simp_all)
qed

section \<open>An answer comes back to its request\<close>

lemma write_text_lookup:
  assumes "write_text p text now fs = Some disk" and "\<not> strict_prefix q p"
  shows "disk q = (if q = p then Some (File text True now) else fs q)"
proof -
  have "q \<notin> set (parents p)"
    using assms(2) by (auto simp: parents_def strict_prefix_def) (metis take_is_prefix)
  then show ?thesis using assms(1) by (auto simp: write_text_def split: if_splits)
qed

definition entry_text :: "store_env \<Rightarrow> rat \<Rightarrow> model_request \<Rightarrow> json \<times> json \<times> json \<Rightarrow> string" where
  "entry_text e now q given_out = json_dumps (cached_dict e now q (fst given_out) (fst (snd given_out)) (snd (snd given_out)))"

lemma entry_text_parses:
  assumes "json_ok said" "json_ok calls" "json_ok finish"
    and "fromisoformat e (isoformat e now) = Some (True, now)"
  shows "json_loads (universal_newlines (entry_text e now q (said, calls, finish))) = Inr (cached_dict e now q said calls finish)"
    and "cached_from_dict e (cached_dict e now q said calls finish) =
      Entry \<lparr>cached_created = (True, now), cached_model = JStr (request_model q), cached_hash = JStr (hash_key e q),
        cached_content = said, cached_calls = calls, cached_finish = finish\<rparr>"
proof -
  have ok: "json_ok (cached_dict e now q said calls finish)" using assms by (simp add: cached_dict_def)
  from codec.loads_dumps[OF ok]
  show "json_loads (universal_newlines (entry_text e now q (said, calls, finish))) = Inr (cached_dict e now q said calls finish)"
    by (simp add: entry_text_def text_mode_id[OF json_dumps_no_cr[OF ok]])
qed (use assms in \<open>simp add: cached_dict_def cached_from_dict_def dict_has_def dict_get_def\<close>)

text \<open>
  C30. What was stored for a request is what the cache gives for it until it is older than the
  cache's age limit, provided the answers fit the size limit together, and no other request whose
  digest differs sees it: its answer is the one it had before. Two requests count as the same when
  model, messages, tools and sampling agree up to the order of keys; that the digest tells the
  texts of these two requests apart is the one thing asked of SHA-256.
\<close>

theorem cache_answers_its_request:
  assumes "cache_enabled c"
    and sha: "hash_key e q = hash_key e q' \<Longrightarrow>
      json_dumps (sort_keys (key_data q)) = json_dumps (sort_keys (key_data q'))"
    and "json_ok (key_data q)" "json_ok (key_data q')" "json_ok said" "json_ok calls" "json_ok finish"
    and time: "fromisoformat e (isoformat e now) = Some (True, now)" and "later - now \<le> max_age c"
    and links: "\<forall>k. realpath_of e (cache_path c k) = cache_path c k"
    and wrote: "write_text (cache_path c (hash_key e q)) (entry_text e now q (said, calls, finish)) now fs = Some disk"
    and fits: "int (total_size e rglob c disk) \<le> max_size_bytes c"
  shows "map_option fst (cache_lookup e later q' (c, cache_store e rglob now q said calls finish c fs)) =
    (if same_request q q' then Some (Some (said, calls, finish)) else map_option fst (cache_lookup e later q' (c, fs)))"
proof -
  have stored: "cache_store e rglob now q said calls finish c fs = disk"
    using assms(1) wrote fits links
    by (simp add: cache_store_def entry_text_def enforce_size_limit_def)
  have "\<not> strict_prefix (cache_path c k) (cache_path c k')" for k k'
    by (auto simp: cache_path_def dest: prefix_length_less)
  note at = write_text_lookup[OF wrote this]
  show ?thesis
  proof (cases "same_request q q'")
    case True
    then have "hash_key e q' = hash_key e q" by (simp add: same_request_hash)
    then have "disk (realpath_of e (cache_path c (hash_key e q'))) = Some (File (entry_text e now q (said, calls, finish)) True now)"
      using at links by simp
    then show ?thesis
      using True assms(1,9) entry_text_parses[OF assms(5-7) time]
      by (simp add: stored cache_lookup_def)
  next
    case False
    then have "hash_key e q' \<noteq> hash_key e q" using sha same_request_text[OF assms(3,4)] by metis
    then have "disk (realpath_of e (cache_path c (hash_key e q'))) = fs (realpath_of e (cache_path c (hash_key e q')))"
      using at links by (simp add: cache_path_exact)
    then show ?thesis
      using False by (simp add: stored cache_lookup_def Let_def split: option.split node.split sum.split parsed_entry.split)
  qed
qed

text \<open>Two requests that differ in the order of keys only, and a cache with room for one of two answers.\<close>

definition plain_env :: store_env where
  "plain_env = \<lparr>realpath_of = (\<lambda>p. p), scan = (\<lambda>fs p. []), sha256_of = fst, isoformat = (\<lambda>t. ''T''),
     fromisoformat = (\<lambda>s. if s = ''T'' then Some (True, 5) else None)\<rparr>"

definition greeting :: "dict \<Rightarrow> model_request" where
  "greeting m = \<lparr>request_model = ''m'', request_messages = [JObj m], request_tools = None,
     request_temperature = JFloat ''0.1'', request_top_p = JFloat ''0.9'', request_max_tokens = 8\<rparr>"

definition small_cache :: response_cache where
  "small_cache = \<lparr>cache_root = [''c''], max_age = 10, max_size_bytes = 6, cache_enabled = True, cache_stats_of = no_stats\<rparr>"

definition two_answers :: fs where
  "two_answers = [[''c''] \<mapsto> Directory, [''c'', ''a.json''] \<mapsto> File ''aaaa'' True 2, [''c'', ''b.json''] \<mapsto> File ''bbbb'' True 1]"

definition two_names :: rglob where
  "two_names fs r = filter (\<lambda>p. fs p \<noteq> None) [[''c'', ''a.json''], [''c'', ''b.json'']]"

lemma cache_stays_bounded_witness:
  "tidy plain_env two_names small_cache two_answers \<and>
   enforce_size_limit plain_env two_names small_cache two_answers = two_answers([''c'', ''b.json''] := None) \<and>
   int (total_size plain_env two_names small_cache (two_answers([''c'', ''b.json''] := None))) \<le> 6"
proof -
  have names: "two_names fs' (cache_root small_cache) = filter (\<lambda>p. fs' p \<noteq> None) [[''c'', ''a.json''], [''c'', ''b.json'']]" for fs'
    by (simp add: two_names_def)
  have plain: "\<forall>p \<in> set [[''c'', ''a.json''], [''c'', ''b.json'']].
      is_file two_answers p \<and> realpath_of plain_env p = p \<and> entry_path plain_env p = p \<and> two_answers p \<noteq> None"
    by code_simp
  have tidy: "tidy plain_env two_names small_cache two_answers"
    using plain unfolding tidy_def names by auto
  have total: "total_size plain_env two_names small_cache two_answers = 8" by code_simp
  have "by_age plain_env two_names small_cache two_answers = Some [[''c'', ''b.json''], [''c'', ''a.json'']]"
    by code_simp
  moreover have "evict_until plain_env 6 [[''c'', ''b.json''], [''c'', ''a.json'']] 8 two_answers
      = two_answers([''c'', ''b.json''] := None)"
    by (simp add: stat_size_def plain_env_def two_answers_def forget_def entry_path_def byte_size_def code_point_def)
  ultimately have step: "enforce_size_limit plain_env two_names small_cache two_answers = two_answers([''c'', ''b.json''] := None)"
    using total by (simp add: enforce_size_limit_def small_cache_def)
  show ?thesis
    using cache_stays_bounded[OF tidy] tidy step by (simp add: small_cache_def Let_def)
qed

lemma cache_answers_its_request_witness:
  "let q = greeting [(''role'', JStr ''user''), (''content'', JStr ''hi'')];
       q' = greeting [(''content'', JStr ''hi''), (''role'', JStr ''user'')];
       c = small_cache\<lparr>max_size_bytes := 1000\<rparr>
   in map_option fst (cache_lookup plain_env 7 q' (c, cache_store plain_env (\<lambda>fs r. []) 5 q (JStr ''hello'') JNull JNull c two_answers))
        = Some (Some (JStr ''hello'', JNull, JNull))"
proof -
  let ?q = "greeting [(''role'', JStr ''user''), (''content'', JStr ''hi'')]"
  let ?q' = "greeting [(''content'', JStr ''hi''), (''role'', JStr ''user'')]"
  let ?c = "small_cache\<lparr>max_size_bytes := 1000\<rparr>"
  let ?p = "cache_path ?c (hash_key plain_env ?q)"
  have "json_ok (key_data ?q)" "json_ok (key_data ?q')" "same_request ?q ?q'"
    by code_simp+
  moreover have short: "take 2 k \<noteq> x # y # z # w" for k w :: string and x y z
    by (auto dest!: arg_cong[where f = length])
  have "\<exists>disk. write_text ?p (entry_text plain_env 5 ?q (JStr ''hello'', JNull, JNull)) 5 two_answers = Some disk"
    using short by (simp add: write_text_def parents_def cache_path_def small_cache_def two_answers_def is_file_def)
  then obtain disk where "write_text ?p (entry_text plain_env 5 ?q (JStr ''hello'', JNull, JNull)) 5 two_answers = Some disk" ..
  moreover have "hash_key plain_env ?q = hash_key plain_env ?q' \<Longrightarrow>
      json_dumps (sort_keys (key_data ?q)) = json_dumps (sort_keys (key_data ?q'))"
    by (simp add: hash_key_def plain_env_def)
  ultimately show ?thesis
    using cache_answers_its_request[of ?c plain_env ?q ?q' "JStr ''hello''" JNull JNull 5 7 two_answers disk "\<lambda>fs r. []"]
    by (simp add: plain_env_def small_cache_def total_size_def entry_files_def)
qed

end
