(* ===== verification/Interrupts.thy ===== *)
theory Interrupts
  imports Session
begin

text \<open>
  Ctrl-C during a turn: \<open>Session.ask\<close> (\<open>session.py\<close>) with the \<open>CancelledError\<close> that
  \<open>task.cancel()\<close> raises inside it. A coroutine can be cancelled only where it awaits: while the
  model answers (\<open>client.turn\<close>) and while a tool runs in its thread (\<open>asyncio.to_thread\<close>). The
  definitions follow \<open>ask_loop\<close> and \<open>execute\<close> of \<open>Session\<close> and count these awaits; the cancel lands
  in one of them. What the world looks like then is a parameter: the call that was running may have
  run on in its thread, or not at all.
\<close>

section \<open>Awaiting\<close>

text \<open>How many awaits pass before the cancel lands, if it does.\<close>

type_synonym patience = "nat option"

definition cancels :: "patience \<Rightarrow> bool" where
  "cancels k \<longleftrightarrow> k = Some 0"

definition awaited :: "patience \<Rightarrow> patience" where
  "awaited k = map_option (\<lambda>n. n - 1) k"

datatype 'a progress = Through 'a patience | Cancelled

text \<open>The call that was running when the cancel landed, none during a turn of the model.\<close>

type_synonym 'w leaving = "tool_call option \<Rightarrow> 'w \<Rightarrow> 'w"

definition run_until :: "'w leaving \<Rightarrow> 'w world \<Rightarrow> tool_call \<Rightarrow> patience \<Rightarrow> session \<times> 'w \<Rightarrow>
    (bool progress \<times> session \<times> 'w) option" where
  "run_until leave W c k st =
     (if cancels k then Some (Cancelled, fst st, leave (Some c) (snd st))
      else map_option (\<lambda>(go_on, st). (Through go_on (awaited k), st)) (run_call W c st))"

fun execute_until :: "'w leaving \<Rightarrow> 'w world \<Rightarrow> tool_call list \<Rightarrow> patience \<Rightarrow> session \<times> 'w \<Rightarrow>
    (bool progress \<times> session \<times> 'w) option" where
  "execute_until leave W [] k (s, w) = Some (Through True k, s, w)"
| "execute_until leave W (c # cs) k (s, w) =
     (case approval_for W (call_name c) (call_arguments c) w of
        None \<Rightarrow>
          (case run_until leave W c k (s, w) of
             Some (Through True k, s, w) \<Rightarrow> execute_until leave W cs k (s, w)
           | stopped \<Rightarrow> stopped)
      | Some request \<Rightarrow>
          (case approve W s request w of
             (Unavailable, w) \<Rightarrow>
               Some (Through False k,
                 record_result c ''The user could not be asked, so this did not run.'' s, w)
           | (Declined, w) \<Rightarrow> execute_until leave W cs k (record_result c DECLINED s, w)
           | (Approved, w) \<Rightarrow>
               (case run_until leave W c k (s, w) of
                  Some (Through True k, s, w) \<Rightarrow> execute_until leave W cs k (s, w)
                | stopped \<Rightarrow> stopped)))"

fun ask_loop_until :: "'w leaving \<Rightarrow> 'w world \<Rightarrow> nat \<Rightarrow> patience \<Rightarrow> session \<times> 'w \<Rightarrow>
    (ending progress \<times> session \<times> 'w) option" where
  "ask_loop_until leave W 0 k (s, w) = Some (Through Out_Of_Steps k, s, w)"
| "ask_loop_until leave W (Suc n) k (s, w) =
     (case compact_if_needed (edited_files W w) s of
        None \<Rightarrow> None
      | Some s \<Rightarrow>
          (if cancels k then Some (Cancelled, s, leave None w)
           else
             (case model_turn W (messages s) w of
                (TurnError e, w) \<Rightarrow> Some (Through (Turn_Error e) (awaited k), s, w)
              | (Turn turn raw_calls, w) \<Rightarrow>
                  (let s = say (as_message turn raw_calls) s in
                   if tool_calls turn = [] then
                     (if malformed turn \<noteq> [] then
                        ask_loop_until leave W n (awaited k) (say (malformed_message (malformed turn)) s, w)
                      else Some (Through Answered (awaited k), s, w))
                   else
                     (case execute_until leave W (tool_calls turn) (awaited k) (s, w) of
                        None \<Rightarrow> None
                      | Some (Cancelled, s, w) \<Rightarrow> Some (Cancelled, s, w)
                      | Some (Through True k, s, w) \<Rightarrow> ask_loop_until leave W n k (s, w)
                      | Some (Through False k, s, w) \<Rightarrow> Some (Through Gave_Up k, s, w)))
              | _ \<Rightarrow> None)))"

definition opening_message :: "session \<Rightarrow> string \<Rightarrow> message" where
  "opening_message s text =
     user_message (if rules_sent s then text else SYSTEM_PROMPT @ [NL, NL] @ ''---'' @ [NL, NL] @ text)"

definition ask_until :: "'w leaving \<Rightarrow> 'w world \<Rightarrow> string \<Rightarrow> patience \<Rightarrow> session \<times> 'w \<Rightarrow>
    (ending progress \<times> session \<times> 'w) option" where
  "ask_until leave W text k st =
     (let (s, w) = st
      in ask_loop_until leave W MAX_STEPS k (say (opening_message s text) (s\<lparr>rules_sent := True\<rparr>), w))"

text \<open>\<open>ask\<close>: a cancelled turn is repaired before the error goes on. \<open>Inl\<close>: how many calls it closed.\<close>

definition ask_cancellable :: "'w leaving \<Rightarrow> 'w world \<Rightarrow> string \<Rightarrow> patience \<Rightarrow> session \<times> 'w \<Rightarrow>
    ((nat + ending) \<times> session \<times> 'w) option" where
  "ask_cancellable leave W text k st =
     (case ask_until leave W text k st of
        None \<Rightarrow> None
      | Some (Through ending _, s, w) \<Rightarrow> Some (Inr ending, s, w)
      | Some (Cancelled, s, w) \<Rightarrow>
          map_option (\<lambda>(closed, s). (Inl closed, s, w)) (repair_after_cancel s))"

section \<open>Without a cancel\<close>

lemma patience_None [simp]: "\<not> cancels None" "awaited None = None"
  by (simp_all add: cancels_def awaited_def)

lemma execute_until_None:
  "execute_until leave W cs None (s, w) = map_option (\<lambda>(go_on, st). (Through go_on None, st)) (execute W cs (s, w))"
proof (induction cs arbitrary: s w)
  case (Cons c cs)
  show ?case
    by (auto simp: Cons.IH run_until_def split: option.split approval.split prod.split bool.split)
qed simp

lemma ask_loop_until_None:
  "ask_loop_until leave W n None (s, w) = map_option (\<lambda>(ending, st). (Through ending None, st)) (ask_loop W n (s, w))"
proof (induction n arbitrary: s w)
  case (Suc n)
  show ?case
    by (auto simp: Suc.IH execute_until_None Let_def split: option.split turn_result.split prod.split bool.split)
qed simp

lemma ask_uncancelled:
  "ask_cancellable leave W text None st = map_option (\<lambda>(ending, st). (Inr ending, st)) (ask W text st)"
  by (cases st) (auto simp: ask_cancellable_def ask_until_def ask_def opening_message_def ask_loop_until_None Let_def
      simp del: ask_loop.simps ask_loop_until.simps split: option.split)

section \<open>Recording what the model says\<close>

text \<open>A world that keeps a list of every reply of its model, and is otherwise the same.\<close>

definition recording :: "'w world \<Rightarrow> ('w \<times> message list) world" where
  "recording W = \<lparr>
     approval_for = (\<lambda>name arguments st. approval_for W name arguments (fst st)),
     ask_user = (\<lambda>request (w, said). (let (reply, w) = ask_user W request w in (reply, (w, said)))),
     invoke = (\<lambda>name arguments (w, said). map_option (\<lambda>(outcome, w). (outcome, (w, said))) (invoke W name arguments w)),
     model_turn = (\<lambda>ms (w, said). (let (r, w) = model_turn W ms w
       in (r, (w, said @ (case r of Turn turn raw_calls \<Rightarrow> [as_message turn raw_calls] | _ \<Rightarrow> []))))),
     edited_files = (\<lambda>st. edited_files W (fst st))\<rparr>"

definition leaving_recorded :: "'w leaving \<Rightarrow> ('w \<times> message list) leaving" where
  "leaving_recorded leave c = (\<lambda>(w, said). (leave c w, said))"

lemma recording_simps [simp]:
  "approval_for (recording W) name arguments (w, said) = approval_for W name arguments w"
  "ask_user (recording W) request (w, said) = (let (reply, w) = ask_user W request w in (reply, (w, said)))"
  "invoke (recording W) name arguments (w, said) = map_option (\<lambda>(outcome, w). (outcome, (w, said))) (invoke W name arguments w)"
  "edited_files (recording W) (w, said) = edited_files W w"
  "leaving_recorded leave c (w, said) = (leave c w, said)"
  by (simp_all add: recording_def leaving_recorded_def)

lemma recorded_turn:
  "model_turn (recording W) ms (w, said) = (let (r, w) = model_turn W ms w
     in (r, (w, said @ (case r of Turn turn raw_calls \<Rightarrow> [as_message turn raw_calls] | _ \<Rightarrow> []))))"
  by (simp add: recording_def)

lemma recorded_run:
  "run_until (leaving_recorded leave) (recording W) c k (s, w, said) =
     map_option (\<lambda>(p, s, w). (p, s, w, said)) (run_until leave W c k (s, w))"
  by (auto simp: run_until_def run_call_def Let_def split: option.split prod.split)

lemma recorded_execute:
  "execute_until (leaving_recorded leave) (recording W) cs k (s, w, said) =
     map_option (\<lambda>(p, s, w). (p, s, w, said)) (execute_until leave W cs k (s, w))"
proof (induction cs arbitrary: k s w)
  case (Cons c cs)
  have "approve (recording W) s request (w, said) = (let (reply, w) = approve W s request w in (reply, (w, said)))" for request s w
    by (simp add: approve_def Let_def split: prod.split)
  then show ?case
    by (auto simp: Cons.IH recorded_run Let_def split: option.split approval.split prod.split progress.split bool.split)
qed simp

section \<open>What a turn adds\<close>

definition said_by_model :: "message \<Rightarrow> bool" where
  "said_by_model m \<longleftrightarrow> role m = JStr ''assistant''"

definition compaction_notes :: "message set" where
  "compaction_notes = {user_message (compaction_note n files) | n files. True}"

text \<open>
  The archive grows by some messages, those of the model among them are the ones it sent, in this
  order, and what the model is shown next was shown before, has been added, or is a note of compaction.
\<close>

definition grows :: "session \<Rightarrow> message list \<Rightarrow> session \<Rightarrow> bool" where
  "grows s replies s' \<longleftrightarrow>
     (\<exists>more. history s' = history s @ more \<and> filter said_by_model more = replies \<and>
        set (messages s') \<subseteq> set (messages s) \<union> set more \<union> compaction_notes)"

lemma grows_refl: "history s' = history s \<Longrightarrow> set (messages s') \<subseteq> set (messages s) \<union> compaction_notes \<Longrightarrow> grows s [] s'"
  by (simp add: grows_def)

lemma grows_trans: "grows s xs s1 \<Longrightarrow> grows s1 ys s2 \<Longrightarrow> grows s (xs @ ys) s2"
  by (auto simp: grows_def) blast

lemma grows_say: "grows s (if said_by_model m then [m] else []) (say m s)"
  by (auto simp: grows_def)

lemma said_by_model_simps [simp]:
  "\<not> said_by_model (tool_message i t)" "\<not> said_by_model (user_message t)" "said_by_model (as_message turn raw_calls)"
  "\<not> said_by_model (opening_message s t)" "\<not> said_by_model (malformed_message ps)"
  by (simp_all add: said_by_model_def opening_message_def malformed_message_def)

lemma grows_tool: "grows s [] (record_result c t s)"
  using grows_say[of s "tool_message (call_id c) t"] by (simp add: record_result_def)

lemma grows_run: "run_until leave W c k (s, w) = Some (p, s', w') \<Longrightarrow> grows s [] s'"
  by (auto simp: run_until_def grows_def split: if_splits dest!: run_call_result)

lemma grows_execute: "execute_until leave W cs k (s, w) = Some (p, s', w') \<Longrightarrow> grows s [] s'"
proof (induction cs arbitrary: k s w)
  case (Cons c cs)
  note on = grows_trans[where xs = "[]" and ys = "[]", simplified]
  show ?case
    using Cons.prems
    by (auto split: option.splits approval.splits prod.splits progress.splits bool.splits
        intro: grows_tool grows_run on[OF grows_tool Cons.IH] on[OF grows_run Cons.IH])
qed (simp add: grows_refl)

lemma build_tail_subset: "build_tail edited all_messages ms = Some tail \<Longrightarrow> set tail \<subseteq> set ms"
  by (induction ms arbitrary: tail) (auto split: option.splits if_splits)

lemma grows_compact:
  assumes "compact_if_needed edited s = Some s'"
  shows "grows s [] s'"
proof (rule grows_refl)
  show "history s' = history s" by (rule compact_history[OF assms])
  have "m \<in> set (messages s)"
    if "build_tail edited (messages s) (drop (length (messages s) - 6) (messages s)) = Some tail"
      "m \<in> set (dropWhile P tail)" for tail m and P :: "message \<Rightarrow> bool"
    using build_tail_subset[OF that(1)] that(2) by (auto dest: set_dropWhileD in_set_dropD)
  moreover have "user_message (compaction_note n files) \<in> compaction_notes" for n files
    by (auto simp: compaction_notes_def)
  ultimately show "set (messages s') \<subseteq> set (messages s) \<union> compaction_notes"
    using assms by (auto simp: compact_if_needed_def Let_def dest: in_set_takeD
        split: option.splits if_splits)
qed

text \<open>The turn, recorded: it goes the same way, and what is recorded is what it adds.\<close>

definition said_in_loop :: "'w leaving \<Rightarrow> 'w world \<Rightarrow> nat \<Rightarrow> patience \<Rightarrow> session \<times> 'w \<Rightarrow>
    ending progress \<times> session \<times> 'w \<Rightarrow> message list \<Rightarrow> message list \<Rightarrow> bool" where
  "said_in_loop leave W n k st result said replies \<longleftrightarrow>
     ask_loop_until (leaving_recorded leave) (recording W) n k (fst st, snd st, said) =
       Some (fst result, fst (snd result), snd (snd result), said @ replies) \<and>
     grows (fst st) replies (fst (snd result))"

lemma loop_recorded:
  "ask_loop_until leave W n k (s, w) = Some (p, s', w') \<Longrightarrow>
   \<exists>replies. said_in_loop leave W n k (s, w) (p, s', w') said replies"
proof (induction n arbitrary: k s w said)
  case (Suc n)
  obtain s1 where s1: "compact_if_needed (edited_files W w) s = Some s1"
    using Suc.prems by (auto split: option.splits)
  have g1: "grows s [] s1" by (rule grows_compact[OF s1])
  show ?case
  proof (cases "cancels k")
    case True
    with Suc.prems s1 g1 show ?thesis by (auto simp: said_in_loop_def)
  next
    case open_k: False
    obtain r w1 where r: "model_turn W (messages s1) w = (r, w1)" by fastforce
    show ?thesis
    proof (cases r)
      case (Turn turn raw_calls)
      let ?reply = "as_message turn raw_calls"
      let ?s2 = "say ?reply s1"
      let ?complaint = "malformed_message (malformed turn)"
      have g2: "grows s [?reply] ?s2" using grows_trans[OF g1 grows_say[of s1 ?reply]] by simp
      have on: "\<exists>replies. said_in_loop leave W (Suc n) k (s, w) (p, s', w') said replies"
        if rest: "ask_loop_until leave W n k1 (s2, w2) = Some (p, s', w')" and grown: "grows s [?reply] s2"
          and same: "ask_loop_until (leaving_recorded leave) (recording W) (Suc n) k (s, w, said)
             = ask_loop_until (leaving_recorded leave) (recording W) n k1 (s2, w2, said @ [?reply])" for k1 s2 w2
      proof -
        obtain replies where "said_in_loop leave W n k1 (s2, w2) (p, s', w') (said @ [?reply]) replies"
          using Suc.IH[OF rest] by blast
        then have "said_in_loop leave W (Suc n) k (s, w) (p, s', w') said (?reply # replies)"
          using grows_trans[OF grown, of replies s'] by (simp only: said_in_loop_def fst_conv snd_conv same) simp
        then show ?thesis ..
      qed
      show ?thesis
      proof (cases "tool_calls turn = []")
        case True
        show ?thesis
        proof (cases "malformed turn = []")
          case True
          with \<open>tool_calls turn = []\<close> Suc.prems s1 open_k r Turn g2 show ?thesis
            by (auto simp: said_in_loop_def recorded_turn Let_def)
        next
          case False
          have "grows s [?reply] (say ?complaint ?s2)"
            using grows_trans[OF g2 grows_say[of ?s2 ?complaint]] by simp
          with False \<open>tool_calls turn = []\<close> Suc.prems s1 open_k r Turn show ?thesis
            by (intro on[of "awaited k" "say ?complaint ?s2" w1]) (simp_all add: recorded_turn Let_def)
        qed
      next
        case False
        obtain q s3 w3 where q: "execute_until leave W (tool_calls turn) (awaited k) (?s2, w1) = Some (q, s3, w3)"
          using Suc.prems s1 open_k r Turn False by (auto simp: Let_def split: option.splits)
        have g3: "grows s [?reply] s3" using grows_trans[OF g2 grows_execute[OF q]] by simp
        show ?thesis
        proof (cases "\<exists>k1. q = Through True k1")
          case True
          then obtain k1 where "q = Through True k1" ..
          with q g3 False Suc.prems s1 open_k r Turn show ?thesis
            by (intro on[of k1 s3 w3]) (simp_all add: recorded_turn recorded_execute Let_def)
        next
          case stopped: False
          with q g3 False Suc.prems s1 open_k r Turn show ?thesis
            by (intro exI[of _ "[?reply]"])
              (auto simp: said_in_loop_def recorded_turn recorded_execute Let_def split: progress.splits bool.splits)
        qed
      qed
    qed (use Suc.prems s1 open_k r g1 in \<open>auto simp: said_in_loop_def recorded_turn Let_def\<close>)
  qed
next
  case 0
  then show ?case by (intro exI[of _ "[]"]) (auto simp: said_in_loop_def grows_refl)
qed

lemma grows_interrupted: "grows s [] (fold (\<lambda>i. say (tool_message i INTERRUPTED)) ids s)"
proof (induction ids arbitrary: s)
  case (Cons i ids)
  show ?case using grows_trans[OF grows_say[of s "tool_message i INTERRUPTED"] Cons.IH] by simp
qed (simp add: grows_refl)

text \<open>
  A turn, cancelled or not: the archive grows by the opening message of the user and then by what
  \<open>grows\<close> says, and a recording of the same turn holds the replies of the model.
\<close>

lemma ask_recorded:
  assumes "ask_cancellable leave W text k (s, w) = Some (how, s', w')"
  shows "\<exists>replies more. ask_cancellable (leaving_recorded leave) (recording W) text k (s, w, []) = Some (how, s', w', replies) \<and>
    history s' = history s @ opening_message s text # more \<and> filter said_by_model more = replies \<and>
    set (messages s') \<subseteq> set (messages s) \<union> set (opening_message s text # more) \<union> compaction_notes"
proof -
  let ?s1 = "say (opening_message s text) (s\<lparr>rules_sent := True\<rparr>)"
  obtain p s2 where run: "ask_loop_until leave W MAX_STEPS k (?s1, w) = Some (p, s2, w')"
    and how: "(case p of Through ending _ \<Rightarrow> Some (Inr ending, s2, w')
        | Cancelled \<Rightarrow> map_option (\<lambda>(closed, s). (Inl closed, s, w')) (repair_after_cancel s2)) = Some (how, s', w')"
    using assms by (auto simp: ask_cancellable_def ask_until_def split: option.splits progress.splits)
  obtain replies where rec: "ask_loop_until (leaving_recorded leave) (recording W) MAX_STEPS k (?s1, w, []) = Some (p, s2, w', replies)"
    and g: "grows ?s1 replies s2"
    using loop_recorded[OF run, of "[]"] by (auto simp: said_in_loop_def)
  have "grows s2 [] s'"
    using how grows_interrupted[of s2] grows_refl[of s2 s2]
    by (auto simp: repair_after_cancel_def split: progress.splits option.splits)
  from grows_trans[OF g this] obtain more where "history s' = history ?s1 @ more" "filter said_by_model more = replies"
    "set (messages s') \<subseteq> set (messages ?s1) \<union> set more \<union> compaction_notes"
    by (auto simp: grows_def)
  moreover have "ask_cancellable (leaving_recorded leave) (recording W) text k (s, w, []) = Some (how, s', w', replies)"
    using rec how by (auto simp: ask_cancellable_def ask_until_def split: progress.splits)
  ultimately show ?thesis by auto
qed

end
