(* ===== verification/Cli.thy ===== *)
theory Cli
  imports Plugins Cache Sandbox Interrupts
begin

text \<open>
  \<open>llm_assistant_agent/cli.py\<close>: options and settings, the administration of saved sessions, the
  way from the options to a session, and the loop that reads the user's messages. Parameters:
  how \<open>argparse\<close> cuts the arguments into options, docker, git, the plugins' code, the YAML
  reader, the printing of dates and floats, and the user. What is told is a list of notices.
\<close>

section \<open>Options\<close>

record cli_args =
  opt_prompt :: "string list"
  opt_cwd :: string
  opt_profile :: "string option"
  opt_base_url :: "string option"
  opt_api_key :: "string option"
  opt_model :: "string option"
  opt_env_file :: string
  opt_context_window :: int
  opt_temperature :: string
  opt_top_p :: string
  opt_max_tokens :: int
  opt_sandbox :: bool
  opt_image :: string
  opt_network :: bool
  opt_wipe :: bool
  opt_resume :: "string option"
  opt_sessions :: bool
  opt_delete :: "string list"
  opt_delete_all :: bool
  opt_no_save :: bool
  opt_check :: "string list"
  opt_no_check :: bool
  opt_yes :: bool
  opt_allow_dirty :: bool
  opt_no_colour :: bool
  opt_cache :: bool
  opt_export :: "string option"
  opt_import :: "string option"
  opt_stats :: bool

definition switched_on :: "(string \<Rightarrow> string option) \<Rightarrow> string \<Rightarrow> bool" where
  "switched_on environ name \<longleftrightarrow>
     (case environ name of None \<Rightarrow> False | Some s \<Rightarrow> s \<noteq> [] \<and> s \<noteq> ''0'' \<and> s \<noteq> ''false'')"

definition default_args :: "(string \<Rightarrow> string option) \<Rightarrow> string list \<Rightarrow> cli_args" where
  "default_args environ words = \<lparr>
     opt_prompt = words, opt_cwd = ''.'', opt_profile = None, opt_base_url = None, opt_api_key = None,
     opt_model = None, opt_env_file = ''.env'', opt_context_window = 0, opt_temperature = ''0.1'',
     opt_top_p = ''0.8'', opt_max_tokens = 8192, opt_sandbox = switched_on environ ''ASSIST_SANDBOX'',
     opt_image = DEFAULT_IMAGE, opt_network = False, opt_wipe = False, opt_resume = None,
     opt_sessions = False, opt_delete = [], opt_delete_all = False, opt_no_save = False, opt_check = [],
     opt_no_check = False, opt_yes = False, opt_allow_dirty = False, opt_no_colour = False,
     opt_cache = switched_on environ ''ASSIST_CACHE'', opt_export = None, opt_import = None, opt_stats = False\<rparr>"

text \<open>
  One option with its values, as \<open>argparse\<close> finds it on the command line; None is a usage error.
  \<open>py_float\<close> reads a number: its text as Python prints it.
\<close>

definition apply_flag :: "string \<Rightarrow> cli_args \<Rightarrow> cli_args option" where
  "apply_flag name a =
     (if name = ''--sandbox'' then Some (a\<lparr>opt_sandbox := True\<rparr>)
      else if name = ''--no-sandbox'' then Some (a\<lparr>opt_sandbox := False\<rparr>)
      else if name = ''--sandbox-network'' then Some (a\<lparr>opt_network := True\<rparr>)
      else if name = ''--sandbox-wipe'' then Some (a\<lparr>opt_wipe := True\<rparr>)
      else if name = ''--resume'' then Some (a\<lparr>opt_resume := Some ''latest''\<rparr>)
      else if name = ''--sessions'' then Some (a\<lparr>opt_sessions := True\<rparr>)
      else if name = ''--delete-all'' then Some (a\<lparr>opt_delete_all := True\<rparr>)
      else if name = ''--no-save'' then Some (a\<lparr>opt_no_save := True\<rparr>)
      else if name = ''--no-check'' then Some (a\<lparr>opt_no_check := True\<rparr>)
      else if name = ''--yes'' then Some (a\<lparr>opt_yes := True\<rparr>)
      else if name = ''--allow-dirty'' then Some (a\<lparr>opt_allow_dirty := True\<rparr>)
      else if name = ''--no-colour'' then Some (a\<lparr>opt_no_colour := True\<rparr>)
      else if name = ''--cache'' then Some (a\<lparr>opt_cache := True\<rparr>)
      else if name = ''--no-cache'' then Some (a\<lparr>opt_cache := False\<rparr>)
      else if name = ''--stats'' then Some (a\<lparr>opt_stats := True\<rparr>)
      else None)"

definition apply_value :: "(string \<Rightarrow> string option) \<Rightarrow> string \<Rightarrow> string \<Rightarrow> cli_args \<Rightarrow> cli_args option" where
  "apply_value py_float name v a =
     (if name = ''--cwd'' then Some (a\<lparr>opt_cwd := v\<rparr>)
      else if name = ''--profile'' then Some (a\<lparr>opt_profile := Some v\<rparr>)
      else if name = ''--base-url'' then Some (a\<lparr>opt_base_url := Some v\<rparr>)
      else if name = ''--api-key'' then Some (a\<lparr>opt_api_key := Some v\<rparr>)
      else if name = ''--model'' then Some (a\<lparr>opt_model := Some v\<rparr>)
      else if name = ''--env-file'' then Some (a\<lparr>opt_env_file := v\<rparr>)
      else if name = ''--context-window'' then map_option (\<lambda>n. a\<lparr>opt_context_window := n\<rparr>) (py_int v)
      else if name = ''--temperature'' then map_option (\<lambda>x. a\<lparr>opt_temperature := x\<rparr>) (py_float v)
      else if name = ''--top-p'' then map_option (\<lambda>x. a\<lparr>opt_top_p := x\<rparr>) (py_float v)
      else if name = ''--max-tokens'' then map_option (\<lambda>n. a\<lparr>opt_max_tokens := n\<rparr>) (py_int v)
      else if name = ''--sandbox-image'' then Some (a\<lparr>opt_image := v\<rparr>)
      else if name = ''--resume'' then Some (a\<lparr>opt_resume := Some v\<rparr>)
      else if name = ''--delete'' then Some (a\<lparr>opt_delete := [v]\<rparr>)
      else if name = ''--check'' then Some (a\<lparr>opt_check := opt_check a @ [v]\<rparr>)
      else if name = ''--export-session'' then Some (a\<lparr>opt_export := Some v\<rparr>)
      else if name = ''--import-session'' then Some (a\<lparr>opt_import := Some v\<rparr>)
      else None)"

definition apply_option :: "(string \<Rightarrow> string option) \<Rightarrow> string \<times> string list \<Rightarrow> cli_args \<Rightarrow> cli_args option" where
  "apply_option py_float occurrence a =
     (case snd occurrence of
        [] \<Rightarrow> apply_flag (fst occurrence) a
      | [v] \<Rightarrow> apply_value py_float (fst occurrence) v a
      | vs \<Rightarrow> if fst occurrence = ''--delete'' then Some (a\<lparr>opt_delete := vs\<rparr>) else None)"

fun apply_options :: "(string \<Rightarrow> string option) \<Rightarrow> (string \<times> string list) list \<Rightarrow> cli_args \<Rightarrow> cli_args option" where
  "apply_options py_float [] a = Some a"
| "apply_options py_float (x # xs) a =
     (case apply_option py_float x a of None \<Rightarrow> None | Some a \<Rightarrow> apply_options py_float xs a)"

definition parse_args ::
  "(string \<Rightarrow> string option) \<Rightarrow> (string \<Rightarrow> string option) \<Rightarrow> (string \<times> string list) list \<Rightarrow> string list \<Rightarrow> cli_args option" where
  "parse_args environ py_float occurrences words =
     apply_options py_float occurrences (default_args environ words)"

section \<open>Settings\<close>

definition DEFAULT_PORT :: string where "DEFAULT_PORT = ''8081''"

definition env_entry :: "string \<Rightarrow> (string \<times> string) option" where
  "env_entry line =
     (let stripped = py_strip line in
      if stripped = [] \<or> prefix ''#'' stripped \<or> CHR ''='' \<notin> set stripped then None
      else Some (py_strip (takeWhile (\<lambda>c. c \<noteq> CHR ''='') stripped),
        py_strip_chars [CHR 0x27] (py_strip_chars [CHR 0x22]
          (py_strip (tl (dropWhile (\<lambda>c. c \<noteq> CHR ''='') stripped))))))"

text \<open>None: the file is no UTF-8.\<close>

definition read_env_file :: "fs \<Rightarrow> path \<Rightarrow> (string \<times> string) list option" where
  "read_env_file fs p =
     (case fs p of
        Some (File t utf8 m) \<Rightarrow>
          (if \<not> utf8 then None
           else Some (fold (\<lambda>(k, v). AList.update k v)
                  (List.map_filter env_entry (py_splitlines (universal_newlines t))) []))
      | _ \<Rightarrow> Some [])"

fun first_set :: "(string \<Rightarrow> string option) \<Rightarrow> (string \<times> string) list \<Rightarrow> string list \<Rightarrow> string \<Rightarrow> string" where
  "first_set environ env [] otherwise = otherwise"
| "first_set environ env (name # ks) otherwise =
     (case environ name of
        Some (c # cs) \<Rightarrow> c # cs
      | _ \<Rightarrow> (case map_of env name of
                Some (c # cs) \<Rightarrow> c # cs
              | _ \<Rightarrow> first_set environ env ks otherwise))"

definition pick ::
  "(string \<Rightarrow> string option) \<Rightarrow> (string \<times> string) list \<Rightarrow> string option \<Rightarrow> string list \<Rightarrow> string \<Rightarrow> string" where
  "pick environ env flag ks otherwise =
     (case flag of Some (c # cs) \<Rightarrow> c # cs | _ \<Rightarrow> first_set environ env ks otherwise)"

text \<open>\<open>str.isdigit\<close> also holds of superscripts, which \<open>int\<close> refuses.\<close>

definition is_digits :: "string \<Rightarrow> bool" where
  "is_digits s \<longleftrightarrow> s \<noteq> [] \<and> list_all (\<lambda>c. is_digit c \<or> code_point c \<in> {178, 179, 185}) s"

record agent_settings =
  set_base_url :: string
  set_api_key :: string
  set_model :: string
  set_window :: int

definition agent_settings_from ::
  "(string \<Rightarrow> string option) \<Rightarrow> (string \<times> string) list \<Rightarrow> cli_args \<Rightarrow> agent_settings option" where
  "agent_settings_from environ env a =
     (let port = pick environ env None [''API_PORT''] DEFAULT_PORT;
          url = pick environ env (opt_base_url a) [''ASSIST_BASE_URL''] (''http://127.0.0.1:'' @ port @ ''/v1'');
          key = py_strip (hd (py_split '','' (pick environ env (opt_api_key a) [''ASSIST_API_KEY'', ''API_KEYS''] [])));
          name = pick environ env (opt_model a) [''MODEL_ID''] [];
          declared = pick environ env None [''ASSIST_CONTEXT_WINDOW'', ''MAX_MODEL_LEN''] [];
          window = (if opt_context_window a \<noteq> 0 then Some (opt_context_window a)
                    else if is_digits declared then py_int declared else Some 0)
      in map_option (\<lambda>w. \<lparr>set_base_url = url, set_api_key = key, set_model = name, set_window = w\<rparr>) window)"

section \<open>Effects\<close>

datatype notice = Note string | Warn string | Error string | Rule | Line_End

record 'd host =
  disk :: fs
  containers :: 'd
  notices :: "notice list"

text \<open>An operation ends the program with a code, raises, or gives a value.\<close>

datatype stop = Exit int | Raises_Exception

type_synonym ('d, 'a) cli = "'d host \<Rightarrow> (stop + 'a) \<times> 'd host"

definition return_cli :: "'a \<Rightarrow> ('d, 'a) cli" where
  "return_cli x h = (Inr x, h)"

definition stop_cli :: "stop \<Rightarrow> ('d, 'a) cli" where
  "stop_cli s h = (Inl s, h)"

definition bind_cli :: "('d, 'a) cli \<Rightarrow> ('a \<Rightarrow> ('d, 'b) cli) \<Rightarrow> ('d, 'b) cli" where
  "bind_cli m f h = (case m h of (Inl s, h) \<Rightarrow> (Inl s, h) | (Inr x, h) \<Rightarrow> f x h)"

definition show_notice :: "notice \<Rightarrow> ('d, unit) cli" where
  "show_notice n h = (Inr (), h\<lparr>notices := notices h @ [n]\<rparr>)"

definition show_all :: "notice list \<Rightarrow> ('d, unit) cli" where
  "show_all ns h = (Inr (), h\<lparr>notices := notices h @ ns\<rparr>)"

text \<open>A value that may be missing because an exception was raised.\<close>

definition or_raise :: "'a option \<Rightarrow> ('d, 'a) cli" where
  "or_raise x h = (case x of None \<Rightarrow> (Inl Raises_Exception, h) | Some v \<Rightarrow> (Inr v, h))"

definition fail_with :: "string \<Rightarrow> int \<Rightarrow> ('d, 'a) cli" where
  "fail_with message code = bind_cli (show_notice (Error message)) (\<lambda>_. stop_cli (Exit code))"

section \<open>Saved sessions\<close>

record 'd cli_env =
  cli_store :: store_env
  cli_sessions :: path
  cli_cache_root :: path
  cli_now :: rat
  cli_environ :: "string \<Rightarrow> string option"
  path_of :: "string \<Rightarrow> path"
  git_at :: "fs \<Rightarrow> path \<Rightarrow> git"
  cli_profiles :: profile_env
  cli_plugins :: "'d host plugin_env"
  cli_rglob :: rglob
  cli_which :: "string \<Rightarrow> bool"
  cli_probe :: "string list \<Rightarrow> process"
  cli_docker :: "'d docker"
  cli_user :: string
  fresh_id :: string
  explain_import :: string
  local_time :: "bool \<times> rat \<Rightarrow> string"
  one_decimal :: "rat \<Rightarrow> string"
  consents :: "string \<Rightarrow> notice list \<Rightarrow> bool option"

definition pad_left :: "nat \<Rightarrow> string \<Rightarrow> string" where
  "pad_left n s = replicate (n - length s) (CHR '' '') @ s"

definition describe_session :: "'d cli_env \<Rightarrow> stored_session \<Rightarrow> string option" where
  "describe_session e stored =
     (case (session_turns stored, session_summary stored) of
        (Some turns, Some summary) \<Rightarrow>
          Some (json_str (stored_id stored) @ ''  '' @ local_time e (stored_updated stored) @ ''  ''
            @ pad_left 3 (str_nat turns) @ '' turn'' @ (if turns \<noteq> 1 then ''s'' else '' '') @ ''  '' @ summary)
      | _ \<Rightarrow> None)"

fun describe_all :: "'d cli_env \<Rightarrow> stored_session list \<Rightarrow> ('d, unit) cli" where
  "describe_all e [] = return_cli ()"
| "describe_all e (stored # rest) =
     bind_cli (or_raise (describe_session e stored)) (\<lambda>line.
       bind_cli (show_notice (Note line)) (\<lambda>_. describe_all e rest))"

definition list_sessions :: "'d cli_env \<Rightarrow> path \<Rightarrow> nat option \<Rightarrow> ('d, stored_session list) cli" where
  "list_sessions e r limit h = or_raise (listing (cli_store e) (cli_sessions e) (Some r) limit (disk h)) h"

definition show_sessions :: "'d cli_env \<Rightarrow> workspace \<Rightarrow> ('d, int) cli" where
  "show_sessions e ws =
     bind_cli (list_sessions e (root ws) (Some 20)) (\<lambda>saved.
       if saved = [] then
         bind_cli (show_notice (Note (''no saved sessions for '' @ path_str (root ws)))) (\<lambda>_. return_cli 0)
       else bind_cli (describe_all e saved) (\<lambda>_. return_cli 0))"

fun load_ids :: "'d cli_env \<Rightarrow> string list \<Rightarrow> ('d, stored_session list) cli" where
  "load_ids e [] = return_cli []"
| "load_ids e (i # is) = (\<lambda>h.
     case load (cli_store e) (cli_sessions e) i (disk h) of
       Raises \<Rightarrow> (Inl Raises_Exception, h)
     | Absent \<Rightarrow> load_ids e is h
     | Found stored \<Rightarrow> bind_cli (load_ids e is) (\<lambda>found. return_cli (stored # found)) h)"

definition count_sessions :: "nat \<Rightarrow> string" where
  "count_sessions n = str_nat n @ '' saved session'' @ (if n \<noteq> 1 then ''s'' else [])"

text \<open>The sessions to delete, and how to call them. The names not found are told in order.\<close>

definition doomed_sessions :: "'d cli_env \<Rightarrow> cli_args \<Rightarrow> workspace \<Rightarrow> ('d, stored_session list \<times> string) cli" where
  "doomed_sessions e a ws =
     (if opt_delete_all a then
        bind_cli (list_sessions e (root ws) None) (\<lambda>doomed.
          return_cli (doomed, ''every saved session for '' @ path_str (root ws)))
      else
        bind_cli (load_ids e (opt_delete a)) (\<lambda>doomed.
          bind_cli (show_all (map (\<lambda>absent. Warn (''no saved session '' @ py_repr absent))
              (sorted_list_of_set (set (opt_delete a) - (\<lambda>stored. json_str (stored_id stored)) ` set doomed))))
            (\<lambda>_. return_cli (doomed, count_sessions (length doomed)))))"

text \<open>The user answers with the screen in view; None is the error when nobody can be asked.\<close>

definition ask_consent :: "'d cli_env \<Rightarrow> cli_args \<Rightarrow> string \<Rightarrow> ('d, bool) cli" where
  "ask_consent e a question h =
     (if opt_yes a then return_cli True h else or_raise (consents e question (notices h)) h)"

definition delete_doomed :: "'d cli_env \<Rightarrow> stored_session list \<Rightarrow> ('d, string list) cli" where
  "delete_doomed e doomed h =
     (let (removed, fs) = delete_each (cli_store e) (cli_sessions e) doomed (disk h)
      in (Inr removed, h\<lparr>disk := fs\<rparr>))"

definition delete_sessions :: "'d cli_env \<Rightarrow> cli_args \<Rightarrow> workspace \<Rightarrow> ('d, int) cli" where
  "delete_sessions e a ws =
     bind_cli (doomed_sessions e a ws) (\<lambda>(doomed, what).
       if doomed = [] then
         bind_cli (show_notice (Note ''nothing to delete'')) (\<lambda>_. return_cli (if opt_delete a \<noteq> [] then 1 else 0))
       else
         bind_cli (describe_all e doomed) (\<lambda>_.
           bind_cli (ask_consent e a (''Permanently delete '' @ what @ ''?'')) (\<lambda>consent.
             if \<not> consent then bind_cli (show_notice (Note ''left alone'')) (\<lambda>_. return_cli 0)
             else
               bind_cli (delete_doomed e doomed) (\<lambda>removed.
                 bind_cli (show_notice (Note (''deleted '' @ str_nat (length removed) @ '' session''
                     @ (if length removed \<noteq> 1 then ''s'' else [])))) (\<lambda>_.
                   return_cli (if length removed = length doomed then 0 else 1))))))"

section \<open>Resuming\<close>

text \<open>\<open>stored.head[:8]\<close>: a text or a list can be cut, anything else that is true raises.\<close>

definition head_prefix :: "json \<Rightarrow> string option" where
  "head_prefix j =
     (case j of
        JStr s \<Rightarrow> Some (take 8 s)
      | JArr xs \<Rightarrow> Some (json_repr (JArr (take 8 xs)))
      | _ \<Rightarrow> None)"

definition head_warning :: "json \<Rightarrow> string option \<Rightarrow> ('d, unit) cli" where
  "head_warning before now =
     (case now of
        Some commit \<Rightarrow>
          (if truthy before \<and> before \<noteq> JStr commit then
             bind_cli (or_raise (head_prefix before)) (\<lambda>was.
               show_notice (Warn (''the repository has moved on since this session (was '' @ was @ '', now ''
                 @ take 8 commit @ ''). What it remembers about the code may be out of date.'')))
           else return_cli ())
      | None \<Rightarrow> return_cli ())"

definition resumed_from :: "'d cli_env \<Rightarrow> stored_session \<Rightarrow> workspace \<Rightarrow> ('d, (stored_session \<times> workspace) option) cli" where
  "resumed_from e stored ws =
     (\<lambda>h. bind_cli (or_raise (restore_seen (cli_store e) stored (disk h) ws)) (\<lambda>((restored, stale), ws).
       bind_cli (or_raise (session_turns stored)) (\<lambda>turns.
         bind_cli (show_notice (Note (''resumed '' @ json_str (stored_id stored) @ '' - '' @ str_nat turns @ '' turns, ''
             @ str_nat (length (stored_messages stored)) @ '' messages''))) (\<lambda>_.
           bind_cli (if stale \<noteq> 0
               then show_notice (Note (str_nat restored @ '' files still match, '' @ str_nat stale
                 @ '' changed and must be re-read''))
               else return_cli ()) (\<lambda>_.
             bind_cli (head_warning (stored_head stored) (git_head (git_at e (disk h) (root ws)))) (\<lambda>_.
               return_cli (Some (stored, ws))))))) h)"

definition resume_session ::
  "'d cli_env \<Rightarrow> string \<Rightarrow> workspace \<Rightarrow> ('d, (stored_session \<times> workspace) option) cli" where
  "resume_session e which_one ws =
     (\<lambda>h.
       if which_one = ''latest'' then
         bind_cli (or_raise (latest (cli_store e) (cli_sessions e) (root ws) (disk h))) (\<lambda>found.
           case found of
             None \<Rightarrow> bind_cli (show_notice (Warn (''no saved session for '' @ path_str (root ws) @ '' - starting a new one'')))
                 (\<lambda>_. return_cli None)
           | Some stored \<Rightarrow> resumed_from e stored ws) h
       else
         (case load (cli_store e) (cli_sessions e) which_one (disk h) of
            Raises \<Rightarrow> (Inl Raises_Exception, h)
          | Absent \<Rightarrow>
              bind_cli (show_notice (Error (''no saved session '' @ py_repr which_one @ ''. Try --sessions.'')))
                (\<lambda>_. return_cli None) h
          | Found stored \<Rightarrow>
              (if stored_workspace stored \<noteq> (True, root ws) then
                 bind_cli (show_notice (Error (''session '' @ json_str (stored_id stored) @ '' belongs to ''
                     @ posix_str (stored_workspace stored) @ '', not '' @ path_str (root ws)
                     @ ''. Run it from there, or pass --cwd.''))) (\<lambda>_. return_cli None) h
               else resumed_from e stored ws h)))"

section \<open>From the options to a session\<close>

definition configured_checks :: "'d cli_env \<Rightarrow> cli_args \<Rightarrow> checks" where
  "configured_checks e a =
     \<lparr>active_checks =
        (if opt_no_check a then []
         else if opt_check a \<noteq> [] then map (\<lambda>command. \<lparr>check_command = command, check_suffixes = []\<rparr>) (opt_check a)
         else detect_checks (cli_which e) (cli_probe e)),
      timeout_shown = ''30'', broken_checks = []\<rparr>"

text \<open>Git is the undo buffer: False stops the program.\<close>

definition check_tree :: "git \<Rightarrow> bool \<Rightarrow> ('d, bool) cli" where
  "check_tree git allow_dirty =
     (if \<not> is_git_repo git then
        bind_cli (show_notice (Warn (''Not a git repository. Edits will be applied with no way to undo them - ''
          @ ''run 'git init' first, or be ready to lose changes.''))) (\<lambda>_. return_cli True)
      else if is_dirty git \<and> \<not> allow_dirty then
        bind_cli (show_notice (Error (''The working tree has uncommitted changes, so you would not be able to ''
          @ ''tell yours from the agent's. Commit or stash first, or pass --allow-dirty.''))) (\<lambda>_. return_cli False)
      else return_cli True)"

definition on_containers :: "('d, 'a) op \<Rightarrow> ('d, string + 'a) cli" where
  "on_containers m h = (let (result, d) = m (containers h) in (Inr result, h\<lparr>containers := d\<rparr>))"

definition wipe_sandbox :: "'d cli_env \<Rightarrow> cli_args \<Rightarrow> workspace \<Rightarrow> ('d, int) cli" where
  "wipe_sandbox e a ws =
     (let sb = \<lparr>sandbox_root = root ws, sandbox_image = opt_image a, sandbox_network = False\<rparr>;
          sha = (\<lambda>t. sha256_of (cli_store e) (t, True))
      in bind_cli (on_containers (wipe sha (cli_which e) (cli_docker e) sb)) (\<lambda>result.
           case result of
             Inl message \<Rightarrow> bind_cli (show_notice (Error message)) (\<lambda>_. return_cli 1)
           | Inr removed \<Rightarrow>
               bind_cli (show_notice (Note (if removed then ''removed '' @ sandbox_name sha sb
                   else ''no sandbox for '' @ path_str (root ws)))) (\<lambda>_. return_cli 0)))"

definition get_cache :: "'d cli_env \<Rightarrow> bool \<Rightarrow> ('d, response_cache) cli" where
  "get_cache e enabled h =
     (case open_cache (cli_cache_root e) 7 100 enabled (disk h) of
        None \<Rightarrow> (Inl Raises_Exception, h)
      | Some (c, fs) \<Rightarrow> (Inr c, h\<lparr>disk := fs\<rparr>))"

definition show_stats :: "'d cli_env \<Rightarrow> workspace \<Rightarrow> ('d, int) cli" where
  "show_stats e ws =
     bind_cli (get_cache e True) (\<lambda>c h.
       let (s, c) = refresh_stats (cli_store e) (cli_rglob e) (disk h) c in
       bind_cli (show_all [Note (''Cache entries: '' @ str_nat (entry_count s)),
           Note (''Cache size: '' @ one_decimal e (of_nat (size_bytes s) / 1024) @ '' KB''),
           Note (''Hit rate: '' @ one_decimal e (hit_rate s) @ ''%'')]) (\<lambda>_.
         bind_cli (list_sessions e (root ws) None) (\<lambda>saved.
           bind_cli (show_notice (Note (''Saved sessions: '' @ str_nat (length saved)))) (\<lambda>_. return_cli 0))) h)"

text \<open>The operations that end the program, in the order they are looked for.\<close>

definition early_command :: "'d cli_env \<Rightarrow> cli_args \<Rightarrow> workspace \<Rightarrow> ('d, int) cli option" where
  "early_command e a ws =
     (if opt_wipe a then Some (wipe_sandbox e a ws)
      else if opt_sessions a then Some (show_sessions e ws)
      else if opt_delete a \<noteq> [] \<or> opt_delete_all a then Some (delete_sessions e a ws)
      else if opt_stats a then Some (show_stats e ws)
      else None)"

definition chosen_session ::
  "'d cli_env \<Rightarrow> cli_args \<Rightarrow> workspace \<Rightarrow> ('d, stored_session option \<times> workspace) cli" where
  "chosen_session e a ws =
     (case opt_resume a of
        Some (c # cs) \<Rightarrow>
          bind_cli (resume_session e (c # cs) ws) (\<lambda>found.
            case found of
              Some (stored, ws) \<Rightarrow> return_cli (Some stored, ws)
            | None \<Rightarrow> if c # cs \<noteq> ''latest'' then stop_cli (Exit 1) else return_cli (None, ws))
      | _ \<Rightarrow> return_cli (None, ws))"

definition guarded_tree :: "'d cli_env \<Rightarrow> cli_args \<Rightarrow> stored_session option \<Rightarrow> workspace \<Rightarrow> ('d, unit) cli" where
  "guarded_tree e a stored ws h =
     (if stored \<noteq> None then return_cli () h
      else bind_cli (check_tree (git_at e (disk h) (root ws)) (opt_allow_dirty a))
             (\<lambda>go_on. if go_on then return_cli () else stop_cli (Exit 1)) h)"

definition imported_session ::
  "'d cli_env \<Rightarrow> cli_args \<Rightarrow> stored_session option \<Rightarrow> workspace \<Rightarrow> ('d, stored_session option) cli" where
  "imported_session e a stored ws h =
     (case opt_import a of
        Some (c # cs) \<Rightarrow>
          (case import_session (cli_store e) (cli_now e) (fresh_id e) (explain_import e) (path_of e (c # cs)) ws (disk h) of
             Import_raises \<Rightarrow> (Inl Raises_Exception, h)
           | Import_error message \<Rightarrow> fail_with message 1 h
           | Imported found \<Rightarrow>
               bind_cli (show_notice (Note (''imported session '' @ json_str (stored_id found) @ '' from '' @ c # cs)))
                 (\<lambda>_. return_cli (Some found)) h)
      | _ \<Rightarrow> return_cli stored h)"

text \<open>The profile is looked for and named; its options are not applied.\<close>

definition named_profile :: "'d cli_env \<Rightarrow> cli_args \<Rightarrow> workspace \<Rightarrow> ('d, unit) cli" where
  "named_profile e a ws h =
     (case opt_profile a of
        Some (c # cs) \<Rightarrow>
          bind_cli (or_raise (discover_profiles (cli_profiles e) (disk h) (Some (root ws))))
            (\<lambda>_. show_notice (Note (''using profile: '' @ c # cs))) h
      | _ \<Rightarrow> return_cli () h)"

definition loaded_plugins :: "'d cli_env \<Rightarrow> workspace \<Rightarrow> ('d, unit) cli" where
  "loaded_plugins e ws h =
     (case discover_plugins (cli_plugins e) (Some (root ws)) h of
        None \<Rightarrow> (Inl Raises_Exception, h)
      | Some (plugins, h) \<Rightarrow>
          (if plugins = [] then return_cli () h
           else show_notice (Note (''loaded '' @ str_nat (length plugins) @ '' plugin(s)'')) h))"

definition configured :: "'d cli_env \<Rightarrow> cli_args \<Rightarrow> ('d, agent_settings) cli" where
  "configured e a h =
     bind_cli (or_raise (read_env_file (disk h) (realpath_of (cli_store e) (path_of e (opt_env_file a))))) (\<lambda>env.
       bind_cli (or_raise (agent_settings_from (cli_environ e) env a)) (\<lambda>settings.
         if set_model settings = [] then
           fail_with ''No model configured. Pass --model or set MODEL_ID in .env.'' 1
         else return_cli settings)) h"

text \<open>A sandbox that cannot be had is refused; there is no falling back to this machine.\<close>

definition ready_sandbox :: "'d cli_env \<Rightarrow> cli_args \<Rightarrow> workspace \<Rightarrow> ('d, sandbox \<times> string) cli" where
  "ready_sandbox e a ws h =
     (let sb = for_workspace (root ws) (opt_sandbox a) (opt_image a) (opt_network a) in
      case sb of
        Host_Sandbox \<Rightarrow> return_cli (sb, []) h
      | Docker_Sandbox container \<Rightarrow>
          bind_cli (on_containers (ensure_ready (realpath_of (cli_store e)) (\<lambda>t. sha256_of (cli_store e) (t, True))
              (cli_which e) (cli_docker e) (disk h) (cli_user e) container)) (\<lambda>result.
            case result of Inl message \<Rightarrow> fail_with message 1 | Inr ready \<Rightarrow> return_cli (sb, ready)) h)"

section \<open>Starting\<close>

record started =
  started_workspace :: workspace
  started_settings :: agent_settings
  started_checks :: checks
  started_sandbox :: sandbox
  started_messages :: "json list"
  started_id :: string
  started_stored :: "stored_session option"

text \<open>\<open>int(window * 0.75) // 1000\<close>: rounded towards zero, then down.\<close>

definition compact_at :: "int \<Rightarrow> int" where
  "compact_at window = (if window \<ge> 0 then 3 * window div 4 else - (3 * (- window) div 4)) div 1000"

fun show_checkers :: "check list \<Rightarrow> ('d, unit) cli" where
  "show_checkers [] = return_cli ()"
| "show_checkers (c # cs) =
     bind_cli (or_raise (check_program c)) (\<lambda>name.
       bind_cli (show_notice (Note (''checking edits with '' @ name))) (\<lambda>_. show_checkers cs))"

definition announce :: "cli_args \<Rightarrow> started \<Rightarrow> string \<Rightarrow> ('d, unit) cli" where
  "announce a st ready =
     (let s = started_settings st; window = set_window s in
      bind_cli (show_all ([Note (set_model s @ '' via '' @ set_base_url s),
          Note (''workspace '' @ path_str (root (started_workspace st))),
          (if window \<noteq> 0 then Note (''compacting at '' @ str_int (compact_at window) @ ''k of '' @ str_int (window div 1000) @ ''k'')
           else Warn ''no context window known - the transcript will not be compacted'')]
          @ (if ready \<noteq> [] then [Note ready] else []))) (\<lambda>_.
        bind_cli (show_checkers (active_checks (started_checks st))) (\<lambda>_.
          show_all ((if opt_no_save a then [] else [Note (''session '' @ started_id st)]) @ [Rule]))))"

definition export_started :: "'d cli_env \<Rightarrow> cli_args \<Rightarrow> stored_session option \<Rightarrow> ('d, unit) cli" where
  "export_started e a stored h =
     (case opt_export a of
        Some (c # cs) \<Rightarrow>
          (case stored of
             None \<Rightarrow> fail_with ''No session to export - start a session first'' 1 h
           | Some found \<Rightarrow>
               (let (written_out, fs) = export_session (cli_store e) (cli_now e) found (path_of e (c # cs)) (disk h) in
                if written_out then
                  bind_cli (show_notice (Note (''exported session to '' @ c # cs))) (\<lambda>_. stop_cli (Exit 0)) (h\<lparr>disk := fs\<rparr>)
                else fail_with (''Failed to export session to '' @ c # cs) 1 (h\<lparr>disk := fs\<rparr>)))
      | _ \<Rightarrow> return_cli () h)"

text \<open>An imported id that is no text is used as its text.\<close>

definition started_with ::
  "'d cli_env \<Rightarrow> cli_args \<Rightarrow> workspace \<Rightarrow> stored_session option \<Rightarrow> agent_settings \<Rightarrow> sandbox \<Rightarrow> started" where
  "started_with e a ws stored settings sb =
     \<lparr>started_workspace = ws, started_settings = settings, started_checks = configured_checks e a,
      started_sandbox = sb,
      started_messages = (case stored of None \<Rightarrow> [] | Some found \<Rightarrow> stored_messages found),
      started_id = (case stored of None \<Rightarrow> fresh_id e | Some found \<Rightarrow> json_str (stored_id found)),
      started_stored = stored\<rparr>"

definition open_response_cache :: "'d cli_env \<Rightarrow> cli_args \<Rightarrow> ('d, unit) cli" where
  "open_response_cache e a =
     bind_cli (get_cache e (opt_cache a)) (\<lambda>c h.
       (if opt_cache a
        then show_notice (Note (''response cache enabled (''
          @ str_nat (entry_count (fst (refresh_stats (cli_store e) (cli_rglob e) (disk h) c))) @ '' entries)''))
        else return_cli ()) h)"

definition begin_session :: "'d cli_env \<Rightarrow> cli_args \<Rightarrow> started \<Rightarrow> string \<Rightarrow> ('d, started) cli" where
  "begin_session e a st ready =
     bind_cli (open_response_cache e a) (\<lambda>_.
       bind_cli (announce a st ready) (\<lambda>_.
         bind_cli (export_started e a (started_stored st)) (\<lambda>_. return_cli st)))"

definition start_session :: "'d cli_env \<Rightarrow> cli_args \<Rightarrow> workspace \<Rightarrow> ('d, started) cli" where
  "start_session e a ws =
     bind_cli (chosen_session e a ws) (\<lambda>(stored, ws).
       bind_cli (guarded_tree e a stored ws) (\<lambda>_.
         bind_cli (imported_session e a stored ws) (\<lambda>stored.
           bind_cli (named_profile e a ws) (\<lambda>_.
             bind_cli (loaded_plugins e ws) (\<lambda>_.
               bind_cli (configured e a) (\<lambda>settings.
                 bind_cli (ready_sandbox e a ws) (\<lambda>(sb, ready).
                   begin_session e a (started_with e a ws stored settings sb) ready)))))))"

definition open_tree :: "'d cli_env \<Rightarrow> cli_args \<Rightarrow> ('d, workspace) cli" where
  "open_tree e a h =
     (case open_workspace (realpath_of (cli_store e)) (git_at e (disk h) (realpath_of (cli_store e) (path_of e (opt_cwd a))))
             (disk h) (path_of e (opt_cwd a)) of
        Inl (WorkspaceError message) \<Rightarrow> fail_with message 1 h
      | Inl OSError \<Rightarrow> (Inl Raises_Exception, h)
      | Inr ws \<Rightarrow> (Inr ws, h))"

text \<open>\<open>_run\<close>, up to the point where the model is talked to.\<close>

definition run_until_session :: "'d cli_env \<Rightarrow> cli_args \<Rightarrow> ('d, started) cli" where
  "run_until_session e a =
     bind_cli (open_tree e a) (\<lambda>ws.
       case early_command e a ws of
         Some command \<Rightarrow> bind_cli command (\<lambda>code. stop_cli (Exit code))
       | None \<Rightarrow> start_session e a ws)"

section \<open>Turns\<close>

definition DOUBLE_INTERRUPT_SECONDS :: rat where "DOUBLE_INTERRUPT_SECONDS = 2"

text \<open>The interrupts of a turn, at these times: whether two came close enough to leave.\<close>

fun leaving_after :: "rat \<Rightarrow> bool \<Rightarrow> rat list \<Rightarrow> bool" where
  "leaving_after previous leaving [] = leaving"
| "leaving_after previous leaving (now # rest) =
     leaving_after now (leaving \<or> now - previous < DOUBLE_INTERRUPT_SECONDS) rest"

text \<open>
  The world of the session (\<open>Session.world\<close>) with what the loop needs of it. \<open>interrupted\<close> says
  whether Ctrl-C is pressed during a turn: when, and in which await of the turn the first one lands;
  \<open>left_by_cut\<close> how the world is left by what was being awaited.
\<close>

record 'w loop_env =
  loop_world :: "'w world"
  interrupted :: "string \<Rightarrow> session \<times> 'w \<Rightarrow> (rat list \<times> nat) option"
  left_by_cut :: "'w leaving"
  files_of :: "'w \<Rightarrow> fs"
  put_files :: "fs \<Rightarrow> 'w \<Rightarrow> 'w"
  workspace_in :: "'w \<Rightarrow> workspace"
  git_in :: "'w \<Rightarrow> git"
  clock_in :: "'w \<Rightarrow> rat"
  explain_os :: string

definition interrupt_times :: "'w loop_env \<Rightarrow> string \<Rightarrow> session \<times> 'w \<Rightarrow> rat list" where
  "interrupt_times L message st = (case interrupted L message st of None \<Rightarrow> [] | Some (pressed, n) \<Rightarrow> pressed)"

definition cut_at :: "'w loop_env \<Rightarrow> string \<Rightarrow> session \<times> 'w \<Rightarrow> patience" where
  "cut_at L message st = map_option snd (interrupted L message st)"

text \<open>
  \<open>_ask\<close>: whether to stay, the state, and what is told. None: an exception. A cancel that comes
  when the turn has ended changes nothing.
\<close>

definition ask_turn :: "'w loop_env \<Rightarrow> string \<Rightarrow> session \<times> 'w \<Rightarrow> (bool \<times> (session \<times> 'w) \<times> notice list) option" where
  "ask_turn L message st =
     (case ask_cancellable (left_by_cut L) (loop_world L) message (cut_at L message st) st of
        None \<Rightarrow> None
      | Some (Inr ending, st1) \<Rightarrow> Some (True, st1, [])
      | Some (Inl answered, st1) \<Rightarrow>
          (let leaving = leaving_after 0 False (interrupt_times L message st)
           in Some (\<not> leaving, st1,
                (if answered > 0 then [Note (''closed '' @ str_nat answered @ '' unfinished tool call''
                   @ (if answered \<noteq> 1 then ''s'' else []))] else [])
                @ [Line_End, Warn (if leaving then ''interrupted twice - leaving''
                     else ''interrupted - the conversation is kept, carry on or /exit'')])))"

definition keep_session ::
  "'w loop_env \<Rightarrow> store_env \<Rightarrow> path \<Rightarrow> bool \<Rightarrow> string \<Rightarrow> string \<Rightarrow> session \<times> 'w \<Rightarrow> (session \<times> 'w) \<times> notice list" where
  "keep_session L e sessions no_save session_id model st =
     (let (s, w) = st in
      if no_save then (st, [])
      else
        (case save e (clock_in L w) sessions session_id (git_in L w) (workspace_in L w) model
                (map JObj (history s)) (files_of L w) of
           (Inr p, fs) \<Rightarrow> ((s, put_files L fs w), [])
         | (Inl err, fs) \<Rightarrow> ((s, put_files L fs w), [Warn (''could not save the session: '' @ explain_os L)])))"

section \<open>The loop\<close>

datatype input = Typed string | End_Of_Input

text \<open>Where the loop stands: waiting for input, ended with a code, or stopped by an exception.\<close>

datatype loop_end = Waiting | Ended int | Crashed

fun repl ::
  "'w loop_env \<Rightarrow> (session \<times> 'w \<Rightarrow> (session \<times> 'w) \<times> notice list) \<Rightarrow> input list \<Rightarrow> session \<times> 'w \<Rightarrow>
     loop_end \<times> (session \<times> 'w) \<times> notice list" where
  "repl L keep [] st = (Waiting, st, [])"
| "repl L keep (End_Of_Input # rest) st = (Ended 0, st, [Line_End])"
| "repl L keep (Typed line # rest) st =
     (let message = py_strip line in
      if message = [] then repl L keep rest st
      else if message \<in> {''/exit'', ''/quit''} then (Ended 0, st, [])
      else
        (case ask_turn L message st of
           None \<Rightarrow> (Crashed, st, [])
         | Some (staying, st, told) \<Rightarrow>
             (let (st, kept) = keep st in
              if \<not> staying then (Ended 130, st, told @ kept)
              else
                (let (stop, st, more) = repl L keep rest st in (stop, st, told @ kept @ [Rule] @ more)))))"

definition one_shot ::
  "'w loop_env \<Rightarrow> (session \<times> 'w \<Rightarrow> (session \<times> 'w) \<times> notice list) \<Rightarrow> string list \<Rightarrow> session \<times> 'w \<Rightarrow>
     loop_end \<times> (session \<times> 'w) \<times> notice list" where
  "one_shot L keep words st =
     (case ask_turn L (py_join '' '' words) st of
        None \<Rightarrow> (Crashed, st, [])
      | Some (staying, st, told) \<Rightarrow> (let (st, kept) = keep st in (Ended 0, st, told @ kept)))"

text \<open>The rest of \<open>_run\<close>: None when a message of the transcript is no object.\<close>

fun objects_of :: "json list \<Rightarrow> message list option" where
  "objects_of [] = Some []"
| "objects_of (JObj d # ms) = map_option ((#) d) (objects_of ms)"
| "objects_of (_ # ms) = None"

definition talk ::
  "'w loop_env \<Rightarrow> 'd cli_env \<Rightarrow> cli_args \<Rightarrow> started \<Rightarrow> input list \<Rightarrow> 'w \<Rightarrow>
     (loop_end \<times> (session \<times> 'w) \<times> notice list) option" where
  "talk L e a st inputs w =
     map_option (\<lambda>ms.
         let s = open_session ms (set_window (started_settings st)) (opt_yes a);
             keep = keep_session L (cli_store e) (cli_sessions e) (opt_no_save a) (started_id st) (set_model (started_settings st))
         in if opt_prompt a \<noteq> [] then one_shot L keep (opt_prompt a) (s, w) else repl L keep inputs (s, w))
       (objects_of (started_messages st))"

section \<open>Operations that leave the files alone\<close>

named_theorems keeps

definition keeps_disk :: "('d, 'a) cli \<Rightarrow> bool" where
  "keeps_disk m \<longleftrightarrow> (\<forall>h. disk (snd (m h)) = disk h)"

lemma keeps_basic [keeps]:
  "keeps_disk (return_cli x)" "keeps_disk (stop_cli s)" "keeps_disk (show_notice n)" "keeps_disk (show_all ns)"
  "keeps_disk (or_raise v)"
  by (auto simp: keeps_disk_def return_cli_def stop_cli_def show_notice_def show_all_def or_raise_def split: option.split)

lemma keeps_bind [keeps]:
  "keeps_disk m \<Longrightarrow> (\<And>x. keeps_disk (f x)) \<Longrightarrow> keeps_disk (bind_cli m f)"
  unfolding keeps_disk_def bind_cli_def by (auto split: prod.split sum.split) (metis snd_conv)+

lemma keeps_if [keeps]: "(c \<Longrightarrow> keeps_disk m) \<Longrightarrow> (\<not> c \<Longrightarrow> keeps_disk n) \<Longrightarrow> keeps_disk (if c then m else n)"
  by simp

lemma keeps_fail [keeps]: "keeps_disk (fail_with message code)"
  unfolding fail_with_def by (intro keeps)

lemma keeps_at: "(\<And>h. keeps_disk (m h)) \<Longrightarrow> keeps_disk (\<lambda>h. m h h)"
  by (simp add: keeps_disk_def)

lemma keepsD: "keeps_disk m \<Longrightarrow> m h = (r, h') \<Longrightarrow> disk h' = disk h"
  by (metis keeps_disk_def snd_conv)

lemma bind_cli_Inr:
  assumes "bind_cli m f h = (Inr y, h')"
  obtains x h1 where "m h = (Inr x, h1)" and "f x h1 = (Inr y, h')"
  using assms by (auto simp: bind_cli_def split: prod.splits sum.splits)

lemma keeps_describe [keeps]: "keeps_disk (describe_all e ss)"
  by (induction e ss rule: describe_all.induct) (auto intro!: keeps)

lemma keeps_list [keeps]: "keeps_disk (list_sessions e r limit)"
  by (simp add: keeps_disk_def list_sessions_def or_raise_def split: option.split)

lemma keeps_load [keeps]: "keeps_disk (load_ids e is)"
proof (induction "is")
  case (Cons i "is")
  then have "keeps_disk (bind_cli (load_ids e is) (\<lambda>found. return_cli (stored # found)))" for stored
    by (intro keeps)
  with Cons show ?case by (auto simp: keeps_disk_def split: read_result.split)
qed (simp add: keeps)

lemma keeps_doomed [keeps]: "keeps_disk (doomed_sessions e a ws)"
  unfolding doomed_sessions_def by (intro keeps)

lemma keeps_consent [keeps]: "keeps_disk (ask_consent e a q)"
  by (simp add: keeps_disk_def ask_consent_def return_cli_def or_raise_def split: option.split)

lemma keeps_warning [keeps]: "keeps_disk (head_warning before now)"
  unfolding head_warning_def by (cases now) (auto intro!: keeps)

lemma keeps_resumed [keeps]: "keeps_disk (resumed_from e stored ws)"
  unfolding resumed_from_def by (rule keeps_at) (auto intro!: keeps split: prod.split)

lemma keeps_option [keeps]:
  "keeps_disk m \<Longrightarrow> (\<And>x. keeps_disk (f x)) \<Longrightarrow> keeps_disk (case v of None \<Rightarrow> m | Some x \<Rightarrow> f x)"
  by (cases v) simp_all

lemma keeps_refused: "keeps_disk (bind_cli (show_notice n) (\<lambda>_. return_cli x))"
  by (intro keeps)

lemma keeps_resume [keeps]: "keeps_disk (resume_session e i ws)"
proof (cases "i = ''latest''")
  case True
  then show ?thesis unfolding resume_session_def
    by (simp only: simp_thms if_True) (rule keeps_at, intro keeps)
next
  case False
  then show ?thesis
    by (simp add: keeps_disk_def resume_session_def keeps_resumed[unfolded keeps_disk_def]
        keeps_refused[unfolded keeps_disk_def] split: read_result.split)
qed

section \<open>What has been checked when a session starts\<close>

lemma keeps_chosen [keeps]: "keeps_disk (chosen_session e a ws)"
  unfolding chosen_session_def
  by (cases "opt_resume a"; simp split: list.split; intro conjI impI allI keeps) (auto intro!: keeps)

text \<open>The session that \<open>--resume\<close> names: saved, of this workspace, and found.\<close>

definition session_to_resume :: "'d cli_env \<Rightarrow> cli_args \<Rightarrow> path \<Rightarrow> fs \<Rightarrow> stored_session option" where
  "session_to_resume e a r fs =
     (case opt_resume a of
        Some (c # cs) \<Rightarrow>
          (if c # cs = ''latest''
           then (case latest (cli_store e) (cli_sessions e) r fs of Some found \<Rightarrow> found | None \<Rightarrow> None)
           else (case load (cli_store e) (cli_sessions e) (c # cs) fs of
                   Found stored \<Rightarrow> if stored_workspace stored = (True, r) then Some stored else None
                 | _ \<Rightarrow> None))
      | _ \<Rightarrow> None)"

lemma resumed_from_stored: "resumed_from e stored ws h = (Inr found, h') \<Longrightarrow> \<exists>ws'. found = Some (stored, ws')"
  unfolding resumed_from_def by (auto simp: return_cli_def elim!: bind_cli_Inr)

lemma show_notice_disk: "show_notice n h = (r, h') \<Longrightarrow> disk h' = disk h"
  by (auto simp: show_notice_def)

lemma resume_session_found:
  assumes "resume_session e i ws h = (Inr found, h')"
  shows "map_option fst found =
     (if i = ''latest''
      then (case latest (cli_store e) (cli_sessions e) (root ws) (disk h) of Some found \<Rightarrow> found | None \<Rightarrow> None)
      else (case load (cli_store e) (cli_sessions e) i (disk h) of
              Found stored \<Rightarrow> if stored_workspace stored = (True, root ws) then Some stored else None
            | _ \<Rightarrow> None))"
  using assms
  by (auto simp: resume_session_def return_cli_def or_raise_def elim!: bind_cli_Inr dest!: resumed_from_stored
      split: if_splits option.splits read_result.splits)

lemma chosen_session_resumes:
  assumes "chosen_session e a ws h = (Inr (stored, ws'), h')"
  shows "stored = session_to_resume e a (root ws) (disk h)"
proof (cases "\<exists>c cs. opt_resume a = Some (c # cs)")
  case True
  then obtain c cs where i: "opt_resume a = Some (c # cs)" by blast
  obtain found h1 where found: "resume_session e (c # cs) ws h = (Inr found, h1)"
    and rest: "(case found of Some (stored, ws) \<Rightarrow> return_cli (Some stored, ws)
        | None \<Rightarrow> if c # cs \<noteq> ''latest'' then stop_cli (Exit 1) else return_cli (None, ws)) h1 = (Inr (stored, ws'), h')"
    using assms unfolding chosen_session_def i option.case list.case by (elim bind_cli_Inr) blast
  have "stored = map_option fst found"
    using rest by (auto simp: return_cli_def stop_cli_def split: option.splits if_splits)
  with resume_session_found[OF found] i show ?thesis by (simp add: session_to_resume_def)
next
  case False
  with assms show ?thesis
    by (auto simp: chosen_session_def session_to_resume_def return_cli_def split: option.splits list.splits)
qed

lemma not_imported:
  "imported_session e a stored ws h = (Inr found, h') \<Longrightarrow> opt_import a \<in> {None, Some []} \<Longrightarrow> found = stored"
  by (auto simp: imported_session_def return_cli_def)

lemma guarded_treeD:
  assumes "guarded_tree e a None ws h = (Inr (), h')"
  shows "is_git_repo (git_at e (disk h) (root ws)) \<Longrightarrow> is_dirty (git_at e (disk h) (root ws)) \<Longrightarrow> opt_allow_dirty a"
  using assms by (auto simp: guarded_tree_def check_tree_def bind_cli_def show_notice_def return_cli_def stop_cli_def
      split: if_splits)

lemma ready_sandboxD:
  assumes "ready_sandbox e a ws h = (Inr (sb, ready), h')"
  shows "if opt_sandbox a then
      (\<exists>container. sb = Docker_Sandbox container \<and> sandbox_root container = root ws \<and>
         sandbox_network container = opt_network a \<and> sandbox_image container = opt_image a \<and>
         ensure_ready (realpath_of (cli_store e)) (\<lambda>t. sha256_of (cli_store e) (t, True)) (cli_which e) (cli_docker e)
           (disk h) (cli_user e) container (containers h) = (Inr ready, containers h'))
    else sb = Host_Sandbox"
  using assms
  by (auto simp: ready_sandbox_def for_workspace_def bind_cli_def on_containers_def return_cli_def fail_with_def
      show_notice_def stop_cli_def Let_def split: if_splits prod.splits sum.splits)

lemma resumed_root:
  "restore_from e fs entries m n ws = Some (counts, ws') \<Longrightarrow> root ws' = root ws"
  by (induction e fs entries m n ws rule: restore_from.induct)
    (auto split: sum.splits if_splits)

text \<open>A condition on the values an operation gives.\<close>

definition gives :: "('d, 'a) cli \<Rightarrow> ('a \<Rightarrow> bool) \<Rightarrow> bool" where
  "gives m P \<longleftrightarrow> (\<forall>h x h'. m h = (Inr x, h') \<longrightarrow> P x)"

lemma givesD: "gives m P \<Longrightarrow> m h = (Inr x, h') \<Longrightarrow> P x"
  by (auto simp: gives_def)

lemma gives_bind:
  assumes "gives m P" and "\<And>x. P x \<Longrightarrow> gives (f x) Q"
  shows "gives (bind_cli m f) Q"
  using assms unfolding gives_def by (metis bind_cli_Inr)

lemma gives_then: "(\<And>x. gives (f x) Q) \<Longrightarrow> gives (bind_cli m f) Q"
  by (rule gives_bind[where P = "\<lambda>_. True"]) (simp_all add: gives_def)

lemma gives_return: "P x \<Longrightarrow> gives (return_cli x) P"
  by (simp add: gives_def return_cli_def)

lemma gives_stop: "gives (stop_cli s) P"
  by (simp add: gives_def stop_cli_def)

lemma gives_or_raise: "(\<And>x. v = Some x \<Longrightarrow> P x) \<Longrightarrow> gives (or_raise v) P"
  by (auto simp: gives_def or_raise_def split: option.splits)

lemma gives_at: "(\<And>h. gives (m h) P) \<Longrightarrow> gives (\<lambda>h. m h h) P"
  by (auto simp: gives_def)

definition resumes_in :: "workspace \<Rightarrow> (stored_session \<times> workspace) option \<Rightarrow> bool" where
  "resumes_in ws found \<longleftrightarrow> (case found of None \<Rightarrow> True | Some (stored, ws') \<Rightarrow> root ws' = root ws \<and> stored_workspace stored = (True, root ws))"

lemma resumed_from_root:
  assumes "stored_workspace stored = (True, root ws)"
  shows "gives (resumed_from e stored ws) (resumes_in ws)"
  unfolding resumed_from_def
proof (rule gives_at, rule gives_bind, rule gives_or_raise)
  fix x h assume "restore_seen (cli_store e) stored (disk h) ws = Some x"
  then show "root (snd x) = root ws"
    by (cases x) (auto simp: restore_seen_def dest: resumed_root)
qed (auto simp: resumes_in_def assms intro!: gives_then gives_return)

lemma latest_workspace:
  assumes "latest e r w fs = Some (Some stored)"
  shows "stored_workspace stored = (True, w)"
proof -
  obtain found where found: "listing e r (Some w) (Some 1) fs = Some found" "found \<noteq> []" "stored = hd found"
    using assms by (auto simp: latest_def split: if_splits)
  from found(1) have "\<forall>x \<in> set found. stored_workspace x = (True, w)"
    by (auto simp: listing_def Let_def sort_reverse_def split: option.splits if_splits dest: in_set_takeD)
  with found(2,3) show ?thesis by simp
qed

lemma refused_resumes: "gives (bind_cli (show_notice n) (\<lambda>_. return_cli None)) (resumes_in ws)"
  by (intro gives_then gives_return) (simp add: resumes_in_def)

lemma resume_session_root: "gives (resume_session e i ws) (resumes_in ws)"
proof (cases "i = ''latest''")
  case True
  have "gives (case found of
      None \<Rightarrow> bind_cli (show_notice n) (\<lambda>_. return_cli None)
    | Some stored \<Rightarrow> resumed_from e stored ws) (resumes_in ws)"
    if "latest (cli_store e) (cli_sessions e) (root ws) fs = Some found" for found n fs
    using that latest_workspace[of "cli_store e" "cli_sessions e" "root ws" fs]
    by (cases found) (simp_all add: refused_resumes resumed_from_root)
  note step = this
  from True show ?thesis unfolding resume_session_def
    by (simp only: simp_thms if_True) (rule gives_at, rule gives_bind, rule gives_or_raise, assumption, erule step)
next
  case False
  then show ?thesis
    by (auto simp: gives_def resume_session_def dest: givesD[OF resumed_from_root] givesD[OF refused_resumes]
        split: read_result.splits if_splits)
qed

definition belongs_to :: "workspace \<Rightarrow> stored_session option \<times> workspace \<Rightarrow> bool" where
  "belongs_to ws chosen \<longleftrightarrow> root (snd chosen) = root ws \<and>
     (case fst chosen of None \<Rightarrow> True | Some stored \<Rightarrow> stored_workspace stored = (True, root ws))"

lemma chosen_session_root: "gives (chosen_session e a ws) (belongs_to ws)"
proof (cases "\<exists>c cs. opt_resume a = Some (c # cs)")
  case True
  then obtain c cs where i: "opt_resume a = Some (c # cs)" by blast
  have "gives (case found of Some (stored, ws) \<Rightarrow> return_cli (Some stored, ws)
        | None \<Rightarrow> if c # cs \<noteq> ''latest'' then stop_cli (Exit 1) else return_cli (None, ws))
      (belongs_to ws)" if "resumes_in ws found" for found
    using that by (auto simp: resumes_in_def belongs_to_def intro!: gives_return gives_stop split: option.splits)
  then show ?thesis unfolding chosen_session_def i option.case list.case
    by (rule gives_bind[OF resume_session_root])
next
  case False
  then show ?thesis
    by (auto simp: chosen_session_def belongs_to_def intro!: gives_return split: option.split list.split)
qed

lemma imported_session_root:
  assumes "belongs_to ws (stored, ws')"
  shows "gives (imported_session e a stored ws') (\<lambda>stored. belongs_to ws (stored, ws'))"
proof -
  have "stored_workspace found = (True, root ws')"
    if "import_session (cli_store e) (cli_now e) (fresh_id e) (explain_import e) p ws' fs = Imported found" for found p fs
    using that by (auto simp: import_session_def Let_def split: option.splits node.splits sum.splits json.splits if_splits)
  with assms show ?thesis
    by (auto simp: gives_def imported_session_def belongs_to_def bind_cli_def show_notice_def return_cli_def fail_with_def
        stop_cli_def split: option.splits list.splits import_result.splits)
qed

lemma open_tree_disk: "open_tree e a h = (Inr ws, h') \<Longrightarrow> h' = h"
  by (auto simp: open_tree_def fail_with_def bind_cli_def show_notice_def stop_cli_def
      split: sum.splits workspace_error.splits)

definition sandbox_as_asked :: "'d cli_env \<Rightarrow> cli_args \<Rightarrow> path \<Rightarrow> sandbox \<Rightarrow> bool" where
  "sandbox_as_asked e a r sb \<longleftrightarrow>
     (if opt_sandbox a then
        (\<exists>container fs ready d d'. sb = Docker_Sandbox container \<and> sandbox_root container = r \<and>
           sandbox_network container = opt_network a \<and> sandbox_image container = opt_image a \<and>
           ensure_ready (realpath_of (cli_store e)) (\<lambda>t. sha256_of (cli_store e) (t, True)) (cli_which e) (cli_docker e)
             fs (cli_user e) container d = (Inr ready, d'))
      else sb = Host_Sandbox)"

definition undo_buffer_clean :: "'d cli_env \<Rightarrow> cli_args \<Rightarrow> path \<Rightarrow> fs \<Rightarrow> bool" where
  "undo_buffer_clean e a r fs \<longleftrightarrow>
     is_git_repo (git_at e fs r) \<longrightarrow> \<not> is_dirty (git_at e fs r) \<or> opt_allow_dirty a"

lemma begin_session_gives: "gives (begin_session e a st ready) (\<lambda>s. s = st)"
  unfolding begin_session_def by (intro gives_then gives_return refl)

lemma configured_gives: "gives (configured e a) (\<lambda>settings. set_model settings \<noteq> [])"
  unfolding configured_def
  by (rule gives_at, rule gives_then, rule gives_then) (auto simp: fail_with_def intro!: gives_then gives_return gives_stop)

lemma start_session_guarded:
  assumes "start_session e a ws h = (Inr st, h')"
  shows "root (started_workspace st) = root ws \<and> belongs_to ws (started_stored st, started_workspace st) \<and>
    (session_to_resume e a (root ws) (disk h) = None \<longrightarrow> undo_buffer_clean e a (root ws) (disk h)) \<and>
    (opt_import a \<in> {None, Some []} \<longrightarrow> started_stored st = session_to_resume e a (root ws) (disk h)) \<and>
    set_model (started_settings st) \<noteq> [] \<and> sandbox_as_asked e a (root ws) (started_sandbox st)"
proof -
  obtain stored0 ws1 h1 h2 stored h3 h4 h5 settings h6 sb ready h7 where
    chosen: "chosen_session e a ws h = (Inr (stored0, ws1), h1)"
    and tree: "guarded_tree e a stored0 ws1 h1 = (Inr (), h2)"
    and imported: "imported_session e a stored0 ws1 h2 = (Inr stored, h3)"
    and settings: "configured e a h5 = (Inr settings, h6)"
    and sandbox: "ready_sandbox e a ws1 h6 = (Inr (sb, ready), h7)"
    and begun: "begin_session e a (started_with e a ws1 stored settings sb) ready h7 = (Inr st, h')"
    using assms unfolding start_session_def by (auto elim!: bind_cli_Inr)
  have st: "st = started_with e a ws1 stored settings sb"
    by (rule givesD[OF begin_session_gives begun])
  have belongs: "belongs_to ws (stored0, ws1)" by (rule givesD[OF chosen_session_root chosen])
  then have "belongs_to ws (stored, ws1)" by (rule givesD[OF imported_session_root imported])
  moreover have "root ws1 = root ws" using belongs by (simp add: belongs_to_def)
  moreover have resumed: "stored0 = session_to_resume e a (root ws) (disk h)"
    by (rule chosen_session_resumes[OF chosen])
  moreover have "undo_buffer_clean e a (root ws) (disk h)" if "stored0 = None"
  proof -
    have "disk h1 = disk h" by (rule keepsD[OF keeps_chosen chosen])
    with guarded_treeD[OF tree[unfolded that]] \<open>root ws1 = root ws\<close> show ?thesis
      by (auto simp: undo_buffer_clean_def)
  qed
  moreover have "stored = stored0" if "opt_import a \<in> {None, Some []}"
    by (rule not_imported[OF imported that])
  moreover have "set_model settings \<noteq> []"
    by (rule givesD[OF configured_gives settings])
  moreover have "sandbox_as_asked e a (root ws1) sb"
    using ready_sandboxD[OF sandbox] unfolding sandbox_as_asked_def
    by (cases "opt_sandbox a") (simp_all only: if_True if_False, blast)
  ultimately show ?thesis by (simp add: st started_with_def)
qed

text \<open>
  C27. What holds when a session starts. Unless a saved session of this workspace is resumed, one
  that \<open>--resume\<close> names and that is there, the directory is no git repository (then there is
  nothing to undo with, and a warning says so), or its tree is clean, or the user allowed a dirty
  one. The session that starts is the resumed one, or a new one when nothing is resumed, unless
  one is imported; it belongs to this workspace. There is a model. And commands run in a container
  of this workspace that is ready, exactly when the sandbox was asked for: there is no falling back
  to the machine.
\<close>

theorem session_starts_guarded:
  assumes "run_until_session e a h = (Inr st, h')"
  shows "let r = root (started_workspace st); resumed = session_to_resume e a r (disk h) in
    (resumed = None \<longrightarrow> undo_buffer_clean e a r (disk h)) \<and>
    (opt_import a \<in> {None, Some []} \<longrightarrow> started_stored st = resumed) \<and>
    (case started_stored st of None \<Rightarrow> True | Some stored \<Rightarrow> stored_workspace stored = (True, r)) \<and>
    set_model (started_settings st) \<noteq> [] \<and> sandbox_as_asked e a r (started_sandbox st)"
proof -
  obtain ws h1 where ws: "open_tree e a h = (Inr ws, h1)"
    and start: "(case early_command e a ws of
         Some command \<Rightarrow> bind_cli command (\<lambda>code. stop_cli (Exit code))
       | None \<Rightarrow> start_session e a ws) h1 = (Inr st, h')"
    using assms unfolding run_until_session_def by (rule bind_cli_Inr)
  have "early_command e a ws = None"
    using start by (auto simp: stop_cli_def elim!: bind_cli_Inr split: option.splits)
  with start open_tree_disk[OF ws] have "start_session e a ws h = (Inr st, h')" by simp
  from start_session_guarded[OF this] show ?thesis by (auto simp: belongs_to_def Let_def)
qed

section \<open>Deleting asks first\<close>

lemma delete_session_at:
  "snd (delete_session e r i fs) p = fs p \<or>
   snd (delete_session e r i fs) p = None \<and> p = realpath_of e r @ [i @ ''.json'']"
  by (auto simp: delete_session_def entry_path_def safe_session_path(1) Let_def split: option.split node.split)

lemma delete_each_at:
  "snd (delete_each e r ss fs) p = fs p \<or>
   snd (delete_each e r ss fs) p = None \<and>
     (\<exists>stored \<in> set ss. p = realpath_of e r @ [json_str (stored_id stored) @ ''.json''])"
proof (induction e r ss fs rule: delete_each.induct)
  case (2 e r stored rest fs)
  obtain b fs1 where fs1: "delete_session e r (json_str (stored_id stored)) fs = (b, fs1)" by fastforce
  with 2[OF fs1[symmetric] refl] delete_session_at[of e r "json_str (stored_id stored)" fs p]
  show ?case by (auto simp: Let_def split: prod.splits)
qed simp

lemma shows_append: "show_notice n h = (Inr (), h') \<Longrightarrow> notices h' = notices h @ [n]"
  by (auto simp: show_notice_def)

definition described_in :: "'d cli_env \<Rightarrow> stored_session list \<Rightarrow> notice list \<Rightarrow> bool" where
  "described_in e ss ns \<longleftrightarrow> (\<forall>stored \<in> set ss. \<exists>line. describe_session e stored = Some line \<and> Note line \<in> set ns)"

lemma describe_all_shows:
  "describe_all e ss h = (Inr (), h') \<Longrightarrow> \<exists>more. notices h' = notices h @ more \<and> described_in e ss more"
proof (induction e ss arbitrary: h rule: describe_all.induct)
  case (2 e stored rest)
  obtain line h1 where line: "describe_session e stored = Some line" "describe_all e rest h1 = (Inr (), h')"
      "notices h1 = notices h @ [Note line]"
    using 2(2) by (auto simp: or_raise_def show_notice_def elim!: bind_cli_Inr split: option.splits)
  from 2(1)[OF line(2)] obtain more where "notices h' = notices h1 @ more" "described_in e rest more" by blast
  with line show ?case by (intro exI[of _ "Note line # more"]) (auto simp: described_in_def)
qed (auto simp: described_in_def return_cli_def)

lemma ask_consentD:
  "ask_consent e a q h = (Inr True, h') \<Longrightarrow> (opt_yes a \<or> consents e q (notices h) = Some True) \<and> h' = h"
  by (auto simp: ask_consent_def or_raise_def return_cli_def split: if_splits option.splits)

text \<open>
  C29. Nothing saved is deleted unasked. Deleting changes no file unless the user said yes, with
  every session to be deleted described on the screen in front of them, or asked for no questions
  with \<open>--yes\<close>, and then too nothing goes before all have been described. The files that go are
  those named after the ids of the sessions described, directly in the sessions directory;
  no other file is touched. (A file that was copied under another name
  still holds the id of the original: what goes is the file named after the id.)
\<close>

theorem deletion_needs_consent:
  assumes "delete_sessions e a ws h = (result, h')"
  shows "disk h' = disk h \<or>
    (\<exists>doomed what h1 h2 told. doomed_sessions e a ws h = (Inr (doomed, what), h1) \<and>
       described_in e doomed (notices h2) \<and> disk h2 = disk h \<and>
       (opt_yes a \<or> consents e (''Permanently delete '' @ what @ ''?'') (notices h2) = Some True) \<and>
       h' = h2\<lparr>disk := disk h', notices := notices h2 @ told\<rparr> \<and>
       (\<forall>p. disk h' p = disk h p \<or> disk h' p = None \<and>
          (\<exists>stored \<in> set doomed. p = realpath_of (cli_store e) (cli_sessions e) @ [json_str (stored_id stored) @ ''.json''])))"
proof -
  obtain r h1 where doomed: "doomed_sessions e a ws h = (r, h1)" by fastforce
  have same1: "disk h1 = disk h" by (rule keepsD[OF keeps_doomed doomed])
  show ?thesis
  proof (cases r)
    case (Inl s)
    with assms doomed same1 have "disk h' = disk h" by (auto simp: delete_sessions_def bind_cli_def)
    then show ?thesis ..
  next
    case (Inr found)
    obtain ds what where found: "found = (ds, what)" by fastforce
    show ?thesis
    proof (cases "ds = []")
      case True
      with assms doomed same1 Inr found have "disk h' = disk h"
        by (auto simp: delete_sessions_def bind_cli_def show_notice_def return_cli_def)
      then show ?thesis ..
    next
      case False
      obtain r2 h2 where described: "describe_all e ds h1 = (r2, h2)" by fastforce
      obtain r3 h3 where consent: "ask_consent e a (''Permanently delete '' @ what @ ''?'') h2 = (r3, h3)" by fastforce
      have same: "disk h2 = disk h" "disk h3 = disk h"
        using keepsD[OF keeps_describe described] keepsD[OF keeps_consent consent] same1 by simp_all
      show ?thesis
      proof (cases "r2 = Inr () \<and> r3 = Inr True")
        case True
        then have yes: "opt_yes a \<or> consents e (''Permanently delete '' @ what @ ''?'') (notices h2) = Some True" "h3 = h2"
          using ask_consentD[of e a _ h2 h3] consent by blast+
        have seen: "described_in e ds (notices h2)"
          using describe_all_shows[of e ds h1 h2] described True by (auto simp: described_in_def)
        have "\<exists>told. h' = h2\<lparr>disk := snd (delete_each (cli_store e) (cli_sessions e) ds (disk h2)), notices := notices h2 @ told\<rparr>"
          using assms doomed Inr found False described consent True yes(2)
          by (auto simp: delete_sessions_def bind_cli_def delete_doomed_def show_notice_def return_cli_def Let_def
              split: prod.splits)
        then obtain told where h': "h' = h2\<lparr>disk := snd (delete_each (cli_store e) (cli_sessions e) ds (disk h2)), notices := notices h2 @ told\<rparr>" ..
        then have "disk h' p = disk h p \<or> disk h' p = None \<and>
            (\<exists>stored \<in> set ds. p = realpath_of (cli_store e) (cli_sessions e) @ [json_str (stored_id stored) @ ''.json''])" for p
          using delete_each_at[of "cli_store e" "cli_sessions e" ds "disk h" p] by (simp add: same)
        then show ?thesis
          using doomed Inr found same(1) seen yes(1) h'
          by (intro disjI2 exI[of _ ds] exI[of _ what] exI[of _ h1] exI[of _ h2] exI[of _ told]) simp
      next
        case False
        with assms doomed Inr found \<open>ds \<noteq> []\<close> described consent same have "disk h' = disk h"
          by (cases r2; cases r3) (auto simp: delete_sessions_def bind_cli_def show_notice_def return_cli_def split: if_splits)
        then show ?thesis ..
      qed
    qed
  qed
qed

section \<open>Nothing said is lost\<close>

lemma ask_turnD:
  "ask_turn L message st = Some (staying, st', told) \<Longrightarrow>
   \<exists>how. ask_cancellable (left_by_cut L) (loop_world L) message (cut_at L message st) st = Some (how, st')"
  by (auto simp: ask_turn_def Let_def split: option.splits sum.splits)

lemma objects_of_map: "objects_of (map JObj ms) = Some ms"
  by (induction ms) simp_all

text \<open>
  C28. Nothing said is lost. After every turn that was saved, finished or interrupted wherever it
  waits, loading the session gives the whole conversation: all that was archived before the turn,
  the message of the user (with the rules before it the first time), and what the turn added. Of
  this the messages of the assistant are the replies of the model, in order, as a recording of the
  same turn shows, and whatever the model will be sent next, short of notes of compaction, either
  was there before the turn or is in what is loaded.
\<close>

theorem nothing_said_is_lost:
  assumes turn: "ask_turn L message (s0, w0) = Some (staying, (s, w), told)"
    and kept: "keep_session L e sessions False session_id model (s, w) = ((s', w'), [])"
    and "storable e (clock_in L w) sessions session_id (files_of L w)" and "list_all json_ok (map JObj (history s))"
    and "plain_path (root (workspace_in L w))" and files: "\<forall>fs. files_of L (put_files L fs w) = fs"
  shows "\<exists>stored more how replies. load e sessions session_id (files_of L w') = Found stored \<and>
    objects_of (stored_messages stored) = Some (history s0 @ opening_message s0 message # more) \<and>
    ask_cancellable (leaving_recorded (left_by_cut L)) (recording (loop_world L)) message
      (cut_at L message (s0, w0)) (s0, w0, []) = Some (how, s, w, replies) \<and>
    filter said_by_model more = replies \<and>
    set (messages s') \<subseteq> set (messages s0) \<union> set (opening_message s0 message # more) \<union> compaction_notes"
proof -
  obtain p fs where saved: "save e (clock_in L w) sessions session_id (git_in L w) (workspace_in L w) model
        (map JObj (history s)) (files_of L w) = (Inr p, fs)" and w': "w' = put_files L fs w" and s': "s' = s"
    using kept by (auto simp: keep_session_def split: prod.splits sum.splits)
  define stored where "stored = saved_session e (clock_in L w) session_id (git_in L w) (workspace_in L w) model
    (map JObj (history s)) (files_of L w)"
  have found: "load e sessions session_id (files_of L w') = Found stored"
    using load_saved[OF saved assms(3-5), where later = fs] by (simp add: w' files stored_def)
  obtain how where "ask_cancellable (left_by_cut L) (loop_world L) message (cut_at L message (s0, w0)) (s0, w0) = Some (how, s, w)"
    using ask_turnD[OF turn] by blast
  from ask_recorded[OF this] obtain replies more where
    recorded: "ask_cancellable (leaving_recorded (left_by_cut L)) (recording (loop_world L)) message
      (cut_at L message (s0, w0)) (s0, w0, []) = Some (how, s, w, replies)" "filter said_by_model more = replies"
      "set (messages s) \<subseteq> set (messages s0) \<union> set (opening_message s0 message # more) \<union> compaction_notes"
    and history: "history s = history s0 @ opening_message s0 message # more" by blast
  have "objects_of (stored_messages stored) = Some (history s0 @ opening_message s0 message # more)"
    unfolding history[symmetric] by (simp add: stored_def saved_session_def objects_of_map)
  with found recorded show ?thesis unfolding s' by blast
qed

section \<open>The sandbox switch\<close>

definition last_word :: "bool \<Rightarrow> (string \<times> string list) list \<Rightarrow> bool" where
  "last_word otherwise occurrences =
     fold (\<lambda>(name, vs) b. if name = ''--sandbox'' then True else if name = ''--no-sandbox'' then False else b)
       occurrences otherwise"

lemma apply_option_sandbox:
  "apply_option py_float (name, vs) a = Some a' \<Longrightarrow>
   opt_sandbox a' = (if name = ''--sandbox'' then True else if name = ''--no-sandbox'' then False else opt_sandbox a)"
  by (auto simp: apply_option_def apply_flag_def apply_value_def split: list.splits if_splits)

lemma apply_options_sandbox:
  "apply_options py_float occurrences a = Some a' \<Longrightarrow> opt_sandbox a' = last_word (opt_sandbox a) occurrences"
proof (induction occurrences arbitrary: a)
  case (Cons x xs)
  obtain name vs where x: "x = (name, vs)" by fastforce
  with Cons.prems obtain a1 where a1: "apply_option py_float (name, vs) a = Some a1" "apply_options py_float xs a1 = Some a'"
    by (auto split: option.splits)
  from Cons.IH[OF a1(2)] apply_option_sandbox[OF a1(1)] show ?case by (simp add: x last_word_def)
qed (simp add: last_word_def)

text \<open>The option decides, the last one if there are several, and else the environment.\<close>

lemma sandbox_switch:
  "parse_args environ py_float occurrences words = Some a \<Longrightarrow>
   opt_sandbox a = last_word (switched_on environ ''ASSIST_SANDBOX'') occurrences"
  using apply_options_sandbox by (fastforce simp: parse_args_def default_args_def)

section \<open>Witnesses\<close>

definition sample_docker :: "unit docker" where
  "sample_docker args d = (Finished \<lparr>returncode = 0, stdout = ''running'', stderr = []\<rparr>, d)"

definition sample_cli :: "unit cli_env" where
  "sample_cli = \<lparr>cli_store = Store.sample_env, cli_sessions = [''home''], cli_cache_root = [''cache''], cli_now = 9,
     cli_environ = (\<lambda>n. if n = ''MODEL_ID'' then Some ''m'' else None), path_of = (\<lambda>s. [''repo'']), git_at = (\<lambda>fs r. no_git),
     cli_profiles = sample_profiles,
     cli_plugins = \<lparr>plugin_store = Store.sample_env, disk_of = disk, exec_module = (\<lambda>p h. (Failed, h)),
       plugin_environ = (\<lambda>_. None), plugin_expanduser = components, plugin_home = [''home'']\<rparr>,
     cli_rglob = (\<lambda>fs p. []), cli_which = (\<lambda>_. True), cli_probe = (\<lambda>_. Timed_Out), cli_docker = sample_docker,
     cli_user = ''1:1'', fresh_id = ''s2'', explain_import = [], local_time = (\<lambda>_. ''now''), one_decimal = (\<lambda>_. ''0.0''),
     consents = (\<lambda>question screen. Some (screen \<noteq> []))\<rparr>"

definition sandboxed_args :: cli_args where
  "sandboxed_args = (default_args (\<lambda>_. None) [])\<lparr>opt_sandbox := True\<rparr>"

definition sample_host :: "unit host" where
  "sample_host = \<lparr>disk = snd sample_save, containers = (), notices = []\<rparr>"

lemma session_starts_guarded_witness:
  "\<exists>st h'. run_until_session sample_cli sandboxed_args sample_host = (Inr st, h') \<and>
     sandbox_as_asked sample_cli sandboxed_args [''repo''] (started_sandbox st) \<and> started_sandbox st \<noteq> Host_Sandbox"
proof -
  have "case fst (run_until_session sample_cli sandboxed_args sample_host) of
      Inl _ \<Rightarrow> False | Inr st \<Rightarrow> root (started_workspace st) = [''repo'']"
    by code_simp
  then obtain st h' where run: "run_until_session sample_cli sandboxed_args sample_host = (Inr st, h')"
      "root (started_workspace st) = [''repo'']"
    by (cases "run_until_session sample_cli sandboxed_args sample_host") (auto split: sum.splits)
  from session_starts_guarded[OF run(1)] run(2)
  have "sandbox_as_asked sample_cli sandboxed_args [''repo''] (started_sandbox st)" by (simp add: Let_def)
  with run(1) show ?thesis by (auto simp: sandbox_as_asked_def sandboxed_args_def)
qed

text \<open>A user who says yes once something is on the screen.\<close>

lemma deletion_needs_consent_witness:
  "\<exists>h' stored line. delete_sessions sample_cli (sandboxed_args\<lparr>opt_delete := [''s1'']\<rparr>) Store.sample_workspace sample_host = (Inr 0, h') \<and>
     disk h' [''home'', ''s1.json''] = None \<and> describe_session sample_cli stored = Some line \<and> Note line \<in> set (notices h') \<and>
     json_str (stored_id stored) = ''s1''"
proof -
  let ?a = "sandboxed_args\<lparr>opt_delete := [''s1'']\<rparr>" and ?p = "[''home'', ''s1.json'']"
  obtain result h' where run: "delete_sessions sample_cli ?a Store.sample_workspace sample_host = (result, h')" by fastforce
  have "fst (delete_sessions sample_cli ?a Store.sample_workspace sample_host) = Inr 0"
    "disk (snd (delete_sessions sample_cli ?a Store.sample_workspace sample_host)) ?p = None" "disk sample_host ?p \<noteq> None"
    by code_simp+
  then have gone: "result = Inr 0" "disk h' ?p = None" "disk h' \<noteq> disk sample_host" "disk h' ?p \<noteq> disk sample_host ?p"
    using run by auto
  from deletion_needs_consent[OF run] gone(3) obtain doomed h2 told where
    seen: "described_in sample_cli doomed (notices h2)" "h' = h2\<lparr>disk := disk h', notices := notices h2 @ told\<rparr>"
    and gone_by_id: "\<forall>p. disk h' p = disk sample_host p \<or> disk h' p = None \<and> (\<exists>stored \<in> set doomed.
      p = realpath_of (cli_store sample_cli) (cli_sessions sample_cli) @ [json_str (stored_id stored) @ ''.json''])" by blast
  from gone_by_id gone(4) obtain stored where stored: "stored \<in> set doomed"
    "?p = realpath_of (cli_store sample_cli) (cli_sessions sample_cli) @ [json_str (stored_id stored) @ ''.json'']" by blast
  from seen(1) stored(1) obtain line where line: "describe_session sample_cli stored = Some line" "Note line \<in> set (notices h2)"
    by (auto simp: described_in_def)
  have "notices h' = notices h2 @ told" using arg_cong[OF seen(2), of notices] by simp
  moreover have "json_str (stored_id stored) = ''s1''"
    using stored(2) by (simp add: sample_cli_def Store.sample_env_def append_eq_Cons_conv)
  ultimately show ?thesis using run gone line by auto
qed

text \<open>
  A model that calls a tool, and a user who presses Ctrl-C while it runs: the first await, the
  model's turn, passes, and the cancel lands in the second.
\<close>

definition listing_reply :: assistant_turn where
  "listing_reply = empty_turn\<lparr>tool_calls := [\<lparr>call_id = ''c1'', call_name = ''list_files'', call_arguments = []\<rparr>]\<rparr>"

definition cut_loop :: "fs loop_env" where
  "cut_loop = \<lparr>loop_world = \<lparr>approval_for = (\<lambda>n d w. None), ask_user = (\<lambda>r w. (Declined, w)), invoke = (\<lambda>n d w. None),
       model_turn = (\<lambda>ms w. (Turn listing_reply [raw_call ''c1'' ''list_files'' ''{}''], w)), edited_files = (\<lambda>w. [])\<rparr>,
     interrupted = (\<lambda>m st. Some ([7], 1)), left_by_cut = (\<lambda>c w. w), files_of = id, put_files = (\<lambda>fs w. fs),
     workspace_in = (\<lambda>w. Store.sample_workspace), git_in = (\<lambda>w. no_git), clock_in = (\<lambda>w. 9), explain_os = []\<rparr>"

lemma nothing_said_is_lost_witness:
  "\<exists>w' stored more. load Store.sample_env [''home''] ''s1'' w' = Found stored \<and>
     objects_of (stored_messages stored) = Some (user_message ''one'' # user_message ''two'' # more) \<and>
     filter said_by_model more = [as_message listing_reply [raw_call ''c1'' ''list_files'' ''{}'']]"
proof -
  let ?before = "open_session [user_message ''one''] 0 False"
  let ?reply = "as_message listing_reply [raw_call ''c1'' ''list_files'' ''{}'']"
  let ?asked = "say ?reply (say (user_message ''two'') ?before)"
  let ?later = "say (tool_message ''c1'' INTERRUPTED) ?asked"
  have before: "?before\<lparr>rules_sent := True\<rparr> = ?before" "rules_sent ?before" "context_window ?before = 0"
    by (simp_all add: open_session_def)
  have "unanswered_tool_calls ?asked = Some [''c1'']" by code_simp
  then have repair: "repair_after_cancel ?asked = Some (1, ?later)" by (simp add: repair_after_cancel_def)
  note run = ask_cancellable_def ask_until_def MAX_STEPS_def numeral_eq_Suc compact_if_needed_def before cancels_def
    awaited_def opening_message_def run_until_def recorded_turn repair
  have turn: "\<exists>told. ask_turn cut_loop ''two'' (?before, sample_fs) = Some (True, (?later, sample_fs), told)"
    by (simp add: ask_turn_def cut_loop_def cut_at_def interrupt_times_def run listing_reply_def[THEN arg_cong[where f = tool_calls]]
        empty_turn_def DOUBLE_INTERRUPT_SECONDS_def Let_def)
  then obtain told where turn: "ask_turn cut_loop ''two'' (?before, sample_fs) = Some (True, (?later, sample_fs), told)" ..
  have "fst (save Store.sample_env 9 [''home''] ''s1'' no_git Store.sample_workspace ''m'' (map JObj (history ?later)) sample_fs)
      = Inr [''home'', ''s1.json'']"
    by code_simp
  then obtain fs where "save Store.sample_env 9 [''home''] ''s1'' no_git Store.sample_workspace ''m'' (map JObj (history ?later)) sample_fs
      = (Inr [''home'', ''s1.json''], fs)" by (metis prod.collapse)
  then have kept: "keep_session cut_loop Store.sample_env [''home''] False ''s1'' ''m'' (?later, sample_fs) = ((?later, fs), [])"
    by (simp add: keep_session_def cut_loop_def)
  have ok: "list_all json_ok (map JObj (history ?later))" by code_simp
  obtain stored more how replies where
    stored: "load Store.sample_env [''home''] ''s1'' (files_of cut_loop fs) = Found stored"
      "objects_of (stored_messages stored) = Some (history ?before @ opening_message ?before ''two'' # more)"
    and recorded: "ask_cancellable (leaving_recorded (left_by_cut cut_loop)) (recording (loop_world cut_loop)) ''two''
        (cut_at cut_loop ''two'' (?before, sample_fs)) (?before, sample_fs, []) = Some (how, ?later, sample_fs, replies)"
    and said: "filter said_by_model more = replies"
    using nothing_said_is_lost[OF turn kept] ok sample_storable sample_plain(2) by (auto simp: cut_loop_def)
  from recorded have "replies = [?reply]"
    by (simp add: cut_loop_def cut_at_def run listing_reply_def[THEN arg_cong[where f = tool_calls]] empty_turn_def Let_def)
  with stored said show ?thesis by (auto simp: cut_loop_def open_session_def opening_message_def)
qed

end
