(* ===== verification/Spec2Isabelle.thy ===== *)
theory Spec2Isabelle
  imports End_To_End Lifecycle Documents Example_Plugin Reports Cli
begin

text \<open>
  This development models the two Python packages of the repository.

  \<^bold>\<open>The gateway\<close>, \<open>src/src/llm_assistant_api\<close>, stands between OpenAI clients and one or more
  vLLM servers. Every request passes two middlewares (a size limit, and the one that counts
  it) and is dispatched to a route. The routes under \<open>/v1\<close> are guarded (\<open>deps.py\<close>: the rate
  limiter, then the bearer token); a chat or completion request is routed by its model name,
  normalised (message shapes, tool-call arguments), capped, compared with the context
  budget, and forwarded with retries under the circuit breaker of its upstream; the reply, or
  the error, goes back in the OpenAI envelope. On shutdown the requests in flight are awaited.

  \<^bold>\<open>The agent\<close>, \<open>src/src/llm_assistant_agent\<close>, is a command-line client of the gateway. From
  its options it opens a workspace, resumes or imports a session, loads plugins and gets a
  sandbox ready; then each message of the user is a turn: the session sends the transcript,
  assembles the streamed reply, runs the tool calls in it against the workspace (asking the
  user first where that is due), appends one result per call and goes round again, at most
  forty times. After each turn the conversation is saved.

  \<^bold>\<open>Theories of both\<close>, with the sources they model:
  \<^item> \<open>Prelude\<close>: Python's string operations on Latin-1 text, list lemmas, and runs of a
    step function over a list of calls (\<open>trace\<close>, \<open>after\<close>).
  \<^item> \<open>Json\<close>, \<open>Json_Codec\<close>: JSON values as Python sees them, ordered dictionaries, the
    parser \<open>json.loads\<close> and the printer \<open>json.dumps\<close>, and that parsing undoes printing
    (locale \<open>json_codec\<close>, interpreted as \<open>codec\<close>).

  \<^bold>\<open>Theories of the gateway\<close>:
  \<^item> \<open>Rate_Limiting\<close>: \<open>rate_limiting.py\<close>. The deques against the sliding window they stand
    for (locale \<open>sliding_log\<close>, interpreted as \<open>limiter\<close>). The limits hold per endpoint and client,
    without Redis, and for windows no longer than the global one.
  \<^item> \<open>Circuit_Breaker\<close>: \<open>_CircuitBreaker\<close> and its registry in \<open>proxy.py\<close>, a dictionary in the
    order of first use. The breaker prunes its list of failures and stores its state; it refines
    the ideal circuit, which keeps the whole list and is given by window, threshold and timeout.
  \<^item> \<open>Config\<close>: \<open>config.py\<close> and the start-up part of \<open>main.py\<close>.
  \<^item> \<open>Tool_Calls\<close>, \<open>Payload\<close>, \<open>Context_Guard\<close>: \<open>toolcalls.py\<close>, \<open>payload.py\<close>, \<open>context.py\<close>, and
    the routing and preparation part of \<open>proxy.py\<close>: what is repaired, capped and kept, field
    by field, and that the result is JSON again.
  \<^item> \<open>Upstream\<close>: retries and forwarding in \<open>proxy.py\<close>, the exception handlers of \<open>main.py\<close>
    and the route handler of \<open>routes/openai_compat.py\<close> (locale \<open>fail_fast\<close>, interpreted
    as \<open>gateway\<close>). An exchange gives its result and the number of calls that went out; a stream
    is its chunks and the exception that breaks it, if \<open>relay\<close> does not swallow it.
  \<^item> \<open>Access\<close>: \<open>deps.py\<close>: who passes, and what the others are told, waiting included.
  \<^item> \<open>Metrics\<close>: \<open>metrics.py\<close>, the counters, percentiles and the Prometheus text.
  \<^item> \<open>Gateway\<close>: the route table, \<open>routes/health.py\<close>, \<open>routes/retrieval.py\<close>, the middlewares,
    serving a request from end to end, and draining (\<open>main.py\<close>). The dispatcher holds every
    route the application has, the administration of the circuits among them.
  \<^item> \<open>Logging\<close>, \<open>Lifecycle\<close>: \<open>logging_config.py\<close>, one line per record; \<open>create_app\<close>, the lifespan
    and the signal handlers (\<open>main.py\<close>).

  \<^bold>\<open>Theories of the agent\<close>:
  \<^item> \<open>Edits\<close>: \<open>edits.py\<close>. When an edit applies, what it changes, what its
    diagnostics say when it does not, and the diff that is shown of it.
  \<^item> \<open>Workspace\<close>, \<open>Git\<close>: \<open>workspace.py\<close>: paths, cached reads, writes, what was seen (locale
    \<open>content_cache\<close>, interpreted as \<open>lru\<close>); git status, diffs, several workspaces.
  \<^item> \<open>Checks\<close>, \<open>Sandbox\<close>: \<open>checks.py\<close>, \<open>sandbox.py\<close>: the command of a check and how the shell
    reads it, running and dropping checkers; the life of the container and what it can reach.
  \<^item> \<open>Tools\<close>: \<open>tools.py\<close>. Every tool, what has to be approved, that what was approved is
    what happens, and the abstract effects (\<open>tool_effect\<close>) beyond which no tool goes.
  \<^item> \<open>Client\<close>, \<open>Requests\<close>: \<open>client.py\<close>. Assembling a streamed reply; the request of a turn, and
    that the gateway repairs nothing in the requests of a session (locale \<open>asking\<close>, the
    invariants of the loop, interpreted as \<open>recorded\<close>).
  \<^item> \<open>Session\<close>, \<open>Agent\<close>: \<open>session.py\<close>. The loop, the tool calls and their results,
    the repair after a cancel, compaction (locale \<open>turn_source\<close>, interpreted as \<open>chat\<close>); the session
    over its tool box.
  \<^item> \<open>Interrupts\<close>: a turn that is cancelled in one of its awaits (the model's turn, a tool in its
    thread), counted from the start of the turn; without a cancel it is the loop of \<open>Session\<close>. A
    recording of the model's replies says what a turn has to add to the archive.
  \<^item> \<open>Documents\<close>: \<open>documents.py\<close>. Digests of PDF, delimited files and workbooks; \<open>csv.reader\<close> as
    the automaton it is, and that it reads a quoted table back.
  \<^item> \<open>Render\<close>, \<open>Reports\<close>: \<open>render.py\<close> and \<open>_Stream\<close> of \<open>session.py\<close>: the text written, approvals, the
    spinner; what is shown of the calls of a turn.
  \<^item> \<open>Store\<close>, \<open>Cache\<close>: \<open>store.py\<close>, \<open>cache.py\<close>: sessions and answers on disk.
  \<^item> \<open>Profiles\<close>, \<open>Plugins\<close>: \<open>profiles.py\<close>, \<open>plugins.py\<close>: search order, loading, applying;
    \<open>Example_Plugin\<close>: \<open>examples/example_plugin.py\<close>.
  \<^item> \<open>Cli\<close>: \<open>cli.py\<close>. Options, settings, saved sessions, the way to a session, turns,
    interrupts and the loop, composed of the theories above.

  \<^bold>\<open>Both together\<close>: \<open>End_To_End\<close>, a turn of the agent over the gateway: that the gateway is
  transparent to a turn it lets through, broken streams included but for those the network
  breaks, and that its refusals reach the user word for word. The record \<open>wire\<close> is the HTTP
  framework and client between them: how JSON is written into a body, how a stream is cut into
  lines, and what the client is told of one that breaks off.

  \<^bold>\<open>Conventions.\<close> State is a record and an operation returns it updated; a raise the
  callers handle is the left of a sum, one that nobody handles is None, or the left of a sum
  where the effects before it matter. Dictionaries whose order is visible are association
  lists. Characters are Latin-1, so \<open>py_lower\<close>, \<open>py_isspace\<close> and \<open>splitlines\<close> agree with
  Python on those characters only. Floating-point numbers are rationals, in JSON their text;
  clock readings are arguments. The file system is a map from paths to nodes. Loops terminate
  by a measure: the retry loop after three calls (\<open>MAX_RETRY_ATTEMPTS\<close>), the ask loop after
  forty (\<open>MAX_STEPS\<close>), the drain loop after three hundred rounds (thirty seconds), all three
  bounds of the code; the command loop recurses over the user's input.

  \<^bold>\<open>Parameters\<close>, which stand for what is not in the repository: what the network and the
  model answer, \<open>ast.literal_eval\<close>, SHA-256, the answers of git and docker, what a shell command
  does, Python's compiler, \<open>difflib\<close>, regular expressions of a search, the YAML reader, the
  code of plugins, the PDF and spreadsheet libraries and \<open>csv.Sniffer\<close>, how JSON is rendered
  on the wire and a stream cut into lines, what the operating system makes of symbolic links and
  in which order it lists a directory, how dates and floats are printed, how \<open>argparse\<close>
  cuts the command line into options, what the user answers, seeing the screen, when the user
  presses Ctrl-C, and how the world is left by a tool that was running then.

  \<^bold>\<open>What the theorems ask of parameters\<close> is said in each: that checkers do not write, that
  \<open>difflib\<close> shows something where two texts differ, that \<open>randbelow\<close> stays below its bound, that
  SHA-256 tells apart the two requests a cache theorem compares, that a clock does not run
  backwards.

  \<^bold>\<open>Theorems about defects.\<close> Some theorems show the code to do what its comments or tests do not
  say: among them \<open>half_open_never_reopens\<close>, \<open>long_window_forgotten\<close>, \<open>overlapping_anchor_applied\<close>,
  \<open>change_before_save_regranted\<close>, \<open>cut_stream_looks_complete\<close>, \<open>told_wait_too_short\<close>,
  \<open>shared_id_miscounted\<close>, \<open>giving_up_leaves_calls_open\<close>. The properties beside them are stated
  so as to leave these cases out, and say so.

  \<^bold>\<open>Not modelled\<close>: threads and locks (operations are atomic), the Redis server, how the web
  framework adds CORS headers and parses a request, the frames of the spinner between the
  reports of tool calls, and the VS Code extension, which is TypeScript.
\<close>

end
